(* ===== verification/Prelude.thy ===== *)
theory Prelude
  imports Complex_Main "HOL-Library.AList" "HOL-Library.List_Lexorder" "HOL-Library.Char_ord" "HOL-Library.Multiset"
begin

text \<open>
  Generic material the components share: results (an error or a value), Python's ordered
  dictionaries as association lists, and the string methods the source calls.  A Python
  \<open>str\<close> is a HOL \<open>string\<close>: each character is one code point below 256.  Time stamps are
  rationals (the value a float clock denotes).

  Collections: \<open>py_simps\<close> gathers the evaluation rules of the string and dictionary helpers
  for closed terms, \<open>frame_rules\<close> the facts that an engine hook leaves the identifying
  fields of the context alone, \<open>inv_rules\<close> the preservation lemmas of component invariants.
\<close>

named_theorems py_simps
named_theorems frame_rules
named_theorems inv_rules

section \<open>Results\<close>

text \<open>\<open>Inl e\<close> is a raised exception, \<open>Inr x\<close> a returned value.\<close>

type_synonym time = rat

definition bindR :: "'e + 'a \<Rightarrow> ('a \<Rightarrow> 'e + 'b) \<Rightarrow> 'e + 'b" where
  "bindR r f = (case r of Inl e \<Rightarrow> Inl e | Inr x \<Rightarrow> f x)"

lemma bindR_simps [simp]:
  "bindR (Inl e) f = Inl e"
  "bindR (Inr x) f = f x"
  by (simp_all add: bindR_def)

lemma bindR_eq_Inr: "bindR r f = Inr y \<longleftrightarrow> (\<exists>x. r = Inr x \<and> f x = Inr y)"
  by (cases r) auto

lemma bindR_eq_Inl: "bindR r f = Inl e \<longleftrightarrow> r = Inl e \<or> (\<exists>x. r = Inr x \<and> f x = Inl e)"
  by (cases r) auto

text \<open>\<open>require b e\<close> is the source's \<open>if not b: raise e\<close>.\<close>

definition require :: "bool \<Rightarrow> 'e \<Rightarrow> 'e + unit" where
  "require b e = (if b then Inr () else Inl e)"

lemma require_simps [simp]:
  "require b e = Inr u \<longleftrightarrow> b"
  "require b e = Inl x \<longleftrightarrow> \<not> b \<and> x = e"
  by (auto simp: require_def)

lemma require_True [simp]: "require True e = Inr ()"
  by (simp add: require_def)

lemma require_False [simp]: "require False e = Inl e"
  by (simp add: require_def)

definition is_ok :: "'e + 'a \<Rightarrow> bool" where
  "is_ok r = (case r of Inl _ \<Rightarrow> False | Inr _ \<Rightarrow> True)"

lemma is_ok_simps [simp]: "is_ok (Inl e) = False" "is_ok (Inr x) = True"
  by (simp_all add: is_ok_def)

lemma is_ok_iff: "is_ok r \<longleftrightarrow> (\<exists>x. r = Inr x)"
  by (cases r) auto

section \<open>Dictionaries\<close>

text \<open>
  A Python dictionary is an association list in insertion order: \<open>map_of\<close> is \<open>get\<close>,
  \<open>AList.update\<close> is \<open>d[k] = v\<close> (an existing key keeps its place, a new one goes last), and
  \<open>AList.delete\<close> is \<open>d.pop(k, None)\<close>.
\<close>

type_synonym ('k, 'v) dict = "('k \<times> 'v) list"

abbreviation dget :: "('k, 'v) dict \<Rightarrow> 'k \<Rightarrow> 'v option" where
  "dget \<equiv> map_of"

abbreviation dhas :: "('k, 'v) dict \<Rightarrow> 'k \<Rightarrow> bool" where
  "dhas d k \<equiv> k \<in> fst ` set d"

definition wf_dict :: "('k, 'v) dict \<Rightarrow> bool" where
  "wf_dict d = distinct (map fst d)"

lemma wf_dict_Nil [simp]: "wf_dict []"
  by (simp add: wf_dict_def)

lemma wf_dict_update [simp, intro]: "wf_dict d \<Longrightarrow> wf_dict (AList.update k v d)"
  by (simp add: wf_dict_def distinct_update)

lemma wf_dict_delete [simp, intro]: "wf_dict d \<Longrightarrow> wf_dict (AList.delete k d)"
  by (simp add: wf_dict_def distinct_delete)

lemma wf_dict_filter [simp, intro]: "wf_dict d \<Longrightarrow> wf_dict (filter P d)"
  unfolding wf_dict_def by (rule distinct_map_filter)

lemma dget_filter:
  "wf_dict d \<Longrightarrow> dget (filter P d) k
     = (case dget d k of None \<Rightarrow> None | Some v \<Rightarrow> if P (k, v) then Some v else None)"
proof (induction d)
  case (Cons p d)
  obtain k' u where p: "p = (k', u)" by (cases p)
  from Cons.prems p have wf: "wf_dict d" and new: "k' \<notin> fst ` set d"
    by (auto simp: wf_dict_def)
  have "k' \<notin> fst ` set (filter P d)" using new by auto
  with new have "dget d k' = None" "dget (filter P d) k' = None"
    by (simp_all only: map_of_eq_None_iff not_False_eq_True)
  with Cons.IH [OF wf] p show ?case by auto
qed simp

lemma dhas_conv_dget: "dhas d k \<longleftrightarrow> dget d k \<noteq> None"
  by (simp add: map_of_eq_None_iff)

lemma wf_dict_update_new: "\<not> dhas d k \<Longrightarrow> AList.update k v d = d @ [(k, v)]"
  by (induction d) auto

lemma length_update_new: "\<not> dhas d k \<Longrightarrow> length (AList.update k v d) = Suc (length d)"
  by (simp add: wf_dict_update_new)

lemma length_update_old: "dhas d k \<Longrightarrow> length (AList.update k v d) = length d"
  by (induction d) auto

lemma length_update_le: "length (AList.update k v d) \<le> Suc (length d)"
  by (induction d) auto

lemma keys_update: "fst ` set (AList.update k v d) = insert k (fst ` set d)"
  by (induction d) auto

lemma dhas_delete [simp]: "dhas (AList.delete k d) j \<longleftrightarrow> j \<noteq> k \<and> dhas d j"
  by (simp add: dhas_conv_dget delete_conv')

lemma dhas_update [simp]: "dhas (AList.update k v d) j \<longleftrightarrow> j = k \<or> dhas d j"
  by (simp add: keys_update)

lemma length_delete_le: "length (AList.delete k d) \<le> length d"
  by (simp add: AList.delete_eq)

lemma length_filter_filter: "length (filter Q (filter P xs)) \<le> length (filter Q xs)"
  by (induction xs) auto

lemma set_update_subset: "set (AList.update k v d) \<subseteq> insert (k, v) (set d)"
  by (induction d) auto

text \<open>
  In a well-formed dictionary \<open>d[k] = v\<close> replaces exactly the old entry of \<open>k\<close>; this counts
  the entries that satisfy a predicate.
\<close>

lemma length_filter_update:
  "wf_dict d \<Longrightarrow> length (filter P (AList.update k v d))
     + (case dget d k of None \<Rightarrow> 0 | Some u \<Rightarrow> if P (k, u) then 1 else 0)
   = length (filter P d) + (if P (k, v) then 1 else 0)"
proof (induction d)
  case (Cons p d)
  obtain k' u where p: "p = (k', u)" by (cases p)
  from Cons.prems p have wf: "wf_dict d" and new: "dget d k' = None"
    by (auto simp: wf_dict_def map_of_eq_None_iff)
  show ?case using Cons.IH [OF wf] p new by (auto split: option.splits)
qed simp

lemma length_filter_delete:
  "wf_dict d \<Longrightarrow> length (filter P (AList.delete k d))
     + (case dget d k of None \<Rightarrow> 0 | Some u \<Rightarrow> if P (k, u) then 1 else 0)
   = length (filter P d)"
proof (induction d)
  case (Cons p d)
  obtain k' u where p: "p = (k', u)" by (cases p)
  from Cons.prems p have wf: "wf_dict d" and new: "dget d k' = None"
    by (auto simp: wf_dict_def map_of_eq_None_iff)
  have id: "AList.delete k' d = d"
    using new by (simp add: delete_id map_of_eq_None_iff)
  show ?case using Cons.IH [OF wf] p new id by (auto split: option.splits)
qed simp

section \<open>Strings\<close>

definition ord_of :: "char \<Rightarrow> nat" where
  "ord_of c = of_char c"

text \<open>The characters below 256 that \<open>str.isspace\<close> accepts.\<close>

definition py_space :: "char \<Rightarrow> bool" where
  "py_space c = (let n = ord_of c in
     (9 \<le> n \<and> n \<le> 13) \<or> (28 \<le> n \<and> n \<le> 32) \<or> n = 133 \<or> n = 160)"

definition lstrip :: "string \<Rightarrow> string" where
  "lstrip s = dropWhile py_space s"

definition rstrip_of :: "(char \<Rightarrow> bool) \<Rightarrow> string \<Rightarrow> string" where
  "rstrip_of p s = rev (dropWhile p (rev s))"

definition strip :: "string \<Rightarrow> string" where
  "strip s = rstrip_of py_space (lstrip s)"

definition starts_with :: "string \<Rightarrow> string \<Rightarrow> bool" where
  "starts_with p s = (take (length p) s = p)"

definition ends_with :: "string \<Rightarrow> string \<Rightarrow> bool" where
  "ends_with p s = starts_with (rev p) (rev s)"

text \<open>\<open>str.lower\<close> and \<open>str.upper\<close> on code points below 256.\<close>

definition lower_char :: "char \<Rightarrow> char" where
  "lower_char c = (let n = ord_of c in
     if (65 \<le> n \<and> n \<le> 90) \<or> (192 \<le> n \<and> n \<le> 222 \<and> n \<noteq> 215) then char_of (n + 32) else c)"

definition lower :: "string \<Rightarrow> string" where
  "lower s = map lower_char s"

definition upper_char :: "char \<Rightarrow> string" where
  "upper_char c = (let n = ord_of c in
     if n = 223 then ''SS''
     else if (97 \<le> n \<and> n \<le> 122) \<or> (224 \<le> n \<and> n \<le> 254 \<and> n \<noteq> 247) then [char_of (n - 32)]
     else [c])"

definition upper :: "string \<Rightarrow> string" where
  "upper s = concat (map upper_char s)"

text \<open>\<open>s.split(c)\<close> and \<open>s.split(c, 1)\<close> at one character.\<close>

fun split_on :: "char \<Rightarrow> string \<Rightarrow> string list" where
  "split_on c [] = [[]]"
| "split_on c (x # xs) =
     (if x = c then [] # split_on c xs
      else case split_on c xs of [] \<Rightarrow> [[x]] | w # ws \<Rightarrow> (x # w) # ws)"

definition split_on1 :: "char \<Rightarrow> string \<Rightarrow> string list" where
  "split_on1 c s = (case dropWhile (\<lambda>x. x \<noteq> c) s of
     [] \<Rightarrow> [s] | _ # rest \<Rightarrow> [takeWhile (\<lambda>x. x \<noteq> c) s, rest])"

definition join_with :: "char \<Rightarrow> string list \<Rightarrow> string" where
  "join_with c ws = (case ws of [] \<Rightarrow> [] | w # vs \<Rightarrow> w @ concat (map (\<lambda>v. c # v) vs))"

text \<open>\<open>s.split(None, 1)\<close>: leading whitespace is skipped, the rest starts after the gap.\<close>

definition split_ws1 :: "string \<Rightarrow> string list" where
  "split_ws1 s = (let t = lstrip s in
     if t = [] then [] else
       let w = takeWhile (\<lambda>c. \<not> py_space c) t;
           r = lstrip (dropWhile (\<lambda>c. \<not> py_space c) t)
       in if r = [] then [w] else [w, r])"

text \<open>\<open>s.split()\<close>: the maximal runs of non-space characters.\<close>

function split_ws :: "string \<Rightarrow> string list" where
  "split_ws s = (case lstrip s of
     [] \<Rightarrow> []
   | c # t \<Rightarrow> (c # takeWhile (\<lambda>c. \<not> py_space c) t)
              # split_ws (dropWhile (\<lambda>c. \<not> py_space c) t))"
  by pat_completeness auto
termination
proof (relation "measure length")
  fix s x xs
  assume "lstrip s = x # xs"
  then have "length (x # xs) \<le> length s"
    unfolding lstrip_def by (metis length_dropWhile_le)
  moreover have "length (dropWhile (\<lambda>c. \<not> py_space c) xs) \<le> length xs"
    by (rule length_dropWhile_le)
  ultimately show "(dropWhile (\<lambda>c. \<not> py_space c) xs, s) \<in> measure length" by simp
qed simp

declare split_ws.simps [simp del]

definition is_digit :: "char \<Rightarrow> bool" where
  "is_digit c = (48 \<le> ord_of c \<and> ord_of c \<le> 57)"

definition is_alpha :: "char \<Rightarrow> bool" where
  "is_alpha c = ((65 \<le> ord_of c \<and> ord_of c \<le> 90) \<or> (97 \<le> ord_of c \<and> ord_of c \<le> 122))"

lemmas string_defs [py_simps] =
  ord_of_def py_space_def lstrip_def rstrip_of_def strip_def starts_with_def ends_with_def
  lower_char_def lower_def upper_char_def upper_def split_on1_def join_with_def split_ws1_def
  is_digit_def is_alpha_def

lemma starts_with_iff: "starts_with p s \<longleftrightarrow> (\<exists>r. s = p @ r)"
  unfolding starts_with_def by (metis append_eq_conv_conj append_take_drop_id)

lemma split_on_not_Nil [simp]: "split_on c s \<noteq> []"
  by (induction s) (auto split: list.splits)

lemma length_split_on: "length (split_on c s) = Suc (count_list s c)"
proof (induction s)
  case (Cons x s)
  then show ?case using split_on_not_Nil [of c s] by (auto split: list.splits)
qed simp

lemma split_on_append_sep: "c \<notin> set u \<Longrightarrow> split_on c (u @ c # v) = u # split_on c v"
  by (induction u) auto

lemma split_on_none: "c \<notin> set u \<Longrightarrow> split_on c u = [u]"
  by (induction u) auto

lemma dropWhile_hd: "s \<noteq> [] \<Longrightarrow> \<not> p (hd s) \<Longrightarrow> dropWhile p s = s"
  by (cases s) auto

lemma strip_id: "s \<noteq> [] \<Longrightarrow> \<not> py_space (hd s) \<Longrightarrow> \<not> py_space (last s) \<Longrightarrow> strip s = s"
  using dropWhile_hd [of s py_space] dropWhile_hd [of "rev s" py_space]
  by (simp add: strip_def lstrip_def rstrip_of_def hd_rev)

lemma split_on_join_with:
  "ws \<noteq> [] \<Longrightarrow> \<forall>w \<in> set ws. c \<notin> set w \<Longrightarrow> split_on c (join_with c ws) = ws"
proof (induction ws)
  case (Cons w ws)
  then show ?case by (cases ws) (auto simp: join_with_def split_on_append_sep split_on_none)
qed simp

lemma split_on_join: "join_with c (split_on c s) = s"
proof (induction s)
  case (Cons x s)
  then show ?case using split_on_not_Nil [of c s]
    by (cases "split_on c s") (auto simp: join_with_def)
qed (simp add: join_with_def)

lemma split_on_no_sep: "w \<in> set (split_on c s) \<Longrightarrow> c \<notin> set w"
proof (induction s arbitrary: w)
  case (Cons x s)
  then show ?case using split_on_not_Nil [of c s]
    by (cases "split_on c s") (auto split: if_splits)
qed simp

lemma split_on_pair: "split_on c s = [u, v] \<Longrightarrow> s = u @ c # v \<and> c \<notin> set u \<and> c \<notin> set v"
  using split_on_join [of c s] split_on_no_sep [of _ c s] by (auto simp: join_with_def)

text \<open>
  A separator that does not occur in the second part makes the concatenation unambiguous.
\<close>

lemma split_on1_pair:
  assumes "split_on1 c s = [a, r]"
  shows "s = a @ c # r" and "c \<notin> set a"
proof -
  from assms obtain x where d: "dropWhile (\<lambda>x. x \<noteq> c) s = x # r" and a: "a = takeWhile (\<lambda>x. x \<noteq> c) s"
    by (auto simp: split_on1_def split: list.splits)
  have "x = c" using hd_dropWhile [of "\<lambda>x. x \<noteq> c" s] d by simp
  with d a show "s = a @ c # r" using takeWhile_dropWhile_id [of "\<lambda>x. x \<noteq> c" s] by simp
  show "c \<notin> set a" using a by (auto dest: set_takeWhileD)
qed

lemma split_on1_at: "c \<notin> set a \<Longrightarrow> split_on1 c (a @ c # r) = [a, r]"
  by (induction a) (auto simp: split_on1_def split: list.splits)

lemma first_sep_inj:
  "u @ c # v = u' @ c # v' \<Longrightarrow> c \<notin> set u \<Longrightarrow> c \<notin> set u' \<Longrightarrow> u = u' \<and> v = v'"
proof (induction u arbitrary: u')
  case Nil
  then show ?case by (cases u') auto
next
  case (Cons x u)
  then show ?case by (cases u') auto
qed

lemma sep_inj:
  assumes "u @ c # v = u' @ c # v'" and "c \<notin> set v" and "c \<notin> set v'"
  shows "u = u' \<and> v = v'"
proof -
  have "rev v @ c # rev u = rev v' @ c # rev u'"
    using arg_cong [OF assms(1), of rev] by simp
  moreover have "c \<notin> set (rev v)" "c \<notin> set (rev v')" using assms(2,3) by simp_all
  ultimately have "rev v = rev v' \<and> rev u = rev u'" by (rule first_sep_inj)
  then show ?thesis by simp
qed

end
