(* ===== verification/Json.thy ===== *)
theory Json
  imports Prelude
begin

text \<open>
  JSON values and \<open>json.dumps\<close>.  The canonical form \<open>dumps_canon\<close> is
  \<open>json.dumps(v, sort_keys=True, separators=(",", ":"))\<close>, the encoding every digest of the
  library is taken over (audit chain, confirmation binding, request fingerprint, tool
  signatures); \<open>dumps_plain\<close> is the default \<open>json.dumps(v)\<close>.  The lemmas show that the
  encoding is injective up to the order of object keys, so a digest over it binds the value.
  The shortest decimal text of a float (\<open>float.__repr__\<close>) is the parameter \<open>fr\<close>; what is used
  of it is \<open>float_repr_ok\<close>: distinct floats have distinct texts, made of number characters,
  none of them the text of an integer.
\<close>

section \<open>Values\<close>

datatype pyfloat = Fin rat | PosInf | NegInf | NaN

datatype json =
    JNull
  | JBool bool
  | JInt int
  | JFloat pyfloat
  | JStr string
  | JArr "json list"
  | JObj "(string \<times> json) list"

fun jget :: "json \<Rightarrow> string \<Rightarrow> json option" where
  "jget (JObj kvs) k = dget kvs k"
| "jget _ k = None"

fun is_obj :: "json \<Rightarrow> bool" where
  "is_obj (JObj _) = True"
| "is_obj _ = False"

fun is_str :: "json \<Rightarrow> bool" where
  "is_str (JStr _) = True"
| "is_str _ = False"

text \<open>Python's truth value of a JSON value (\<open>if not x\<close>).\<close>

fun truthy :: "json \<Rightarrow> bool" where
  "truthy JNull = False"
| "truthy (JBool b) = b"
| "truthy (JInt i) = (i \<noteq> 0)"
| "truthy (JFloat x) = (x \<noteq> Fin 0)"
| "truthy (JStr s) = (s \<noteq> [])"
| "truthy (JArr xs) = (xs \<noteq> [])"
| "truthy (JObj kvs) = (kvs \<noteq> [])"

section \<open>Numbers and strings as text\<close>

definition digit_char :: "nat \<Rightarrow> char" where
  "digit_char n = char_of (48 + n)"

fun show_nat :: "nat \<Rightarrow> string" where
  "show_nat n = (if n < 10 then [digit_char n] else show_nat (n div 10) @ [digit_char (n mod 10)])"

declare show_nat.simps [simp del]

definition show_int :: "int \<Rightarrow> string" where
  "show_int i = (if i < 0 then CHR ''-'' # show_nat (nat (- i)) else show_nat (nat i))"

definition hex_char :: "nat \<Rightarrow> char" where
  "hex_char n = (if n < 10 then char_of (48 + n) else char_of (87 + n))"

text \<open>The escapes of \<open>ensure_ascii=True\<close>, for code points below 256.\<close>

definition esc_char :: "char \<Rightarrow> string" where
  "esc_char c = (let n = ord_of c in
     if n = 34 then [CHR 92, CHR 34]
     else if n = 92 then [CHR 92, CHR 92]
     else if n = 10 then [CHR 92, CHR ''n'']
     else if n = 13 then [CHR 92, CHR ''r'']
     else if n = 9 then [CHR 92, CHR ''t'']
     else if n = 12 then [CHR 92, CHR ''f'']
     else if n = 8 then [CHR 92, CHR ''b'']
     else if 32 \<le> n \<and> n \<le> 126 then [c]
     else [CHR 92, CHR ''u'', CHR ''0'', CHR ''0'', hex_char (n div 16), hex_char (n mod 16)])"

definition quote_str :: "string \<Rightarrow> string" where
  "quote_str s = CHR 34 # concat (map esc_char s) @ [CHR 34]"

section \<open>The printer\<close>

text \<open>\<open>sp\<close> is what follows a separator: nothing in the compact form, a space by default.\<close>

definition join_sep :: "string \<Rightarrow> string list \<Rightarrow> string" where
  "join_sep sp ws = (case ws of [] \<Rightarrow> []
     | w # vs \<Rightarrow> w @ concat (map (\<lambda>v. CHR '','' # sp @ v) vs))"

function jprint :: "(pyfloat \<Rightarrow> string) \<Rightarrow> string \<Rightarrow> json \<Rightarrow> string" where
  "jprint fr sp JNull = ''null''"
| "jprint fr sp (JBool b) = (if b then ''true'' else ''false'')"
| "jprint fr sp (JInt i) = show_int i"
| "jprint fr sp (JFloat x) = fr x"
| "jprint fr sp (JStr s) = quote_str s"
| "jprint fr sp (JArr xs) = CHR ''['' # join_sep sp (map (jprint fr sp) xs) @ [CHR '']'']"
| "jprint fr sp (JObj kvs) = CHR ''{'' # join_sep sp
     (map (\<lambda>p. quote_str (fst p) @ CHR '':'' # sp @ jprint fr sp (snd p)) kvs) @ [CHR ''}'']"
  by pat_completeness auto
termination
proof (relation "measure (\<lambda>(fr, sp, v). size v)")
  fix sp :: string and kvs and p :: "string \<times> json" and fr :: "pyfloat \<Rightarrow> string"
  assume "p \<in> set kvs"
  then have "size_prod (\<lambda>_. 0) size p \<le> size_list (size_prod (\<lambda>_. 0) size) kvs"
    by (rule size_list_estimation') simp
  then show "((fr, sp, snd p), (fr, sp, JObj kvs)) \<in> measure (\<lambda>(fr, sp, v). size v)"
    by (cases p) simp
next
  fix sp :: string and xs :: "json list" and x and fr :: "pyfloat \<Rightarrow> string"
  assume "x \<in> set xs"
  then have "size x \<le> size_list size xs" by (rule size_list_estimation') simp
  then show "((fr, sp, x), (fr, sp, JArr xs)) \<in> measure (\<lambda>(fr, sp, v). size v)" by simp
qed simp

function canon :: "json \<Rightarrow> json" where
  "canon JNull = JNull"
| "canon (JBool b) = JBool b"
| "canon (JInt i) = JInt i"
| "canon (JFloat x) = JFloat x"
| "canon (JStr s) = JStr s"
| "canon (JArr xs) = JArr (map canon xs)"
| "canon (JObj kvs) = JObj (sort_key fst (map (\<lambda>p. (fst p, canon (snd p))) kvs))"
  by pat_completeness auto
termination
proof (relation "measure size")
  fix kvs and p :: "string \<times> json"
  assume "p \<in> set kvs"
  then have "size_prod (\<lambda>_. 0) size p \<le> size_list (size_prod (\<lambda>_. 0) size) kvs"
    by (rule size_list_estimation') simp
  then show "(snd p, JObj kvs) \<in> measure size" by (cases p) simp
next
  fix xs :: "json list" and x
  assume "x \<in> set xs"
  then have "size x \<le> size_list size xs" by (rule size_list_estimation') simp
  then show "(x, JArr xs) \<in> measure size" by simp
qed simp

definition dumps_canon :: "(pyfloat \<Rightarrow> string) \<Rightarrow> json \<Rightarrow> string" where
  "dumps_canon fr v = jprint fr [] (canon v)"

definition dumps_plain :: "(pyfloat \<Rightarrow> string) \<Rightarrow> json \<Rightarrow> string" where
  "dumps_plain fr v = jprint fr '' '' v"

definition dumps_compact :: "(pyfloat \<Rightarrow> string) \<Rightarrow> json \<Rightarrow> string" where
  "dumps_compact fr v = jprint fr [] v"

section \<open>The encoding is unambiguous\<close>

definition number_char :: "char \<Rightarrow> bool" where
  "number_char c = (is_digit c \<or> c = CHR ''-'')"

definition float_repr_ok :: "(pyfloat \<Rightarrow> string) \<Rightarrow> bool" where
  "float_repr_ok fr \<longleftrightarrow> inj fr \<and> (\<forall>x. fr x \<noteq> []
     \<and> (number_char (hd (fr x)) \<or> hd (fr x) \<in> {CHR ''N'', CHR ''I''})
     \<and> (\<forall>c \<in> set (fr x). number_char c \<or> is_alpha c \<or> c \<in> {CHR ''.'', CHR ''+''})
     \<and> (\<exists>c \<in> set (fr x). \<not> number_char c))"

lemma ord_of_inj: "ord_of c = ord_of d \<longleftrightarrow> c = d"
  by (simp add: ord_of_def)

lemma ord_of_less: "ord_of c < 256"
  by (simp add: ord_of_def)

lemma ord_char_of: "n < 256 \<Longrightarrow> ord_of (char_of n) = n"
  by (simp add: ord_of_def)

lemma digit_char_inj: "m < 10 \<Longrightarrow> n < 10 \<Longrightarrow> digit_char m = digit_char n \<longleftrightarrow> m = n"
  by (auto simp: digit_char_def ord_char_of dest!: arg_cong [where f = ord_of])

lemma ord_digit_char: "n < 10 \<Longrightarrow> ord_of (digit_char n) = 48 + n"
  by (simp add: digit_char_def ord_char_of)

lemma show_nat_digits: "c \<in> set (show_nat n) \<Longrightarrow> is_digit c"
proof (induction n rule: show_nat.induct)
  case (1 n)
  then show ?case
    by (subst (asm) (2) show_nat.simps) (auto simp: is_digit_def ord_digit_char split: if_splits)
qed

lemma show_nat_not_Nil [simp]: "show_nat n \<noteq> []"
  by (subst show_nat.simps) simp

lemma show_nat_value: "foldl (\<lambda>a c. 10 * a + (ord_of c - 48)) 0 (show_nat n) = n"
proof (induction n rule: show_nat.induct)
  case (1 n)
  show ?case
  proof (cases "n < 10")
    case True
    then show ?thesis by (subst show_nat.simps) (simp add: ord_digit_char)
  next
    case False
    with 1 show ?thesis by (subst show_nat.simps) (simp add: ord_digit_char)
  qed
qed

lemma show_nat_inj: "show_nat m = show_nat n \<longleftrightarrow> m = n"
  by (metis show_nat_value)

lemma minus_not_digit: "\<not> is_digit CHR ''-''"
  by (simp add: is_digit_def ord_of_def)

lemma hd_show_nat: "is_digit (hd (show_nat n))"
  by (rule show_nat_digits [of _ n]) simp

lemma show_int_inj: "show_int i = show_int j \<longleftrightarrow> i = j"
proof
  assume eq: "show_int i = show_int j"
  have "hd (show_nat n) \<noteq> CHR ''-''" for n
    using hd_show_nat [of n] minus_not_digit by metis
  then have nm: "show_nat n \<noteq> CHR ''-'' # s" for n s by (metis list.sel(1))
  show "i = j"
    using eq nm not_sym [OF nm] unfolding show_int_def
    by (simp add: show_nat_inj split: if_splits)
qed simp

lemma show_int_chars: "c \<in> set (show_int i) \<Longrightarrow> number_char c"
  by (auto simp: show_int_def number_char_def show_nat_digits split: if_splits)

lemma show_int_not_Nil [simp]: "show_int i \<noteq> []"
  by (simp add: show_int_def)

text \<open>The escapes form a prefix code no word of which starts with a quote.\<close>

lemma ord_hex_char: "n < 16 \<Longrightarrow> ord_of (hex_char n) = (if n < 10 then 48 + n else 87 + n)"
  by (auto simp: hex_char_def ord_char_of)

lemma hex_char_inj: "m < 16 \<Longrightarrow> n < 16 \<Longrightarrow> hex_char m = hex_char n \<longleftrightarrow> m = n"
proof
  assume "m < 16" "n < 16" "hex_char m = hex_char n"
  then have "(if m < 10 then 48 + m else 87 + m) = (if n < 10 then 48 + n else 87 + n)"
    by (metis ord_hex_char)
  then show "m = n" by (auto split: if_splits)
qed simp

lemma ord_lits: "ord_of (CHR 34) = 34" "ord_of (CHR 92) = 92" "ord_of (CHR 0x0A) = 10"
  by (simp_all add: ord_of_def)

lemma esc_char_cases:
  obtains (short) x where "esc_char c = [CHR 92, x]" "x \<noteq> CHR ''u''"
      "(ord_of c, x) \<in> {(34, CHR 34), (92, CHR 92), (10, CHR ''n''), (13, CHR ''r''),
        (9, CHR ''t''), (12, CHR ''f''), (8, CHR ''b'')}"
    | (plain) "esc_char c = [c]" "ord_of c \<noteq> 34" "ord_of c \<noteq> 92"
    | (hex) "esc_char c = [CHR 92, CHR ''u'', CHR ''0'', CHR ''0'',
        hex_char (ord_of c div 16), hex_char (ord_of c mod 16)]"
  by (cases "ord_of c \<in> {34, 92, 10, 13, 9, 12, 8}";
      cases "32 \<le> ord_of c \<and> ord_of c \<le> 126")
     (auto simp: esc_char_def Let_def)

lemma esc_char_not_Nil [simp]: "esc_char c \<noteq> []"
  by (cases c rule: esc_char_cases) auto

lemma esc_char_hd: "hd (esc_char c) \<noteq> CHR 34"
  by (cases c rule: esc_char_cases) (auto simp: ord_lits)

lemma esc_char_prefix_free:
  assumes eq: "esc_char c @ u = esc_char d @ v"
  shows "c = d \<and> u = v"
proof (cases c rule: esc_char_cases)
  case c: (short x)
  show ?thesis
  proof (cases d rule: esc_char_cases)
    case d: (short y)
    from eq c(1) d(1) have "x = y" "u = v" by simp_all
    with c(3) d(3) have "ord_of c = ord_of d" by auto
    with \<open>u = v\<close> show ?thesis by (simp add: ord_of_inj)
  next
    case plain
    with eq c(1) show ?thesis by (auto simp: ord_lits)
  next
    case hex
    with eq c show ?thesis by simp
  qed
next
  case c: plain
  show ?thesis
    by (cases d rule: esc_char_cases) (use eq c in \<open>auto simp: ord_lits\<close>)
next
  case c: hex
  show ?thesis
  proof (cases d rule: esc_char_cases)
    case d: hex
    from eq c d have "u = v" and h:
      "hex_char (ord_of c div 16) = hex_char (ord_of d div 16)"
      "hex_char (ord_of c mod 16) = hex_char (ord_of d mod 16)" by simp_all
    have "ord_of c div 16 < 16" "ord_of d div 16 < 16" using ord_of_less [of c] ord_of_less [of d]
      by simp_all
    with h have "ord_of c div 16 = ord_of d div 16" "ord_of c mod 16 = ord_of d mod 16"
      by (simp_all add: hex_char_inj)
    then have "ord_of c = ord_of d" by (metis div_mult_mod_eq)
    with \<open>u = v\<close> show ?thesis by (simp add: ord_of_inj)
  next
    case plain
    with eq c show ?thesis by (auto simp: ord_lits)
  next
    case short
    with eq c show ?thesis by simp
  qed
qed

lemma quote_body_inj:
  "concat (map esc_char s) @ CHR 34 # r = concat (map esc_char t) @ CHR 34 # r' \<Longrightarrow> s = t \<and> r = r'"
proof (induction s arbitrary: t)
  case Nil
  show ?case
  proof (cases t)
    case (Cons d t')
    with Nil.prems have "hd (esc_char d) = CHR 34" by (cases "esc_char d") auto
    then show ?thesis using esc_char_hd by blast
  qed (use Nil.prems in simp)
next
  case (Cons c s)
  show ?case
  proof (cases t)
    case Nil
    with Cons.prems have "hd (esc_char c) = CHR 34" by (cases "esc_char c") auto
    then show ?thesis using esc_char_hd by blast
  next
    case (Cons d t')
    with Cons.prems have "esc_char c @ concat (map esc_char s) @ CHR 34 # r
      = esc_char d @ concat (map esc_char t') @ CHR 34 # r'" by simp
    from esc_char_prefix_free [OF this] Cons.IH Cons show ?thesis by simp
  qed
qed

lemma quote_str_prefix: "quote_str s @ r = quote_str t @ r' \<Longrightarrow> s = t \<and> r = r'"
  using quote_body_inj [of s r t r'] by (simp add: quote_str_def)

lemma quote_str_inj [simp]: "quote_str s = quote_str t \<longleftrightarrow> s = t"
  using quote_str_prefix [of s "[]" t "[]"] by auto

text \<open>
  A rest that is empty or starts with a delimiter fixes where a value's text ends.
\<close>

definition delim :: "char \<Rightarrow> bool" where
  "delim c = (c = CHR '','' \<or> c = CHR '']'' \<or> c = CHR ''}'')"

definition stops :: "string \<Rightarrow> bool" where
  "stops r = (case r of [] \<Rightarrow> True | c # _ \<Rightarrow> delim c)"

lemma stops_simps [simp]: "stops []" "stops (c # r) = delim c"
  by (simp_all add: stops_def)

lemma until_stop:
  assumes "u @ r = v @ r'" and "\<forall>c \<in> set u. \<not> delim c" and "\<forall>c \<in> set v. \<not> delim c"
    and "stops r" and "stops r'"
  shows "u = v \<and> r = r'"
proof -
  have tw: "takeWhile (\<lambda>c. \<not> delim c) (w @ q) = w" if "\<forall>c \<in> set w. \<not> delim c" "stops q" for w q
    using that by (cases q) (simp_all add: takeWhile_append2)
  have "u = v" using tw [OF assms(2,4)] tw [OF assms(3,5)] assms(1) by metis
  with assms(1) show ?thesis by simp
qed

fun scalar :: "json \<Rightarrow> bool" where
  "scalar (JStr _) = False"
| "scalar (JArr _) = False"
| "scalar (JObj _) = False"
| "scalar _ = True"

definition opener :: "char \<Rightarrow> bool" where
  "opener c = (c = CHR 34 \<or> c = CHR ''['' \<or> c = CHR ''{'')"

lemma number_char_class: "number_char c \<Longrightarrow> \<not> delim c \<and> \<not> opener c \<and> \<not> is_alpha c"
  by (auto simp: number_char_def delim_def opener_def is_digit_def is_alpha_def ord_of_def)

lemma alpha_class: "is_alpha c \<Longrightarrow> \<not> delim c \<and> \<not> opener c"
  by (auto simp: delim_def opener_def is_alpha_def ord_of_def)

lemma opener_not_delim: "opener c \<Longrightarrow> \<not> delim c"
  by (auto simp: delim_def opener_def)

lemma literal_chars [simp]:
  "\<not> number_char CHR ''n''" "\<not> number_char CHR ''t''" "\<not> number_char CHR ''f''"
  "is_alpha CHR ''n''" "is_alpha CHR ''u''" "is_alpha CHR ''l''" "is_alpha CHR ''t''"
  "is_alpha CHR ''r''" "is_alpha CHR ''e''" "is_alpha CHR ''f''" "is_alpha CHR ''a''"
  "is_alpha CHR ''s''"
  by (simp_all add: number_char_def is_digit_def is_alpha_def ord_of_def)

lemma float_text:
  assumes "float_repr_ok fr"
  shows "fr x \<noteq> []" "\<forall>c \<in> set (fr x). \<not> delim c" "\<not> opener (hd (fr x))"
    "fr x \<noteq> show_int i" "hd (fr x) \<notin> {CHR ''n'', CHR ''t'', CHR ''f''}"
    "fr x = fr y \<longleftrightarrow> x = y"
proof -
  note ok = assms [unfolded float_repr_ok_def]
  from ok show ne: "fr x \<noteq> []" by blast
  have "\<not> delim CHR ''.''" "\<not> delim CHR ''+''" by (simp_all add: delim_def)
  with ok show "\<forall>c \<in> set (fr x). \<not> delim c"
    using number_char_class alpha_class by blast
  have h: "number_char (hd (fr x)) \<or> hd (fr x) \<in> {CHR ''N'', CHR ''I''}" using ok by blast
  moreover have "\<not> opener CHR ''N''" "\<not> opener CHR ''I''" by (simp_all add: opener_def)
  ultimately show "\<not> opener (hd (fr x))" using number_char_class [of "hd (fr x)"] by auto
  from h show "hd (fr x) \<notin> {CHR ''n'', CHR ''t'', CHR ''f''}" by auto
  from ok obtain c where "c \<in> set (fr x)" "\<not> number_char c" by blast
  then show "fr x \<noteq> show_int i" using show_int_chars by metis
  from ok show "fr x = fr y \<longleftrightarrow> x = y" by (auto dest: injD)
qed

lemma scalar_text:
  assumes "float_repr_ok fr" and "scalar v"
  shows "jprint fr sp v \<noteq> []" "\<forall>c \<in> set (jprint fr sp v). \<not> delim c"
    "\<not> opener (hd (jprint fr sp v))"
proof -
  have hdint: "number_char (hd (show_int i))" for i
    by (rule show_int_chars [of _ i]) simp
  show "jprint fr sp v \<noteq> []" "\<forall>c \<in> set (jprint fr sp v). \<not> delim c"
    "\<not> opener (hd (jprint fr sp v))"
    using assms(2) float_text [OF assms(1)] hdint number_char_class show_int_chars alpha_class
    by (cases v; auto)+
qed

lemma scalar_inj:
  assumes ok: "float_repr_ok fr" and "scalar v" "scalar w"
    and eq: "jprint fr sp v = jprint fr sp w"
  shows "v = w"
proof -
  have hdint: "number_char (hd (show_int i))" for i
    by (rule show_int_chars [of _ i]) simp
  have ni: "show_int i \<noteq> CHR ''n'' # s" "show_int i \<noteq> CHR ''t'' # s" "show_int i \<noteq> CHR ''f'' # s"
    for i s using hdint [of i] by (metis list.sel(1) literal_chars)+
  have nf: "fr x \<noteq> CHR ''n'' # s" "fr x \<noteq> CHR ''t'' # s" "fr x \<noteq> CHR ''f'' # s"
    for x s using float_text(5) [OF ok, of x] by (metis list.sel(1) insertCI)+
  note ff = float_text(4,6) [OF ok]
  show ?thesis using assms(2,3) eq
    by (cases v; cases w)
       (auto simp: show_int_inj ff ni nf not_sym [OF ff(1)] not_sym [OF ni(1)] not_sym [OF ni(2)]
         not_sym [OF ni(3)] not_sym [OF nf(1)] not_sym [OF nf(2)] not_sym [OF nf(3)]
         split: if_splits)
qed

lemma nonscalar_hd: "\<not> scalar v \<Longrightarrow> \<exists>c s. jprint fr sp v = c # s \<and> opener c"
  by (cases v) (auto simp: quote_str_def opener_def)

lemma jprint_not_Nil: "float_repr_ok fr \<Longrightarrow> jprint fr sp v \<noteq> []"
  using scalar_text(1) [of fr v sp] nonscalar_hd [of v fr sp] by (cases "scalar v") auto

lemma jprint_hd: "float_repr_ok fr \<Longrightarrow> \<not> delim (hd (jprint fr sp v))"
  using scalar_text(1,2) [of fr v sp] nonscalar_hd [of v fr sp]
  by (cases "scalar v") (auto simp: opener_not_delim)

lemma first_char_shape:
  assumes "float_repr_ok fr"
  shows "jprint fr sp w @ r = CHR 34 # s \<Longrightarrow> \<exists>t. w = JStr t"
    and "jprint fr sp w @ r = CHR ''['' # s \<Longrightarrow> \<exists>ys. w = JArr ys"
    and "jprint fr sp w @ r = CHR ''{'' # s \<Longrightarrow> \<exists>ys. w = JObj ys"
proof -
  have sc: "\<not> scalar w" if "jprint fr sp w @ r = c # s" "opener c" for c
  proof
    assume "scalar w"
    from scalar_text(1,3) [OF assms this, of sp] that show False
      by (cases "jprint fr sp w") auto
  qed
  have op: "opener (CHR 34)" "opener CHR ''[''" "opener CHR ''{''" by (simp_all add: opener_def)
  show "jprint fr sp w @ r = CHR 34 # s \<Longrightarrow> \<exists>t. w = JStr t"
    using sc [OF _ op(1)] by (cases w) auto
  show "jprint fr sp w @ r = CHR ''['' # s \<Longrightarrow> \<exists>ys. w = JArr ys"
    using sc [OF _ op(2)] by (cases w) (auto simp: quote_str_def)
  show "jprint fr sp w @ r = CHR ''{'' # s \<Longrightarrow> \<exists>ys. w = JObj ys"
    using sc [OF _ op(3)] by (cases w) (auto simp: quote_str_def)
qed

text \<open>Prefix determinism of one printer carries over to separated lists.\<close>

definition prefix_det :: "('a \<Rightarrow> string) \<Rightarrow> 'a \<Rightarrow> bool" where
  "prefix_det f x \<longleftrightarrow> (\<forall>y r r'. stops r \<longrightarrow> stops r' \<longrightarrow> f x @ r = f y @ r' \<longrightarrow> x = y \<and> r = r')"

lemma sep_tail_inj:
  assumes "\<forall>x \<in> set xs. prefix_det f x" and "delim c" and "c \<noteq> CHR '',''"
    and "concat (map (\<lambda>v. CHR '','' # sp @ v) (map f xs)) @ c # r
       = concat (map (\<lambda>v. CHR '','' # sp @ v) (map f ys)) @ c # r'"
  shows "xs = ys \<and> r = r'"
  using assms(1,4)
proof (induction xs arbitrary: ys)
  case Nil
  with assms(3) show ?case by (cases ys) auto
next
  case (Cons x xs)
  obtain y ys' where ys: "ys = y # ys'" using Cons.prems(2) assms(3) by (cases ys) auto
  define tl1 where "tl1 = concat (map (\<lambda>v. CHR '','' # sp @ v) (map f xs)) @ c # r"
  define tl2 where "tl2 = concat (map (\<lambda>v. CHR '','' # sp @ v) (map f ys')) @ c # r'"
  have "stops tl1" unfolding tl1_def by (cases xs) (use assms(2) in \<open>auto simp: delim_def\<close>)
  moreover have "stops tl2" unfolding tl2_def by (cases ys') (use assms(2) in \<open>auto simp: delim_def\<close>)
  moreover have "f x @ tl1 = f y @ tl2" using Cons.prems(2) ys by (simp add: tl1_def tl2_def)
  ultimately have "x = y \<and> tl1 = tl2" using Cons.prems(1) unfolding prefix_det_def by auto
  then show ?case using Cons.IH [of ys'] Cons.prems(1) ys by (simp add: tl1_def tl2_def)
qed

lemma join_sep_inj:
  assumes pd: "\<forall>x \<in> set xs. prefix_det f x" and c: "delim c" "c \<noteq> CHR '',''"
    and ne: "\<And>x. f x \<noteq> []" and hd: "\<And>x. \<not> delim (hd (f x))"
    and eq: "join_sep sp (map f xs) @ c # r = join_sep sp (map f ys) @ c # r'"
  shows "xs = ys \<and> r = r'"
proof (cases xs)
  case Nil
  show ?thesis
  proof (cases ys)
    case (Cons y ys')
    with eq Nil ne [of y] have "hd (f y) = c" by (cases "f y") (auto simp: join_sep_def)
    with hd [of y] c show ?thesis by simp
  qed (use eq Nil in \<open>simp add: join_sep_def\<close>)
next
  case (Cons x xs')
  show ?thesis
  proof (cases ys)
    case Nil
    with eq Cons ne [of x] have "hd (f x) = c" by (cases "f x") (auto simp: join_sep_def)
    with hd [of x] c show ?thesis by simp
  next
    case (Cons y ys')
    have "concat (map (\<lambda>v. CHR '','' # sp @ v) (map f (x # xs'))) @ c # r
      = concat (map (\<lambda>v. CHR '','' # sp @ v) (map f (y # ys'))) @ c # r'"
      using eq \<open>xs = x # xs'\<close> Cons by (simp add: join_sep_def)
    then show ?thesis using sep_tail_inj [OF _ c] pd \<open>xs = x # xs'\<close> Cons by blast
  qed
qed

lemma pair_prefix_det:
  assumes "prefix_det (jprint fr sp) (snd p)"
  shows "prefix_det (\<lambda>p. quote_str (fst p) @ CHR '':'' # sp @ jprint fr sp (snd p)) p"
  unfolding prefix_det_def
proof (intro allI impI)
  fix q r r'
  assume st: "stops r" "stops r'"
    and eq: "(quote_str (fst p) @ CHR '':'' # sp @ jprint fr sp (snd p)) @ r
           = (quote_str (fst q) @ CHR '':'' # sp @ jprint fr sp (snd q)) @ r'"
  from eq have "quote_str (fst p) @ CHR '':'' # sp @ jprint fr sp (snd p) @ r
    = quote_str (fst q) @ CHR '':'' # sp @ jprint fr sp (snd q) @ r'" by simp
  from quote_str_prefix [OF this] have "fst p = fst q"
    and "jprint fr sp (snd p) @ r = jprint fr sp (snd q) @ r'" by simp_all
  with assms st show "p = q \<and> r = r'"
    unfolding prefix_det_def by (metis prod_eqI)
qed

lemma jprint_prefix_det:
  assumes ok: "float_repr_ok fr"
  shows "prefix_det (jprint fr sp) v"
proof (induction v)
  have sc: "prefix_det (jprint fr sp) v" if "scalar v" for v
    unfolding prefix_det_def
  proof (intro allI impI)
    fix w r r'
    assume st: "stops r" "stops r'" and eq: "jprint fr sp v @ r = jprint fr sp w @ r'"
    have "scalar w"
    proof (rule ccontr)
      assume "\<not> scalar w"
      then obtain c s where "jprint fr sp w = c # s" "opener c" using nonscalar_hd by blast
      with eq scalar_text(1,3) [OF ok that, of sp] show False
        by (cases "jprint fr sp v") auto
    qed
    from until_stop [OF eq scalar_text(2) [OF ok that] scalar_text(2) [OF ok this] st]
    show "v = w \<and> r = r'" using scalar_inj [OF ok that \<open>scalar w\<close>] by blast
  qed
  case JNull show ?case by (rule sc) simp
  case (JBool b) show ?case by (rule sc) simp
  case (JInt i) show ?case by (rule sc) simp
  case (JFloat x) show ?case by (rule sc) simp
next
  case (JStr s)
  show ?case unfolding prefix_det_def
  proof (intro allI impI)
    fix w r r'
    assume eq: "jprint fr sp (JStr s) @ r = jprint fr sp w @ r'"
    then have "jprint fr sp w @ r' = CHR 34 # concat (map esc_char s) @ CHR 34 # r"
      by (simp add: quote_str_def)
    then have "\<exists>t. w = JStr t" by (rule first_char_shape(1) [OF ok])
    then obtain t where w: "w = JStr t" by blast
    with eq have "quote_str s @ r = quote_str t @ r'" by simp
    from quote_str_prefix [OF this] w show "JStr s = w \<and> r = r'" by simp
  qed
next
  case (JArr xs)
  show ?case unfolding prefix_det_def
  proof (intro allI impI)
    fix w r r'
    assume eq: "jprint fr sp (JArr xs) @ r = jprint fr sp w @ r'"
    then obtain ys where w: "w = JArr ys"
      using first_char_shape(2) [OF ok, OF eq [symmetric, unfolded jprint.simps append_Cons]]
      by blast
    from eq w have "join_sep sp (map (jprint fr sp) xs) @ CHR '']'' # r
      = join_sep sp (map (jprint fr sp) ys) @ CHR '']'' # r'" by simp
    from join_sep_inj [OF _ _ _ jprint_not_Nil [OF ok] jprint_hd [OF ok] this] JArr w
    show "JArr xs = w \<and> r = r'" by (simp add: delim_def)
  qed
next
  case (JObj kvs)
  show ?case unfolding prefix_det_def
  proof (intro allI impI)
    fix w r r'
    assume eq: "jprint fr sp (JObj kvs) @ r = jprint fr sp w @ r'"
    then obtain ys where w: "w = JObj ys"
      using first_char_shape(3) [OF ok, OF eq [symmetric, unfolded jprint.simps append_Cons]]
      by blast
    let ?f = "\<lambda>p. quote_str (fst p) @ CHR '':'' # sp @ jprint fr sp (snd p)"
    have "\<forall>p \<in> set kvs. prefix_det ?f p"
    proof
      fix p assume "p \<in> set kvs"
      moreover have "snd p \<in> Basic_BNFs.snds p" by (simp add: Basic_BNFs.snds.intros)
      ultimately show "prefix_det ?f p" using JObj by (intro pair_prefix_det) blast
    qed
    moreover have "?f p \<noteq> []" "\<not> delim (hd (?f p))" for p
      by (simp_all add: quote_str_def delim_def)
    moreover from eq w have "join_sep sp (map ?f kvs) @ CHR ''}'' # r
      = join_sep sp (map ?f ys) @ CHR ''}'' # r'" by simp
    ultimately have "kvs = ys \<and> r = r'"
      by (intro join_sep_inj [where f = ?f and sp = sp and c = "CHR ''}''"]) (simp_all add: delim_def)
    with w show "JObj kvs = w \<and> r = r'" by simp
  qed
qed

text \<open>An array delimits itself, whatever follows.\<close>

lemma jprint_array_prefix:
  assumes ok: "float_repr_ok fr"
    and eq: "jprint fr sp (JArr xs) @ r = jprint fr sp (JArr ys) @ r'"
  shows "xs = ys \<and> r = r'"
proof -
  from eq have "join_sep sp (map (jprint fr sp) xs) @ CHR '']'' # r
    = join_sep sp (map (jprint fr sp) ys) @ CHR '']'' # r'" by simp
  from join_sep_inj [OF _ _ _ jprint_not_Nil [OF ok] jprint_hd [OF ok] this]
    jprint_prefix_det [OF ok]
  show ?thesis by (simp add: delim_def)
qed

lemma jprint_inj: "float_repr_ok fr \<Longrightarrow> jprint fr sp v = jprint fr sp w \<longleftrightarrow> v = w"
  using jprint_prefix_det [of fr sp v] unfolding prefix_det_def by (metis append_Nil2 stops_simps(1))

lemma dumps_canon_inj: "float_repr_ok fr \<Longrightarrow> dumps_canon fr v = dumps_canon fr w \<longleftrightarrow> canon v = canon w"
  by (simp add: dumps_canon_def jprint_inj)

lemma dumps_plain_inj: "float_repr_ok fr \<Longrightarrow> dumps_plain fr v = dumps_plain fr w \<longleftrightarrow> v = w"
  by (simp add: dumps_plain_def jprint_inj)

lemma dumps_compact_inj: "float_repr_ok fr \<Longrightarrow> dumps_compact fr v = dumps_compact fr w \<longleftrightarrow> v = w"
  by (simp add: dumps_compact_def jprint_inj)

text \<open>Two objects with the same canonical form agree on every key.\<close>

lemma dget_map_canon: "dget (map (\<lambda>p. (fst p, canon (snd p))) kvs) k = map_option canon (dget kvs k)"
  by (induction kvs) auto

lemma canon_obj_dget:
  assumes eq: "canon (JObj a) = canon (JObj b)" and wf: "wf_dict a" "wf_dict b"
  shows "map_option canon (dget a k) = map_option canon (dget b k)"
proof -
  let ?m = "\<lambda>d. map (\<lambda>p. (fst p, canon (snd p))) d"
  have fst_m: "map fst (?m d) = map fst d" for d :: "(string \<times> json) list" by simp
  have "dget (sort_key fst (?m d)) k = dget (?m d) k" if "wf_dict d" for d
  proof -
    have d1: "distinct (map fst (?m d))" using that by (simp only: fst_m wf_dict_def)
    have "mset (map fst (sort_key fst (?m d))) = mset (map fst (?m d))"
      by (simp only: mset_map mset_sort)
    from mset_eq_imp_distinct_iff [OF this] d1
    have "distinct (map fst (sort_key fst (?m d)))" by blast
    from this d1
    have "map_of (sort_key fst (?m d)) = map_of (?m d)"
      by (simp only: map_of_inject_set set_sort)
    then show ?thesis by simp
  qed
  note sorted = this
  have "sort_key fst (?m a) = sort_key fst (?m b)"
    using eq by (simp only: canon.simps json.inject)
  then have "dget (sort_key fst (?m a)) k = dget (sort_key fst (?m b)) k" by (rule arg_cong)
  with sorted [OF wf(1)] sorted [OF wf(2)] have "dget (?m a) k = dget (?m b) k"
    by (simp only:)
  then show ?thesis by (simp only: dget_map_canon)
qed

text \<open>A text for every float that meets \<open>float_repr_ok\<close>: numerator and denominator.\<close>

definition ratio_text :: "pyfloat \<Rightarrow> string" where
  "ratio_text x = (case x of
     Fin q \<Rightarrow> show_int (fst (quotient_of q)) @ CHR ''.'' # show_int (snd (quotient_of q))
   | PosInf \<Rightarrow> ''Infinity'' | NegInf \<Rightarrow> ''-Infinity'' | NaN \<Rightarrow> ''NaN'')"

lemma dot_not_number: "\<not> number_char CHR ''.''"
  by (simp add: number_char_def is_digit_def ord_of_def)

lemma ratio_text_inj: "inj ratio_text"
proof (rule injI)
  have dot: "CHR ''.'' \<notin> set (show_int i)" for i
    using show_int_chars [of "CHR ''.''" i] dot_not_number by blast
  have fin: "CHR ''.'' \<in> set (ratio_text (Fin q))" for q by (simp add: ratio_text_def)
  have inf: "CHR ''.'' \<notin> set (ratio_text x)" if "\<forall>q. x \<noteq> Fin q" for x
    using that by (cases x) (simp_all add: ratio_text_def)
  fix x y assume eq: "ratio_text x = ratio_text y"
  show "x = y"
  proof (cases "\<exists>q. x = Fin q")
    case True
    then obtain q where q: "x = Fin q" by blast
    with eq fin [of q] inf [of y] obtain r where r: "y = Fin r" by metis
    from eq q r have "show_int (fst (quotient_of q)) @ CHR ''.'' # show_int (snd (quotient_of q))
      = show_int (fst (quotient_of r)) @ CHR ''.'' # show_int (snd (quotient_of r))"
      by (simp add: ratio_text_def)
    from first_sep_inj [OF this dot dot] have "quotient_of q = quotient_of r"
      by (simp add: show_int_inj prod_eq_iff)
    with q r show ?thesis by (simp add: quotient_of_inject)
  next
    case False
    with eq fin inf [of x] have "\<forall>q. y \<noteq> Fin q" by metis
    with False eq show ?thesis by (cases x; cases y) (simp_all add: ratio_text_def)
  qed
qed

lemma ratio_text_ok: "float_repr_ok ratio_text"
  unfolding float_repr_ok_def
proof (intro conjI allI ratio_text_inj)
  fix x
  have hdint: "number_char (hd (show_int i @ s))" for i s
    using show_int_chars [of "hd (show_int i)" i] by simp
  have num: "\<forall>c \<in> set (show_int i). number_char c" for i using show_int_chars by blast
  have letters: "is_alpha CHR ''I''" "is_alpha CHR ''n''" "is_alpha CHR ''i''" "is_alpha CHR ''t''"
    "is_alpha CHR ''y''" "is_alpha CHR ''N''" "is_alpha CHR ''a''" "is_alpha CHR ''f''"
    "number_char CHR ''-''" "\<not> number_char CHR ''I''" "\<not> number_char CHR ''N''"
    by (simp_all add: is_alpha_def number_char_def is_digit_def ord_of_def)
  show "ratio_text x \<noteq> []" by (simp add: ratio_text_def split: pyfloat.splits)
  show "number_char (hd (ratio_text x)) \<or> hd (ratio_text x) \<in> {CHR ''N'', CHR ''I''}"
    using hdint letters by (auto simp: ratio_text_def split: pyfloat.splits)
  show "\<forall>c\<in>set (ratio_text x). number_char c \<or> is_alpha c \<or> c \<in> {CHR ''.'', CHR ''+''}"
    using num letters by (auto simp: ratio_text_def split: pyfloat.splits)
  show "\<exists>c\<in>set (ratio_text x). \<not> number_char c"
    using dot_not_number letters by (auto simp: ratio_text_def split: pyfloat.splits)
qed

end
