(* ===== verification/Exceptions.thy ===== *)
theory Exceptions
  imports Json
begin

text \<open>
  The exception hierarchy (\<open>mcp_armor/exceptions.py\<close> and its subclasses in
  \<open>request_envelope.py\<close> and \<open>explicit_state.py\<close>): every class with the threat category and
  JSON-RPC code it carries, the map from codes to HTTP status, and the wire form.  A raised
  exception is a value of type \<open>exn\<close>: a CoSAI exception with the site that raised it, or one
  of Python's own.
\<close>

datatype threat_category = T1 | T2 | T3 | T4 | T5 | T6 | T7 | T8 | T9 | T10 | T11 | T12

datatype exc_class =
    AuthenticationError
  | SessionError
  | NetworkBindingError
  | SupplyChainError
  | AuthorizationError
  | ValidationError
  | InjectionDetectedError
  | IntegrityError
  | ResourceExceededError
  | PIILeakError
  | TrustBoundaryViolation
  | AuditChainError
  | RequestMetadataError int   \<comment> \<open>the per-instance code\<close>
  | MetaTrustError
  | StateVerificationError
  | HandleError

datatype py_class = ValueError | RuntimeError | TypeError | KeyError | AttributeError | OSError
  | FileNotFoundError | OtherError

datatype exn =
    Cosai exc_class string   \<comment> \<open>class and raise site\<close>
  | PyExc py_class string

type_synonym 'a result = "exn + 'a"

fun threat_of :: "exc_class \<Rightarrow> threat_category" where
  "threat_of AuthenticationError = T1"
| "threat_of SessionError = T7"
| "threat_of NetworkBindingError = T8"
| "threat_of SupplyChainError = T11"
| "threat_of AuthorizationError = T2"
| "threat_of ValidationError = T3"
| "threat_of InjectionDetectedError = T4"
| "threat_of IntegrityError = T6"
| "threat_of ResourceExceededError = T10"
| "threat_of PIILeakError = T5"
| "threat_of TrustBoundaryViolation = T9"
| "threat_of AuditChainError = T12"
| "threat_of (RequestMetadataError _) = T7"
| "threat_of MetaTrustError = T2"
| "threat_of StateVerificationError = T7"
| "threat_of HandleError = T2"

fun json_rpc_code :: "exc_class \<Rightarrow> int" where
  "json_rpc_code AuthenticationError = -32001"
| "json_rpc_code SessionError = -32006"
| "json_rpc_code NetworkBindingError = -32008"
| "json_rpc_code SupplyChainError = -32011"
| "json_rpc_code AuthorizationError = -32002"
| "json_rpc_code ValidationError = -32602"
| "json_rpc_code InjectionDetectedError = -32003"
| "json_rpc_code IntegrityError = -32005"
| "json_rpc_code ResourceExceededError = -32010"
| "json_rpc_code PIILeakError = -32004"
| "json_rpc_code TrustBoundaryViolation = -32007"
| "json_rpc_code AuditChainError = -32009"
| "json_rpc_code (RequestMetadataError c) = c"
| "json_rpc_code MetaTrustError = -32002"
| "json_rpc_code StateVerificationError = -32006"
| "json_rpc_code HandleError = -32002"

definition http_status :: "(int, nat) dict" where
  "http_status = [(-32001, 401), (-32002, 403), (-32003, 400), (-32004, 500), (-32005, 500),
     (-32006, 401), (-32007, 500), (-32008, 500), (-32009, 500), (-32010, 429), (-32011, 500),
     (-32602, 400), (-32600, 400), (-32020, 400), (-32022, 400)]"

definition to_http_status :: "exc_class \<Rightarrow> nat" where
  "to_http_status c = (case dget http_status (json_rpc_code c) of None \<Rightarrow> 500 | Some s \<Rightarrow> s)"

record exc_info =
  exc_cls :: exc_class
  exc_msg :: string
  exc_resolution :: "string option"
  exc_data :: "json option"

definition to_jsonrpc_error :: "exc_info \<Rightarrow> json" where
  "to_jsonrpc_error e = JObj ([(''code'', JInt (json_rpc_code (exc_cls e))),
      (''message'', JStr (exc_msg e))]
    @ (case exc_resolution e of None \<Rightarrow> [] | Some r \<Rightarrow> if r = [] then [] else [(''resolution'', JStr r)])
    @ (case exc_data e of None \<Rightarrow> [] | Some d \<Rightarrow> if d = JNull then [] else [(''data'', d)]))"

text \<open>\<open>isinstance(exc, (AuthorizationError, AuthenticationError))\<close>, subclasses included.\<close>

fun is_auth_class :: "exc_class \<Rightarrow> bool" where
  "is_auth_class AuthenticationError = True"
| "is_auth_class AuthorizationError = True"
| "is_auth_class MetaTrustError = True"
| "is_auth_class HandleError = True"
| "is_auth_class _ = False"

fun is_cosai :: "exn \<Rightarrow> bool" where
  "is_cosai (Cosai _ _) = True"
| "is_cosai (PyExc _ _) = False"

fun is_auth_exc :: "exn \<Rightarrow> bool" where
  "is_auth_exc (Cosai c _) = is_auth_class c"
| "is_auth_exc (PyExc _ _) = False"

lemma http_status_range: "s \<in> snd ` set http_status \<Longrightarrow> 400 \<le> s \<and> s < 600"
  by (auto simp: http_status_def)

lemma to_http_status_range: "400 \<le> to_http_status c \<and> to_http_status c < 600"
proof (cases "dget http_status (json_rpc_code c)")
  case (Some s)
  then have "s \<in> snd ` set http_status" by (auto dest: map_of_SomeD intro: rev_image_eqI)
  with Some http_status_range show ?thesis by (simp add: to_http_status_def)
qed (simp add: to_http_status_def)

lemma auth_class_status: "is_auth_class c \<Longrightarrow> to_http_status c \<in> {401, 403}"
  by (cases c) (auto simp: to_http_status_def http_status_def)

end
