(* ===== verification/Types.thy ===== *)
theory Types
  imports Exceptions
begin

text \<open>
  The shared types (\<open>mcp_armor/types.py\<close>) and the per-request context
  (\<open>mcp_armor/context.py\<close>): requests, budgets, contexts, the method sets, and the argument
  helpers every request scanner uses.  Identity fields of the context hold the JSON value of
  the verified claim, with \<open>JNull\<close> for \<open>None\<close>.  Library calls that are not modelled are
  arguments: \<open>loads\<close> is \<open>json.loads\<close>.
\<close>

section \<open>Python equality of JSON values\<close>

fun num_val :: "json \<Rightarrow> pyfloat option" where
  "num_val (JBool b) = Some (Fin (if b then 1 else 0))"
| "num_val (JInt i) = Some (Fin (of_int i))"
| "num_val (JFloat x) = Some x"
| "num_val _ = None"

fun py_eq :: "json \<Rightarrow> json \<Rightarrow> bool"
  and py_eq_list :: "json list \<Rightarrow> json list \<Rightarrow> bool"
  and py_eq_items :: "(string \<times> json) list \<Rightarrow> (string \<times> json) list \<Rightarrow> bool" where
  "py_eq JNull w = (w = JNull)"
| "py_eq (JStr s) w = (w = JStr s)"
| "py_eq (JArr xs) w = (case w of JArr ys \<Rightarrow> py_eq_list xs ys | _ \<Rightarrow> False)"
| "py_eq (JObj kvs) w = (case w of JObj kws \<Rightarrow> length kvs = length kws \<and> py_eq_items kvs kws
     | _ \<Rightarrow> False)"
| "py_eq v w = (num_val v = num_val w \<and> num_val v \<noteq> Some NaN)"
| "py_eq_list [] ys = (ys = [])"
| "py_eq_list (x # xs) ys = (case ys of [] \<Rightarrow> False | y # ys' \<Rightarrow> py_eq x y \<and> py_eq_list xs ys')"
| "py_eq_items [] kws = True"
| "py_eq_items ((k, v) # kvs) kws = (case dget kws k of None \<Rightarrow> False
     | Some w \<Rightarrow> py_eq v w \<and> py_eq_items kvs kws)"

lemma py_eq_str [simp]: "py_eq (JStr s) (JStr t) \<longleftrightarrow> s = t" "py_eq v (JStr t) \<longleftrightarrow> v = JStr t"
  by (auto, cases v, auto)

lemma py_eq_null [simp]: "py_eq v JNull \<longleftrightarrow> v = JNull"
  by (cases v) auto

text \<open>
  Float comparison and arithmetic: every comparison with \<open>nan\<close> is false.  Finite values are
  exact (no rounding); \<open>float(i)\<close> of an integer outside the double range raises.
\<close>

fun pf_lt :: "pyfloat \<Rightarrow> pyfloat \<Rightarrow> bool" where
  "pf_lt (Fin x) (Fin y) = (x < y)"
| "pf_lt (Fin x) PosInf = True"
| "pf_lt NegInf (Fin y) = True"
| "pf_lt NegInf PosInf = True"
| "pf_lt _ _ = False"

definition pf_le :: "pyfloat \<Rightarrow> pyfloat \<Rightarrow> bool" where
  "pf_le x y = (pf_lt x y \<or> (x = y \<and> x \<noteq> NaN))"

text \<open>\<open>now - x\<close> for a finite clock reading.\<close>

fun pf_minus :: "time \<Rightarrow> pyfloat \<Rightarrow> pyfloat" where
  "pf_minus now (Fin x) = Fin (now - x)"
| "pf_minus now PosInf = NegInf"
| "pf_minus now NegInf = PosInf"
| "pf_minus now NaN = NaN"

definition to_float :: "json \<Rightarrow> pyfloat result" where
  "to_float v = (case v of
     JInt i \<Rightarrow> if \<bar>i\<bar> \<ge> 2 ^ 1024 - 2 ^ 970 then Inl (PyExc OtherError ''OverflowError'') else Inr (Fin (of_int i))
   | JBool b \<Rightarrow> Inr (Fin (if b then 1 else 0))
   | JFloat x \<Rightarrow> Inr x
   | _ \<Rightarrow> Inl (PyExc TypeError ''float''))"

text \<open>\<open>a or b\<close>, \<open>d.get(k)\<close> with \<open>None\<close> for a missing key.\<close>

definition or_else :: "json \<Rightarrow> json \<Rightarrow> json" where
  "or_else a b = (if truthy a then a else b)"

definition get_or_null :: "(string, json) dict \<Rightarrow> string \<Rightarrow> json" where
  "get_or_null d k = (case dget d k of None \<Rightarrow> JNull | Some v \<Rightarrow> v)"

text \<open>
  A value as a dictionary key: numbers that compare equal are one key, lists and
  dictionaries are not hashable.
\<close>

definition hash_key :: "json \<Rightarrow> json result" where
  "hash_key v = (case v of
     JArr _ \<Rightarrow> Inl (PyExc TypeError ''unhashable'')
   | JObj _ \<Rightarrow> Inl (PyExc TypeError ''unhashable'')
   | _ \<Rightarrow> Inr (case num_val v of None \<Rightarrow> v | Some x \<Rightarrow> JFloat x))"

lemma pf_le_Fin [simp]: "pf_le (Fin x) (Fin y) \<longleftrightarrow> x \<le> y"
  by (auto simp: pf_le_def)

lemma pf_le_trans_Fin: "pf_le x (Fin a) \<Longrightarrow> a \<le> b \<Longrightarrow> pf_le x (Fin b)"
  by (cases x) (auto simp: pf_le_def)

text \<open>\<open>str(v)\<close>: a string is itself, anything else has the text \<open>repr v\<close>.\<close>

definition str_of :: "(json \<Rightarrow> string) \<Rightarrow> json \<Rightarrow> string" where
  "str_of repr v = (case v of JStr s \<Rightarrow> s | _ \<Rightarrow> repr v)"

text \<open>\<open>int(v)\<close>.\<close>

definition py_int :: "(string \<Rightarrow> int option) \<Rightarrow> json \<Rightarrow> int result" where
  "py_int of_str v = (case v of
     JInt i \<Rightarrow> Inr i
   | JBool b \<Rightarrow> Inr (if b then 1 else 0)
   | JFloat (Fin x) \<Rightarrow> Inr (if x < 0 then \<lceil>x\<rceil> else \<lfloor>x\<rfloor>)
   | JFloat NaN \<Rightarrow> Inl (PyExc ValueError ''int(nan)'')
   | JFloat _ \<Rightarrow> Inl (PyExc OtherError ''OverflowError'')
   | JStr s \<Rightarrow> (case of_str s of None \<Rightarrow> Inl (PyExc ValueError ''int'') | Some i \<Rightarrow> Inr i)
   | _ \<Rightarrow> Inl (PyExc TypeError ''int''))"

text \<open>The elements of an iterable (\<open>tuple(v)\<close>): lists, the keys of a dictionary, the characters of a string.\<close>

definition py_iter :: "json \<Rightarrow> json list result" where
  "py_iter v = (case v of
     JArr xs \<Rightarrow> Inr xs
   | JObj kvs \<Rightarrow> Inr (map (\<lambda>p. JStr (fst p)) kvs)
   | JStr s \<Rightarrow> Inr (map (\<lambda>c. JStr [c]) s)
   | _ \<Rightarrow> Inl (PyExc TypeError ''not iterable''))"

section \<open>Findings, budgets, contexts\<close>

datatype severity = LOW | MEDIUM | HIGH | CRITICAL

record finding =
  f_threat :: threat_category
  f_severity :: severity
  f_code :: string
  f_location :: string

record budget_state =
  calls_used :: nat
  wall_clock_start :: time
  loop_depth :: nat

definition budget_increment :: "budget_state \<Rightarrow> budget_state" where
  "budget_increment b = b\<lparr>calls_used := calls_used b + 1\<rparr>"

definition budget_descend :: "budget_state \<Rightarrow> budget_state" where
  "budget_descend b = b\<lparr>loop_depth := loop_depth b + 1\<rparr>"

datatype handshake = PENDING | ACTIVE

record ctx =
  session_id :: string
  user_id :: json
  tenant_id :: json
  scopes :: "string list"
  tool_manifest_hash :: string
  budget :: budget_state
  audit_parent_id :: "string option"
  findings :: "finding list"
  transport :: string
  handshake_phase :: handshake
  stateless :: bool

definition new_context :: "time \<Rightarrow> string \<Rightarrow> string \<Rightarrow> ctx" where
  "new_context now sid tr = \<lparr>session_id = sid, user_id = JNull, tenant_id = JNull, scopes = [],
     tool_manifest_hash = [],
     budget = \<lparr>calls_used = 0, wall_clock_start = now, loop_depth = 0\<rparr>,
     audit_parent_id = None, findings = [], transport = tr, handshake_phase = ACTIVE,
     stateless = False\<rparr>"

definition with_finding :: "ctx \<Rightarrow> finding \<Rightarrow> ctx" where
  "with_finding c f = c\<lparr>findings := findings c @ [f]\<rparr>"

definition with_user :: "ctx \<Rightarrow> json \<Rightarrow> json \<Rightarrow> ctx" where
  "with_user c u t = c\<lparr>user_id := u, tenant_id := t\<rparr>"

definition with_scopes :: "ctx \<Rightarrow> string list \<Rightarrow> ctx" where
  "with_scopes c ss = c\<lparr>scopes := ss\<rparr>"

definition with_manifest_hash :: "ctx \<Rightarrow> string \<Rightarrow> ctx" where
  "with_manifest_hash c h = c\<lparr>tool_manifest_hash := h\<rparr>"

definition with_budget :: "ctx \<Rightarrow> budget_state \<Rightarrow> ctx" where
  "with_budget c b = c\<lparr>budget := b\<rparr>"

definition with_audit_parent :: "ctx \<Rightarrow> string \<Rightarrow> ctx" where
  "with_audit_parent c p = c\<lparr>audit_parent_id := Some p\<rparr>"

definition with_handshake_phase :: "ctx \<Rightarrow> handshake \<Rightarrow> ctx" where
  "with_handshake_phase c p = c\<lparr>handshake_phase := p\<rparr>"

lemmas context_defs = with_finding_def with_user_def with_scopes_def with_manifest_hash_def
  with_budget_def with_audit_parent_def with_handshake_phase_def

text \<open>
  The fields that say which session a context belongs to.  No engine hook may change them
  (\<open>same_session\<close>); this is the frame the guard relies on when it threads one context
  through the chain.
\<close>

definition same_session :: "ctx \<Rightarrow> ctx \<Rightarrow> bool" where
  "same_session c c' \<longleftrightarrow> session_id c' = session_id c \<and> transport c' = transport c
     \<and> stateless c' = stateless c"

lemma same_session_refl [simp, intro]: "same_session c c"
  by (simp add: same_session_def)

lemma same_session_trans [trans]:
  "same_session a b \<Longrightarrow> same_session b c \<Longrightarrow> same_session a c"
  by (simp add: same_session_def)

lemma same_session_with [simp, intro, frame_rules]:
  "same_session c (with_finding c f)" "same_session c (with_user c u t)"
  "same_session c (with_scopes c ss)" "same_session c (with_manifest_hash c h)"
  "same_session c (with_budget c b)" "same_session c (with_audit_parent c p)"
  "same_session c (with_handshake_phase c ph)"
  by (simp_all add: same_session_def context_defs)

section \<open>Requests and responses\<close>

record mcp_request =
  rq_method :: string
  rq_params :: "(string, json) dict"
  rq_session_id :: string
  rq_headers :: "(string, string) dict"
  rq_query :: "(string, string) dict"
  rq_transport :: string
  rq_header_pairs :: "(string \<times> string) list"

record mcp_response =
  rs_result :: "(string, json) dict option"
  rs_error :: "(string, json) dict option"
  rs_raw_body :: string
  rs_scan_body :: string

definition content_bearing_methods :: "string list" where
  "content_bearing_methods =
     [''tools/call'', ''resources/read'', ''resources/subscribe'', ''prompts/get'']"

definition handshake_allowed_methods :: "string list" where
  "handshake_allowed_methods = [''initialize'', ''notifications/initialized'', ''ping'']"

text \<open>
  \<open>MCPRequest.from_dict\<close>: only object parameters are accepted, so what the guard scans is
  what is forwarded.
\<close>

definition request_from_dict :: "(json \<Rightarrow> string) \<Rightarrow> (string, json) dict \<Rightarrow> string
    \<Rightarrow> (string, string) dict \<Rightarrow> (string, string) dict \<Rightarrow> string \<Rightarrow> (string \<times> string) list
    \<Rightarrow> mcp_request result" where
  "request_from_dict repr d sid hdrs query tr pairs =
     (let params_obj = (case dget d ''params'' of None \<Rightarrow> JObj [] | Some p \<Rightarrow> p);
          method = (case dget d ''method'' of None \<Rightarrow> [] | Some m \<Rightarrow> str_of repr m)
      in case params_obj of
           JObj kvs \<Rightarrow> Inr \<lparr>rq_method = method, rq_params = kvs, rq_session_id = sid,
             rq_headers = hdrs, rq_query = query, rq_transport = tr, rq_header_pairs = pairs\<rparr>
         | _ \<Rightarrow> Inl (Cosai ValidationError ''params''))"

section \<open>JSON text inside arguments\<close>

text \<open>\<open>_bracket_depth\<close>: nesting outside JSON strings, one pass over the characters.\<close>

record scan_state =
  sc_depth :: int
  sc_best :: int
  sc_in_string :: bool
  sc_escaped :: bool

definition bracket_step :: "scan_state \<Rightarrow> char \<Rightarrow> scan_state" where
  "bracket_step s ch =
     (if sc_in_string s then
        (if sc_escaped s then s\<lparr>sc_escaped := False\<rparr>
         else if ch = CHR 92 then s\<lparr>sc_escaped := True\<rparr>
         else if ch = CHR 34 then s\<lparr>sc_in_string := False\<rparr>
         else s)
      else if ch = CHR 34 then s\<lparr>sc_in_string := True\<rparr>
      else if ch = CHR ''['' \<or> ch = CHR ''{'' then
        s\<lparr>sc_depth := sc_depth s + 1, sc_best := max (sc_best s) (sc_depth s + 1)\<rparr>
      else if ch = CHR '']'' \<or> ch = CHR ''}'' then s\<lparr>sc_depth := sc_depth s - 1\<rparr>
      else s)"

definition bracket_init :: scan_state where
  "bracket_init = \<lparr>sc_depth = 0, sc_best = 0, sc_in_string = False, sc_escaped = False\<rparr>"

definition bracket_depth :: "string \<Rightarrow> int" where
  "bracket_depth text = sc_best (foldl bracket_step bracket_init text)"

definition max_decode_depth :: int where
  "max_decode_depth = 64"

datatype loads_result = Decoded json | NotJson | TooDeep

definition decode_string_argument :: "(string \<Rightarrow> loads_result) \<Rightarrow> string \<Rightarrow> json option result" where
  "decode_string_argument loads value =
     (let stripped = strip value in
      if stripped = [] \<or> (hd stripped \<noteq> CHR ''['' \<and> hd stripped \<noteq> CHR ''{'') then Inr None
      else if bracket_depth stripped > max_decode_depth
        then Inl (Cosai ValidationError ''JSON nested too deep'')
      else case loads stripped of
             TooDeep \<Rightarrow> Inl (Cosai ValidationError ''JSON too deep'')
           | NotJson \<Rightarrow> Inr None
           | Decoded (JArr xs) \<Rightarrow> Inr (Some (JArr xs))
           | Decoded (JObj kvs) \<Rightarrow> Inr (Some (JObj kvs))
           | Decoded _ \<Rightarrow> Inr None)"

fun decode_items :: "(string \<Rightarrow> loads_result) \<Rightarrow> (string, json) dict \<Rightarrow> (string, json) dict result" where
  "decode_items loads [] = Inr []"
| "decode_items loads ((k, v) # kvs) =
     (case v of
        JStr s \<Rightarrow> bindR (decode_string_argument loads s) (\<lambda>r.
          bindR (decode_items loads kvs) (\<lambda>rest.
            Inr (case r of None \<Rightarrow> rest | Some d \<Rightarrow> (k, d) # rest)))
      | _ \<Rightarrow> decode_items loads kvs)"

definition decoded_json_string_arguments ::
  "(string \<Rightarrow> loads_result) \<Rightarrow> json \<Rightarrow> (string, json) dict result" where
  "decoded_json_string_arguments loads args =
     (case args of JObj kvs \<Rightarrow> decode_items loads kvs | _ \<Rightarrow> Inr [])"

section \<open>What the scanners look at\<close>

definition word_char :: "char \<Rightarrow> bool" where
  "word_char c = (is_alpha c \<or> is_digit c \<or> c = CHR ''_'')"

text \<open>
  \<open>[A-Za-z_][A-Za-z0-9_]*(?:-[A-Za-z0-9_]+)*\<close> as a full match: the pieces between hyphens
  are non-empty words, and the first does not start with a digit.
\<close>

definition is_structural_key :: "string \<Rightarrow> bool" where
  "is_structural_key key = (length key \<le> 64 \<and>
     (let parts = split_on (CHR ''-'') key in
        list_all (\<lambda>w. w \<noteq> [] \<and> list_all word_char w) parts \<and> \<not> is_digit (hd (hd parts))))"

definition scannable_strings ::
  "(string \<Rightarrow> loads_result) \<Rightarrow> mcp_request \<Rightarrow> (string, json) dict result" where
  "scannable_strings loads req =
     (if rq_method req \<notin> set content_bearing_methods then Inr []
      else
        let p = rq_params req;
            name = (case dget p ''name'' of
                Some (JStr s) \<Rightarrow> if s = [] then [] else [(''name'', JStr s)] | _ \<Rightarrow> []);
            uri = (case dget p ''uri'' of
                None \<Rightarrow> [] | Some JNull \<Rightarrow> [] | Some u \<Rightarrow> [(''uri'', u)])
        in case dget p ''arguments'' of
             None \<Rightarrow> Inr (name @ uri)
           | Some JNull \<Rightarrow> Inr (name @ uri)
           | Some args \<Rightarrow> bindR (decoded_json_string_arguments loads args) (\<lambda>decoded.
               Inr (name @ [(''arguments'', args)]
                 @ (if decoded = [] then [] else [(''decoded_arguments'', JObj decoded)]) @ uri)))"

text \<open>Every text of a value with the key that governs its prose exemption; a key has none.\<close>

fun texts :: "string option \<Rightarrow> json \<Rightarrow> (string option \<times> string) list"
  and list_texts :: "string option \<Rightarrow> json list \<Rightarrow> (string option \<times> string) list"
  and item_texts :: "(string \<times> json) list \<Rightarrow> (string option \<times> string) list" where
  "texts leaf (JStr s) = [(leaf, s)]"
| "texts leaf (JArr xs) = list_texts leaf xs"
| "texts leaf (JObj d) = item_texts d"
| "texts leaf _ = []"
| "list_texts leaf [] = []"
| "list_texts leaf (x # xs) = texts leaf x @ list_texts leaf xs"
| "item_texts [] = []"
| "item_texts ((k, v) # d) = (None, k) # texts (Some k) v @ item_texts d"

text \<open>The characters \<open>\w\<close> matches.\<close>

definition re_word :: "char \<Rightarrow> bool" where
  "re_word c = (word_char c \<or> ord_of c \<in> {170, 178, 179, 181, 185, 186, 188, 189, 190}
     \<or> (192 \<le> ord_of c \<and> ord_of c \<noteq> 215 \<and> ord_of c \<noteq> 247))"

section \<open>Facts about the helpers\<close>

text \<open>The scan never reports less than the depth of the brackets it has open.\<close>

lemma bracket_fold_bounds:
  "sc_depth s \<le> sc_best s \<Longrightarrow>
   sc_depth (foldl bracket_step s text) \<le> sc_best (foldl bracket_step s text)
   \<and> sc_best s \<le> sc_best (foldl bracket_step s text)
   \<and> sc_best (foldl bracket_step s text) \<le> max (sc_best s) (sc_depth s + int (length text))"
proof (induction "text" arbitrary: s)
  case (Cons ch "text")
  have step: "sc_depth (bracket_step s ch) \<le> sc_best (bracket_step s ch)"
    "sc_best s \<le> sc_best (bracket_step s ch)"
    "sc_best (bracket_step s ch) \<le> max (sc_best s) (sc_depth s + 1)"
    "sc_depth (bracket_step s ch) \<le> sc_depth s + 1"
    using Cons.prems by (auto simp: bracket_step_def)
  from Cons.IH [OF step(1)] step show ?case by auto
qed simp

lemma bracket_depth_bounds: "0 \<le> bracket_depth text \<and> bracket_depth text \<le> int (length text)"
  using bracket_fold_bounds [of bracket_init "text"]
  by (auto simp: bracket_depth_def bracket_init_def)

text \<open>Opening \<open>n\<close> brackets in a row is always seen.\<close>

lemma bracket_open_run:
  "\<not> sc_in_string s \<Longrightarrow> sc_depth (foldl bracket_step s (replicate n (CHR ''[''))) = sc_depth s + int n
     \<and> \<not> sc_in_string (foldl bracket_step s (replicate n (CHR ''['')))"
  by (induction n arbitrary: s) (auto simp: bracket_step_def)

lemma bracket_depth_bomb:
  "int n \<le> bracket_depth (replicate n (CHR ''['') @ rest)"
proof -
  let ?s = "foldl bracket_step bracket_init (replicate n (CHR ''[''))"
  have "sc_depth ?s = int n" using bracket_open_run [of bracket_init n]
    by (simp add: bracket_init_def)
  moreover have "sc_depth ?s \<le> sc_best ?s"
    using bracket_fold_bounds [of bracket_init "replicate n (CHR ''['')"]
    by (simp add: bracket_init_def)
  moreover have "sc_best ?s \<le> sc_best (foldl bracket_step ?s rest)"
    using bracket_fold_bounds [of ?s rest] \<open>sc_depth ?s \<le> sc_best ?s\<close> by blast
  ultimately show ?thesis by (simp add: bracket_depth_def)
qed

text \<open>Only arrays and objects are ever substituted, each under a key of a string argument.\<close>

lemma decode_items_sound:
  "decode_items loads kvs = Inr out \<Longrightarrow> (k, v) \<in> set out \<Longrightarrow>
     \<exists>s. (k, JStr s) \<in> set kvs \<and> loads (strip s) = Decoded v
       \<and> ((\<exists>xs. v = JArr xs) \<or> (\<exists>d. v = JObj d)) \<and> bracket_depth (strip s) \<le> max_decode_depth"
proof (induction kvs arbitrary: out)
  case (Cons p kvs)
  obtain k' v' where p: "p = (k', v')" by (cases p)
  show ?case
  proof (cases "\<exists>s. v' = JStr s")
    case True
    then obtain s where s: "v' = JStr s" by blast
    from Cons.prems(1) p s obtain r rest
      where r: "decode_string_argument loads s = Inr r" and rest: "decode_items loads kvs = Inr rest"
        and out: "out = (case r of None \<Rightarrow> rest | Some d \<Rightarrow> (k', d) # rest)"
      by (auto simp: bindR_eq_Inr)
    show ?thesis
    proof (cases "(k, v) \<in> set rest")
      case True
      with Cons.IH [OF rest] show ?thesis by auto
    next
      case False
      with out Cons.prems(2) have "r = Some v" "k = k'" by (auto split: option.splits)
      with r p s show ?thesis
        by (intro exI [of _ s])
           (auto simp: decode_string_argument_def Let_def split: if_splits loads_result.splits json.splits)
    qed
  next
    case False
    with Cons p show ?thesis by (cases v') auto
  qed
qed simp

lemma scannable_other_methods:
  "rq_method req \<notin> set content_bearing_methods \<Longrightarrow> scannable_strings loads req = Inr []"
  by (simp add: scannable_strings_def)

end
