(* ===== verification/Bytes.thy ===== *)
theory Bytes
  imports Prelude "HOL-Library.Word"
begin

text \<open>
  Byte strings: UTF-8 of the modelled characters and unpadded URL-safe base64
  (\<open>_b64\<close>/\<open>_unb64\<close> of \<open>_session_token.py\<close> and \<open>explicit_state.py\<close>,
  \<open>_b64url_encode\<close>/\<open>_b64url_decode\<close> of \<open>auth.py\<close>), with the lenient decoder of
  \<open>binascii.a2b_base64\<close> that they call.  The lemmas show the round trip and that the
  encoding never contains the token separators.
\<close>

type_synonym bytes = "8 word list"

definition utf8_char :: "char \<Rightarrow> bytes" where
  "utf8_char c = (let n = ord_of c in
     if n < 128 then [of_nat n] else [of_nat (192 + n div 64), of_nat (128 + n mod 64)])"

definition utf8 :: "string \<Rightarrow> bytes" where
  "utf8 s = concat (map utf8_char s)"

definition is_ascii :: "string \<Rightarrow> bool" where
  "is_ascii s = list_all (\<lambda>c. ord_of c < 128) s"

section \<open>Base64\<close>

definition b64_char :: "nat \<Rightarrow> char" where
  "b64_char n = char_of (if n < 26 then 65 + n else if n < 52 then 71 + n
     else if n < 62 then n - 4 else if n = 62 then 45 else 95)"

definition sextet :: "char \<Rightarrow> nat option" where
  "sextet c = (let n = ord_of c in
     if 65 \<le> n \<and> n \<le> 90 then Some (n - 65)
     else if 97 \<le> n \<and> n \<le> 122 then Some (n - 71)
     else if 48 \<le> n \<and> n \<le> 57 then Some (n + 4)
     else if n = 43 \<or> n = 45 then Some 62
     else if n = 47 \<or> n = 95 then Some 63
     else None)"

fun b64_url :: "bytes \<Rightarrow> string" where
  "b64_url [] = []"
| "b64_url [a] = [b64_char (unat a div 4), b64_char (unat a mod 4 * 16)]"
| "b64_url [a, b] = [b64_char (unat a div 4), b64_char (unat a mod 4 * 16 + unat b div 16),
     b64_char (unat b mod 16 * 4)]"
| "b64_url (a # b # c # r) = b64_char (unat a div 4)
     # b64_char (unat a mod 4 * 16 + unat b div 16)
     # b64_char (unat b mod 16 * 4 + unat c div 64) # b64_char (unat c mod 64) # b64_url r"

text \<open>
  The decoder skips characters outside the alphabet, and a complete padding ends the input;
  \<open>q\<close> is the position in the current group, \<open>l\<close> the bits carried over, \<open>p\<close> the pads seen.
\<close>

fun a2b :: "string \<Rightarrow> nat \<Rightarrow> nat \<Rightarrow> nat \<Rightarrow> bytes option" where
  "a2b [] q l p = (if q = 0 then Some [] else None)"
| "a2b (c # cs) q l p =
     (if c = CHR ''='' then
        (if 2 \<le> q then (if 4 \<le> q + p + 1 then Some [] else a2b cs q l (p + 1))
         else a2b cs q l p)
      else case sextet c of
        None \<Rightarrow> a2b cs q l p
      | Some v \<Rightarrow>
          if q = 0 then a2b cs 1 v 0
          else if q = 1 then map_option (Cons (of_nat (l * 4 + v div 16))) (a2b cs 2 (v mod 16) 0)
          else if q = 2 then map_option (Cons (of_nat (l * 16 + v div 4))) (a2b cs 3 (v mod 4) 0)
          else map_option (Cons (of_nat (l * 64 + v))) (a2b cs 0 0 0))"

text \<open>\<open>base64.urlsafe_b64decode(text + "=" * (-len(text) % 4))\<close>; \<open>None\<close> is a raised error.\<close>

definition unb64 :: "string \<Rightarrow> bytes option" where
  "unb64 s = (if is_ascii s
     then a2b (s @ replicate ((4 - length s mod 4) mod 4) (CHR ''='')) 0 0 0 else None)"

section \<open>Facts\<close>

lemma ord_b64_char: "n < 64 \<Longrightarrow> ord_of (b64_char n) = (if n < 26 then 65 + n
     else if n < 52 then 71 + n else if n < 62 then n - 4 else if n = 62 then 45 else 95)"
  by (auto simp: b64_char_def ord_of_def)

lemma sextet_b64_char [simp]: "n < 64 \<Longrightarrow> sextet (b64_char n) = Some n"
  by (auto simp: sextet_def ord_b64_char Let_def)

lemma b64_char_not_pad: "n < 64 \<Longrightarrow> b64_char n \<noteq> CHR ''=''"
  using sextet_b64_char [of n] by (auto simp: sextet_def ord_of_def)

lemma b64_char_ascii: "n < 64 \<Longrightarrow> ord_of (b64_char n) < 128"
  by (auto simp: ord_b64_char)

lemma unat_byte: "unat (a :: 8 word) < 256"
proof -
  have "unat a < 2 ^ LENGTH(8)" by (rule unsigned_less)
  then show ?thesis by simp
qed

lemma byte_parts [simp]:
  "unat (a :: 8 word) div 4 < 64" "unat a mod 4 * 16 < 64" "unat b div 16 < (16::nat)"
  "unat (a :: 8 word) mod 4 * 16 + unat (b :: 8 word) div 16 < 64"
  "unat b mod 16 * 4 < 64" "unat (b :: 8 word) mod 16 * 4 + unat (c :: 8 word) div 64 < 64"
  "unat c mod 64 < 64"
proof -
  have a: "unat a div 4 < 64" "unat a mod 4 \<le> 3" using unat_byte [of a] by auto
  have b: "unat b div 16 < 16" "unat b mod 16 \<le> 15" using unat_byte [of b] by auto
  have c: "unat c div 64 < 4" using unat_byte [of c] by auto
  from a b c show "unat a div 4 < 64" "unat a mod 4 * 16 < 64" "unat b div 16 < 16"
    "unat a mod 4 * 16 + unat b div 16 < 64" "unat b mod 16 * 4 < 64"
    "unat b mod 16 * 4 + unat c div 64 < 64" "unat c mod 64 < 64" by auto
qed

lemma group_bits:
  "unat (a :: 8 word) div 4 * 4 + (unat a mod 4 * 16 + unat (b :: 8 word) div 16) div 16 = unat a"
  "(unat (a :: 8 word) mod 4 * 16 + unat (b :: 8 word) div 16) mod 16 * 16
     + (unat b mod 16 * 4 + unat (c :: 8 word) div 64) div 4 = unat b"
  "(unat b mod 16 * 4 + unat c div 64) mod 4 * 64 + unat c mod 64 = unat c"
proof -
  have q: "unat b div 16 < 16" "unat c div 64 < 4" using unat_byte [of b] unat_byte [of c] by auto
  have e1: "(unat a mod 4 * 16 + unat b div 16) div 16 = unat a mod 4"
    "(unat a mod 4 * 16 + unat b div 16) mod 16 = unat b div 16" using q by auto
  have e2: "(unat b mod 16 * 4 + unat c div 64) div 4 = unat b mod 16"
    "(unat b mod 16 * 4 + unat c div 64) mod 4 = unat c div 64" using q by auto
  show "unat a div 4 * 4 + (unat a mod 4 * 16 + unat b div 16) div 16 = unat a"
    "(unat a mod 4 * 16 + unat b div 16) mod 16 * 16
       + (unat b mod 16 * 4 + unat c div 64) div 4 = unat b"
    "(unat b mod 16 * 4 + unat c div 64) mod 4 * 64 + unat c mod 64 = unat c"
    unfolding e1 e2 by presburger+
qed

lemma length_b64_url: "length (b64_url bs) = (4 * length bs + 2) div 3"
  by (induction bs rule: b64_url.induct) auto

lemma b64_url_chars: "c \<in> set (b64_url bs) \<Longrightarrow> \<exists>n < 64. c = b64_char n"
  by (induction bs rule: b64_url.induct) (auto intro: byte_parts)

lemma b64_url_not_dot: "CHR ''.'' \<notin> set (b64_url bs)" "CHR ''|'' \<notin> set (b64_url bs)"
proof -
  have "sextet CHR ''.'' = None" "sextet CHR ''|'' = None"
    by (simp_all add: sextet_def ord_of_def)
  then show "CHR ''.'' \<notin> set (b64_url bs)" "CHR ''|'' \<notin> set (b64_url bs)"
    using b64_url_chars sextet_b64_char by (metis option.distinct(1))+
qed

lemma b64_url_ascii: "is_ascii (b64_url bs)"
  unfolding is_ascii_def list_all_iff using b64_url_chars b64_char_ascii by blast

lemma b64_url_Nil_iff [simp]: "b64_url bs = [] \<longleftrightarrow> bs = []"
  by (cases bs rule: b64_url.cases) auto

lemma b64_pads:
  "(4 - length (b64_url bs) mod 4) mod 4 = (case length bs mod 3 of 0 \<Rightarrow> 0 | Suc 0 \<Rightarrow> 2 | _ \<Rightarrow> 1)"
  by (induction bs rule: b64_url.induct) (auto split: nat.splits simp: mod_Suc_eq_mod_add3)

lemma a2b_step:
  "n < 64 \<Longrightarrow> a2b (b64_char n # cs) q l p =
     (if q = 0 then a2b cs 1 n 0
      else if q = 1 then map_option (Cons (of_nat (l * 4 + n div 16))) (a2b cs 2 (n mod 16) 0)
      else if q = 2 then map_option (Cons (of_nat (l * 16 + n div 4))) (a2b cs 3 (n mod 4) 0)
      else map_option (Cons (of_nat (l * 64 + n))) (a2b cs 0 0 0))"
  by (simp add: b64_char_not_pad)

lemma a2b_b64: "a2b (b64_url bs @ replicate (case length bs mod 3 of 0 \<Rightarrow> 0 | Suc 0 \<Rightarrow> 2 | _ \<Rightarrow> 1)
    (CHR ''='')) 0 0 0 = Some bs"
proof (induction bs rule: b64_url.induct)
  case (2 a)
  have "unat a div 4 * 4 + unat a mod 4 = unat a" by presburger
  then show ?case by (simp add: a2b_step numeral_2_eq_2 del: a2b.simps(2)) (simp add: numeral_2_eq_2)
next
  case (3 a b)
  show ?case
    using group_bits(1) [of a b] group_bits(2) [of a b 0]
    by (simp add: a2b_step del: a2b.simps(2)) (simp add: numeral_2_eq_2)
next
  case (4 a b c r)
  have m: "length (a # b # c # r) mod 3 = length r mod 3" by simp
  show ?case unfolding m
    using 4 group_bits(1) [of a b] group_bits(2) [of a b c] group_bits(3) [of b c]
    by (simp add: a2b_step del: a2b.simps(2))
qed simp

lemma unb64_b64_url: "unb64 (b64_url bs) = Some bs"
  by (simp add: unb64_def b64_url_ascii b64_pads a2b_b64)

lemma b64_url_inj: "b64_url a = b64_url b \<longleftrightarrow> a = b"
  by (metis option.inject unb64_b64_url)

lemma utf8_char_cases:
  "utf8_char c = [of_nat (ord_of c)] \<and> ord_of c < 128
   \<or> utf8_char c = [of_nat (192 + ord_of c div 64), of_nat (128 + ord_of c mod 64)]
     \<and> 128 \<le> ord_of c \<and> ord_of c < 256"
  by (auto simp: utf8_char_def Let_def ord_of_def)

lemma of_nat_byte_eq:
  "m < 256 \<Longrightarrow> n < 256 \<Longrightarrow> (of_nat m :: 8 word) = of_nat n \<longleftrightarrow> m = n"
  by (auto dest!: arg_cong [where f = unat] simp: unat_of_nat)

lemma utf8_char_prefix_free:
  assumes eq: "utf8_char c @ u = utf8_char d @ v"
  shows "c = d \<and> u = v"
proof -
  have "ord_of c = ord_of d \<and> u = v"
  proof (cases "ord_of c < 128"; cases "ord_of d < 128")
    assume "ord_of c < 128" "ord_of d < 128"
    with eq show ?thesis by (simp add: utf8_char_def Let_def of_nat_byte_eq)
  next
    assume c: "ord_of c < 128" and d: "\<not> ord_of d < 128"
    then have "192 + ord_of d div 64 < 256" using utf8_char_cases [of d] by auto
    with eq c d show ?thesis by (simp add: utf8_char_def Let_def of_nat_byte_eq del: of_nat_add)
  next
    assume c: "\<not> ord_of c < 128" and d: "ord_of d < 128"
    then have "192 + ord_of c div 64 < 256" using utf8_char_cases [of c] by auto
    with eq c d show ?thesis by (simp add: utf8_char_def Let_def of_nat_byte_eq del: of_nat_add)
  next
    assume c: "\<not> ord_of c < 128" and d: "\<not> ord_of d < 128"
    then have b: "ord_of c div 64 < 4" "ord_of d div 64 < 4"
      using utf8_char_cases [of c] utf8_char_cases [of d] by auto
    from eq c d have "u = v"
      and h: "(of_nat (192 + ord_of c div 64) :: 8 word) = of_nat (192 + ord_of d div 64)"
      and l: "(of_nat (128 + ord_of c mod 64) :: 8 word) = of_nat (128 + ord_of d mod 64)"
      by (simp_all add: utf8_char_def Let_def del: of_nat_add)
    from h b have "ord_of c div 64 = ord_of d div 64"
      using of_nat_byte_eq [of "192 + ord_of c div 64" "192 + ord_of d div 64"]
      by (simp del: of_nat_add)
    moreover from l have "ord_of c mod 64 = ord_of d mod 64"
      using of_nat_byte_eq [of "128 + ord_of c mod 64" "128 + ord_of d mod 64"]
      by (simp del: of_nat_add)
    ultimately have "ord_of c = ord_of d" by (metis div_mult_mod_eq)
    with \<open>u = v\<close> show ?thesis by simp
  qed
  then show ?thesis by (simp add: ord_of_def)
qed

lemma utf8_char_not_Nil [simp]: "utf8_char c \<noteq> []"
  by (simp add: utf8_char_def Let_def)

lemma utf8_inj: "utf8 s = utf8 t \<longleftrightarrow> s = t"
proof
  show "utf8 s = utf8 t \<Longrightarrow> s = t"
  proof (induction s arbitrary: t)
    case Nil
    then show ?case by (cases t) (simp_all add: utf8_def)
  next
    case (Cons c s)
    show ?case
    proof (cases t)
      case (Cons d t')
      with Cons.prems have "utf8_char c @ utf8 s = utf8_char d @ utf8 t'" by (simp add: utf8_def)
      from utf8_char_prefix_free [OF this] Cons.IH Cons show ?thesis by simp
    qed (use Cons.prems in \<open>simp add: utf8_def\<close>)
  qed
qed simp

end
