(* ===== verification/Engine.thy ===== *)
theory Engine
  imports Types Bytes
begin

text \<open>
  The interface every engine implements (\<open>mcp_armor/engines/base.py\<close>).  A hook takes the
  context and the request (or response) and the engine's own state, and either raises or
  returns a context; the state is returned in both cases, since Python keeps what a method
  wrote before it raised.  The locales state the promise the guard relies on: a hook that
  returns leaves the identifying fields of the context alone.
\<close>

text \<open>
  \<open>hmac.compare_digest\<close> (also as \<open>secrets.compare_digest\<close>) on two \<open>str\<close> raises \<open>TypeError\<close> unless both are ASCII.
\<close>

definition compare_digest_str :: "string \<Rightarrow> string \<Rightarrow> bool result" where
  "compare_digest_str a b =
     (if is_ascii a \<and> is_ascii b then Inr (a = b)
      else Inl (PyExc TypeError ''comparing strings with non-ASCII characters''))"

type_synonym 's request_hook_fn = "ctx \<Rightarrow> mcp_request \<Rightarrow> 's \<Rightarrow> ctx result \<times> 's"
type_synonym 's response_hook_fn = "ctx \<Rightarrow> mcp_response \<Rightarrow> 's \<Rightarrow> ctx result \<times> 's"

text \<open>\<open>on_session_start\<close> / \<open>on_response\<close> of the engines that only return their argument.\<close>

definition pass_session :: "ctx \<Rightarrow> 's \<Rightarrow> ctx result \<times> 's" where
  "pass_session c s = (Inr c, s)"

definition pass_request :: "'s request_hook_fn" where
  "pass_request c req s = (Inr c, s)"

definition pass_response :: "'s response_hook_fn" where
  "pass_response c resp s = (Inr c, s)"

text \<open>A sequence of requests on one session, each one on the context the last one left.\<close>

fun serve :: "'s request_hook_fn \<Rightarrow> ctx \<Rightarrow> mcp_request list \<Rightarrow> 's \<Rightarrow> ctx result list \<times> ctx \<times> 's" where
  "serve h c [] s = ([], c, s)"
| "serve h c (r # rs) s = (case h c r s of
     (Inl e, s') \<Rightarrow> (let (out, c'', s'') = serve h c rs s' in (Inl e # out, c'', s''))
   | (Inr c', s') \<Rightarrow> (let (out, c'', s'') = serve h c' rs s' in (Inr c' # out, c'', s'')))"

locale request_hook =
  fixes hook :: "'s request_hook_fn"
  assumes frame: "hook c req s = (Inr c', s') \<Longrightarrow> same_session c c'"
begin

lemma serve_frame: "serve hook c rs s = (out, c', s') \<Longrightarrow> same_session c c'"
proof (induction rs arbitrary: c s out)
  case (Cons r rs)
  obtain res s1 where h: "hook c r s = (res, s1)" by (cases "hook c r s")
  show ?case
  proof (cases res)
    case (Inl e)
    with Cons h show ?thesis by (auto split: prod.splits)
  next
    case (Inr c1)
    obtain out2 c2 s2 where sv: "serve hook c1 rs s1 = (out2, c2, s2)"
      by (cases "serve hook c1 rs s1")
    with Cons.prems h Inr have "c' = c2" "s' = s2" by auto
    moreover from frame [of c r s c1 s1] h Inr have "same_session c c1" by simp
    ultimately show ?thesis using Cons.IH [OF sv [folded \<open>c' = c2\<close> \<open>s' = s2\<close>]]
      by (blast intro: same_session_trans)
  qed
qed simp

end

locale response_hook =
  fixes hook :: "'s response_hook_fn"
  assumes frame: "hook c resp s = (Inr c', s') \<Longrightarrow> same_session c c'"

interpretation pass_req: request_hook "pass_request :: 's request_hook_fn"
  by unfold_locales (auto simp: pass_request_def)

interpretation pass_resp: response_hook "pass_response :: 's response_hook_fn"
  by unfold_locales (auto simp: pass_response_def)

end
