(* ===== verification/Session.thy ===== *)
theory Session
  imports Engine Bytes
begin

text \<open>
  T7: the stateless HMAC session tokens (\<open>mcp_armor/engines/_session_token.py\<close>) and the
  session engine (\<open>mcp_armor/engines/session.py\<close>).  HMAC-SHA256 is the parameter
  \<open>hmac key message\<close>; what is used of it is that its digests have 32 bytes.  Forgery claims
  are stated as reductions: two accepted uses of one token either agree or exhibit two
  messages with the same MAC.
\<close>

section \<open>Tokens\<close>

definition min_secret_bytes :: nat where "min_secret_bytes = 32"
definition nonce_bytes :: nat where "nonce_bytes = 18"
definition max_token_len :: nat where "max_token_len = 256"

definition new_signer :: "bytes \<Rightarrow> bytes result" where
  "new_signer secret =
     (if length secret < min_secret_bytes
      then Inl (PyExc ValueError ''session secret too short'') else Inr secret)"

definition signer_from_env :: "(string, string) dict \<Rightarrow> bytes result" where
  "signer_from_env env =
     (let raw = (case dget env ''ARMOR_SESSION_SECRET'' of None \<Rightarrow> [] | Some r \<Rightarrow> r)
      in if raw = [] then Inl (PyExc RuntimeError ''ARMOR_SESSION_SECRET is not set'')
         else new_signer (utf8 raw))"

definition token_message :: "string \<Rightarrow> string \<Rightarrow> bytes" where
  "token_message nonce tr = utf8 (nonce @ CHR ''|'' # tr)"

definition token_sig :: "(bytes \<Rightarrow> bytes \<Rightarrow> bytes) \<Rightarrow> bytes \<Rightarrow> string \<Rightarrow> string \<Rightarrow> string" where
  "token_sig hmac secret nonce tr = b64_url (hmac secret (token_message nonce tr))"

text \<open>\<open>mint\<close>, with the operating system's random bytes as an argument.\<close>

definition mint_token :: "(bytes \<Rightarrow> bytes \<Rightarrow> bytes) \<Rightarrow> bytes \<Rightarrow> bytes \<Rightarrow> string \<Rightarrow> string" where
  "mint_token hmac secret urandom tr =
     (let nonce = b64_url urandom in nonce @ CHR ''.'' # token_sig hmac secret nonce tr)"

definition verify_token :: "(bytes \<Rightarrow> bytes \<Rightarrow> bytes) \<Rightarrow> bytes \<Rightarrow> string \<Rightarrow> string \<Rightarrow> unit result" where
  "verify_token hmac secret token tr =
     (if token = [] \<or> length token > max_token_len \<or> count_list token (CHR ''.'') \<noteq> 1
      then Inl (Cosai SessionError ''malformed'')
      else case split_on (CHR ''.'') token of
             [nonce, sig] \<Rightarrow>
               if nonce = [] \<or> sig = [] then Inl (Cosai SessionError ''malformed'')
               else bindR (compare_digest_str sig (token_sig hmac secret nonce tr)) (\<lambda>same.
                 if same then Inr () else Inl (Cosai SessionError ''signature mismatch''))
           | _ \<Rightarrow> Inl (PyExc ValueError ''unpack''))"

section \<open>The engine\<close>

record session_engine =
  se_secret :: bytes
  se_require_handshake :: bool

definition new_session_engine :: "bytes option \<Rightarrow> (string, string) dict \<Rightarrow> bool \<Rightarrow> session_engine result" where
  "new_session_engine signer env require_hs =
     bindR (case signer of Some s \<Rightarrow> Inr s | None \<Rightarrow> signer_from_env env) (\<lambda>secret.
       Inr \<lparr>se_secret = secret, se_require_handshake = require_hs\<rparr>)"

definition handshake_gate :: "ctx \<Rightarrow> string \<Rightarrow> ctx result" where
  "handshake_gate c method =
     (if method = ''initialize'' then Inr (with_handshake_phase c PENDING)
      else if method = ''notifications/initialized'' then Inr (with_handshake_phase c ACTIVE)
      else if handshake_phase c \<noteq> ACTIVE \<and> method \<notin> set handshake_allowed_methods
        then Inl (Cosai SessionError ''handshake not complete'')
      else Inr c)"

definition session_on_request :: "(bytes \<Rightarrow> bytes \<Rightarrow> bytes) \<Rightarrow> session_engine \<Rightarrow> ctx \<Rightarrow> mcp_request
    \<Rightarrow> ctx result" where
  "session_on_request hmac e c req =
     (if dhas (rq_query req) ''session_id'' \<or> dhas (rq_query req) ''mcp_session_id''
      then Inl (Cosai SessionError ''T7-002'')
      else bindR (verify_token hmac (se_secret e) (session_id c) (rq_transport req)) (\<lambda>_.
        if \<not> se_require_handshake e then Inr c
        else handshake_gate c (rq_method req)))"

definition session_hook :: "(bytes \<Rightarrow> bytes \<Rightarrow> bytes) \<Rightarrow> session_engine request_hook_fn" where
  "session_hook hmac c req e = (session_on_request hmac e c req, e)"

section \<open>Token lemmas\<close>

lemma verify_token_iff:
  "verify_token hmac secret token tr = Inr u \<longleftrightarrow>
     length token \<le> max_token_len \<and>
     (\<exists>nonce. nonce \<noteq> [] \<and> CHR ''.'' \<notin> set nonce \<and> token_sig hmac secret nonce tr \<noteq> []
        \<and> token = nonce @ CHR ''.'' # token_sig hmac secret nonce tr)" (is "?L = ?R")
proof
  assume L: ?L
  then have g: "length token \<le> max_token_len" "token \<noteq> []"
    and c: "count_list token (CHR ''.'') = 1"
    by (auto simp: verify_token_def split: if_splits)
  from c have "length (split_on (CHR ''.'') token) = 2" by (simp add: length_split_on)
  then obtain nonce sig where sp: "split_on (CHR ''.'') token = [nonce, sig]"
    by (auto simp: length_Suc_conv numeral_2_eq_2)
  from L sp g c have "nonce \<noteq> []" "sig \<noteq> []" "sig = token_sig hmac secret nonce tr"
    by (auto simp: verify_token_def compare_digest_str_def bindR_eq_Inr split: if_splits)
  with split_on_pair [OF sp] g show ?R by blast
next
  assume R: ?R
  then obtain nonce where n: "nonce \<noteq> []" "CHR ''.'' \<notin> set nonce" "length token \<le> max_token_len"
    "token_sig hmac secret nonce tr \<noteq> []"
    "token = nonce @ CHR ''.'' # token_sig hmac secret nonce tr" by blast
  have d: "CHR ''.'' \<notin> set (token_sig hmac secret nonce tr)"
    by (simp add: token_sig_def b64_url_not_dot)
  have "split_on (CHR ''.'') token = [nonce, token_sig hmac secret nonce tr]"
    using n(2,5) d by (simp add: split_on_append_sep split_on_none)
  moreover have "count_list token (CHR ''.'') = 1"
    using n(2,5) d by (simp add: count_list_0_iff)
  ultimately show ?L using n
    by (simp add: verify_token_def compare_digest_str_def token_sig_def b64_url_ascii)
qed

lemma token_message_inj:
  "CHR ''|'' \<notin> set tr \<Longrightarrow> CHR ''|'' \<notin> set tr' \<Longrightarrow>
   token_message n tr = token_message n' tr' \<longleftrightarrow> n = n' \<and> tr = tr'"
  using sep_inj [of n "CHR ''|''" tr n' tr'] by (auto simp: token_message_def utf8_inj)

lemma token_sig_inj:
  "token_sig hmac secret n tr = token_sig hmac secret n' tr' \<longleftrightarrow>
     hmac secret (token_message n tr) = hmac secret (token_message n' tr')"
  by (simp add: token_sig_def b64_url_inj)

lemma verify_token_errors:
  "verify_token hmac secret token tr = Inl e \<Longrightarrow>
     (\<exists>site. e = Cosai SessionError site) \<or> (\<not> is_ascii token \<and> (\<exists>m. e = PyExc TypeError m))"
proof -
  assume e: "verify_token hmac secret token tr = Inl e"
  show ?thesis
  proof (cases "token = [] \<or> length token > max_token_len \<or> count_list token (CHR ''.'') \<noteq> 1")
    case False
    then have "length (split_on (CHR ''.'') token) = 2" by (simp add: length_split_on)
    then obtain nonce sig where sp: "split_on (CHR ''.'') token = [nonce, sig]"
      by (auto simp: length_Suc_conv numeral_2_eq_2)
    from split_on_pair [OF sp] have "is_ascii token \<Longrightarrow> is_ascii sig"
      by (simp add: is_ascii_def)
    with e False sp show ?thesis
      by (auto simp: verify_token_def compare_digest_str_def token_sig_def b64_url_ascii
          bindR_eq_Inl split: if_splits)
  qed (use e in \<open>auto simp: verify_token_def\<close>)
qed

section \<open>Engine lemmas\<close>

lemma session_on_request_ok:
  "session_on_request hmac e c req = Inr c' \<longleftrightarrow>
     \<not> dhas (rq_query req) ''session_id'' \<and> \<not> dhas (rq_query req) ''mcp_session_id''
     \<and> verify_token hmac (se_secret e) (session_id c) (rq_transport req) = Inr ()
     \<and> (if se_require_handshake e then handshake_gate c (rq_method req) = Inr c' else c' = c)"
  by (auto simp: session_on_request_def bindR_eq_Inr)

lemma handshake_gate_frame: "handshake_gate c m = Inr c' \<Longrightarrow> same_session c c'"
  by (auto simp: handshake_gate_def split: if_splits)

interpretation session_rq: request_hook "session_hook hmac" for hmac
  by unfold_locales
     (auto simp: session_hook_def session_on_request_ok handshake_gate_frame split: if_splits)

text \<open>
  The handshake as a step relation of one session: a request is either answered, moving the
  phase, or rejected, leaving the context as it was.
\<close>

inductive session_step :: "(bytes \<Rightarrow> bytes \<Rightarrow> bytes) \<Rightarrow> session_engine \<Rightarrow> ctx \<Rightarrow> mcp_request \<Rightarrow> bool
    \<Rightarrow> ctx \<Rightarrow> bool" for hmac e where
  accepted: "session_on_request hmac e c req = Inr c' \<Longrightarrow> session_step hmac e c req True c'"
| rejected: "session_on_request hmac e c req = Inl x \<Longrightarrow> session_step hmac e c req False c"

inductive_cases session_step_accepted: "session_step hmac e c req True c'"
inductive_cases session_step_rejected: "session_step hmac e c req False c'"

inductive session_run :: "(bytes \<Rightarrow> bytes \<Rightarrow> bytes) \<Rightarrow> session_engine \<Rightarrow> ctx
    \<Rightarrow> (mcp_request \<times> bool) list \<Rightarrow> ctx \<Rightarrow> bool" for hmac e c0 where
  start: "session_run hmac e c0 [] c0"
| step: "session_run hmac e c0 tr c \<Longrightarrow> session_step hmac e c req ok c'
     \<Longrightarrow> session_run hmac e c0 (tr @ [(req, ok)]) c'"

lemma session_step_total: "\<exists>ok c'. session_step hmac e c req ok c'"
  by (cases "session_on_request hmac e c req") (auto intro: session_step.intros)

lemma session_step_phase:
  assumes "session_step hmac e c req ok c'" and "se_require_handshake e"
  shows "handshake_phase c' = (if ok \<and> rq_method req = ''initialize'' then PENDING
           else if ok \<and> rq_method req = ''notifications/initialized'' then ACTIVE
           else handshake_phase c)"
  using assms
  by cases (auto simp: session_on_request_ok handshake_gate_def with_handshake_phase_def
      split: if_splits)

lemma session_run_pending:
  assumes "session_run hmac e c0 tr c" and "se_require_handshake e"
    and "handshake_phase c0 = PENDING"
    and "\<forall>(req, ok) \<in> set tr. ok \<longrightarrow> rq_method req \<noteq> ''notifications/initialized''"
  shows "handshake_phase c = PENDING
    \<and> (\<forall>(req, ok) \<in> set tr. ok \<longrightarrow> rq_method req \<in> set handshake_allowed_methods)"
  using assms(1,4)
proof (induction rule: session_run.induct)
  case start
  with assms(3) show ?case by simp
next
  case (step tr c req ok c')
  then have IH: "handshake_phase c = PENDING" by auto
  have m: "ok \<Longrightarrow> rq_method req \<in> set handshake_allowed_methods"
    using step.hyps(2) assms(2) IH
    by (cases ok) (auto elim!: session_step_accepted
      simp: session_on_request_ok handshake_gate_def handshake_allowed_methods_def split: if_splits)
  have "handshake_phase c' = PENDING"
    using session_step_phase [OF step.hyps(2) assms(2)] IH step.prems by auto
  with m step show ?case by auto
qed

lemma session_run_frame: "session_run hmac e c0 tr c \<Longrightarrow> same_session c0 c"
proof (induction rule: session_run.induct)
  case (step tr c req ok c')
  from step.hyps(2) have "same_session c c'"
  proof cases
    case accepted
    then have "session_hook hmac c req e = (Inr c', e)" by (simp add: session_hook_def)
    then show ?thesis by (rule session_rq.frame)
  qed simp
  with step.IH show ?case by (rule same_session_trans)
qed simp

lemma session_run_prefix:
  "session_run hmac e c0 tr c \<Longrightarrow> tr = pre @ post \<Longrightarrow> \<exists>c1. session_run hmac e c0 pre c1"
proof (induction arbitrary: post rule: session_run.induct)
  case start
  then show ?case by (auto intro: session_run.start)
next
  case (step tr c req ok c')
  show ?case
  proof (cases post rule: rev_cases)
    case Nil
    with step.prems session_run.step [OF step.hyps] show ?thesis by auto
  next
    case (snoc post' x)
    with step.prems have "tr = pre @ post'" by simp
    then show ?thesis by (rule step.IH)
  qed
qed

section \<open>Properties\<close>

text \<open>
  A token minted for a transport is accepted for that transport, for every secret and
  every nonce the operating system can return.
\<close>

theorem mint_verify_roundtrip:
  assumes "\<forall>k m. length (hmac k m) = 32" and "length urandom = nonce_bytes"
  shows "verify_token hmac secret (mint_token hmac secret urandom tr) tr = Inr ()"
proof -
  have "urandom \<noteq> []" using assms(2) by (auto simp: nonce_bytes_def)
  moreover have "hmac secret m \<noteq> []" for m using assms(1) by (metis list.size(3) zero_neq_numeral)
  ultimately show ?thesis
    unfolding verify_token_iff
    using assms
    by (auto simp: mint_token_def Let_def token_sig_def length_b64_url nonce_bytes_def
        max_token_len_def b64_url_not_dot)
qed

theorem mint_verify_roundtrip_witness:
  "verify_token (\<lambda>k m. replicate 32 7) [1] (mint_token (\<lambda>k m. replicate 32 7) [1]
     (replicate 18 5) ''http'') ''http'' = Inr ()"
  by (rule mint_verify_roundtrip) (simp_all add: nonce_bytes_def)

text \<open>
  A token accepted on two transports either has one and the same transport, or the two
  signed messages are distinct with equal MACs under the server's secret: replaying a token
  across transports is as hard as finding an HMAC collision.
\<close>

theorem cross_transport_replay:
  assumes "verify_token hmac secret token tr = Inr ()"
    and "verify_token hmac secret token tr' = Inr ()"
    and "CHR ''|'' \<notin> set tr" and "CHR ''|'' \<notin> set tr'"
  shows "tr = tr' \<or> (\<exists>m m'. m \<noteq> m' \<and> hmac secret m = hmac secret m')"
proof -
  from assms(1) obtain n where n: "CHR ''.'' \<notin> set n"
    "token = n @ CHR ''.'' # token_sig hmac secret n tr" by (auto simp: verify_token_iff)
  from assms(2) obtain n' where n': "CHR ''.'' \<notin> set n'"
    "token = n' @ CHR ''.'' # token_sig hmac secret n' tr'" by (auto simp: verify_token_iff)
  from n n' have "n = n'" "token_sig hmac secret n tr = token_sig hmac secret n' tr'"
    using first_sep_inj by metis+
  then have "hmac secret (token_message n tr) = hmac secret (token_message n tr')"
    by (simp add: token_sig_inj)
  with token_message_inj [OF assms(3,4), of n n] show ?thesis by blast
qed

theorem cross_transport_replay_witness:
  "(let h = (\<lambda>k m. replicate 32 7); t = mint_token h [1] (replicate 18 5) ''http''
    in verify_token h [1] t ''http'' = Inr () \<and> verify_token h [1] t ''stdio'' = Inr ()
       \<and> (''http'' = ''stdio'' \<or> (\<exists>m m'. m \<noteq> m' \<and> h [1 :: 8 word] m = h [1] m')))"
proof -
  let ?h = "\<lambda>k m :: bytes. replicate 32 (7 :: 8 word)"
  let ?t = "mint_token ?h [1 :: 8 word] (replicate 18 5) ''http''"
  have a: "verify_token ?h [1] ?t ''http'' = Inr ()" by code_simp
  have b: "verify_token ?h [1] ?t ''stdio'' = Inr ()" by code_simp
  show ?thesis using a b cross_transport_replay [OF a b] by (simp add: Let_def)
qed

text \<open>
  C11: With the handshake gate on, after \<open>initialize\<close> no request other than the handshake
  methods is answered until a \<open>notifications/initialized\<close> has been answered, whatever the
  client sends in between.
\<close>

theorem handshake_gate_holds:
  assumes "session_run hmac e c0 (pre @ (req, True) # post) c" and "se_require_handshake e"
    and "handshake_phase c0 = PENDING"
    and "rq_method req \<notin> set handshake_allowed_methods"
  shows "\<exists>r. (r, True) \<in> set pre \<and> rq_method r = ''notifications/initialized''"
proof (rule ccontr)
  assume none: "\<not> ?thesis"
  obtain c1 where "session_run hmac e c0 (pre @ [(req, True)]) c1"
    using session_run_prefix [OF assms(1), of "pre @ [(req, True)]" post] by auto
  moreover have "rq_method req \<noteq> ''notifications/initialized''"
    using assms(4) by (auto simp: handshake_allowed_methods_def)
  ultimately have "rq_method req \<in> set handshake_allowed_methods"
    using session_run_pending [OF _ assms(2,3)] none by fastforce
  with assms(4) show False by contradiction
qed

definition demo_hmac :: "bytes \<Rightarrow> bytes \<Rightarrow> bytes" where
  "demo_hmac k m = replicate 32 7"

definition demo_context :: ctx where
  "demo_context = (new_context 0 (mint_token demo_hmac [1] (replicate 18 5) ''http'') ''http'')
     \<lparr>handshake_phase := PENDING\<rparr>"

definition demo_request :: "string \<Rightarrow> mcp_request" where
  "demo_request m = \<lparr>rq_method = m, rq_params = [], rq_session_id = session_id demo_context,
     rq_headers = [], rq_query = [], rq_transport = ''http'', rq_header_pairs = []\<rparr>"

lemma demo_verify: "verify_token demo_hmac [1] (session_id demo_context) ''http'' = Inr ()"
  by code_simp

theorem handshake_gate_holds_witness:
  "\<exists>c pre. session_run demo_hmac \<lparr>se_secret = [1], se_require_handshake = True\<rparr> demo_context
     (pre @ [(demo_request ''tools/call'', True)]) c
   \<and> (\<exists>r. (r, True) \<in> set pre \<and> rq_method r = ''notifications/initialized'')"
proof -
  let ?e = "\<lparr>se_secret = [1], se_require_handshake = True\<rparr>"
  let ?c1 = "with_handshake_phase demo_context ACTIVE"
  let ?pre = "[(demo_request ''notifications/initialized'', True)]"
  have "session_on_request demo_hmac ?e demo_context (demo_request ''notifications/initialized'')
      = Inr ?c1"
    using demo_verify by (simp add: session_on_request_ok demo_request_def handshake_gate_def)
  then have r1: "session_run demo_hmac ?e demo_context ([] @ ?pre) ?c1"
    by (intro session_run.step [OF session_run.start] session_step.accepted)
  have "session_id ?c1 = session_id demo_context" by (simp add: with_handshake_phase_def)
  then have "session_on_request demo_hmac ?e ?c1 (demo_request ''tools/call'') = Inr ?c1"
    using demo_verify
    by (simp add: session_on_request_ok demo_request_def handshake_gate_def with_handshake_phase_def)
  then have r2: "session_run demo_hmac ?e demo_context (([] @ ?pre) @ [(demo_request ''tools/call'', True)]) ?c1"
    by (intro session_run.step [OF r1] session_step.accepted)
  then have r3: "session_run demo_hmac ?e demo_context (?pre @ (demo_request ''tools/call'', True) # []) ?c1"
    by simp
  have "\<exists>r. (r, True) \<in> set ?pre \<and> rq_method r = ''notifications/initialized''"
    by (rule handshake_gate_holds [OF r3])
       (simp_all add: demo_context_def demo_request_def handshake_allowed_methods_def)
  with r3 show ?thesis by (intro exI [of _ ?c1] exI [of _ ?pre]) simp
qed

end
