(* ===== verification/Resources.thy ===== *)
theory Resources
  imports Engine
begin

text \<open>
  T10: the resource engine (\<open>mcp_armor/engines/resources.py\<close>): JSON depth by an explicit
  stack, the LRU budget ledger, the last-seen table with its reaper, and the hooks.  The
  clock readings of a hook are its arguments in the order the code reads them; the parts the
  code keeps under its lock are the two tables of \<open>resource_engine\<close>.
\<close>

section \<open>Nesting depth\<close>

fun children_of :: "json \<Rightarrow> json list option" where
  "children_of (JObj kvs) = Some (map snd kvs)"
| "children_of (JArr xs) = Some xs"
| "children_of _ = None"

lemma children_size:
  "children_of v = Some cs \<Longrightarrow> sum_list (map (\<lambda>c. size c + 1) cs) < size v + 1"
proof (cases v)
  case (JArr xs)
  assume "children_of v = Some cs"
  moreover have "sum_list (map (\<lambda>c. size c + 1) xs) = size_list size xs" for xs :: "json list"
    by (induction xs) auto
  ultimately show ?thesis using JArr by simp
next
  case (JObj kvs)
  assume cs: "children_of v = Some cs"
  have le: "sum_list (map (\<lambda>c. size c + 1) (map snd kvs)) \<le> size_list (size_prod (\<lambda>_. 0) size) kvs"
    for kvs :: "(string \<times> json) list"
    by (induction kvs) auto
  from cs JObj have "cs = map snd kvs" by simp
  with le [of kvs] JObj show ?thesis by (simp del: map_map)
qed auto

text \<open>
  The loop of \<open>_json_depth\<close>; the head of the list is the top of the stack, so \<open>extend\<close>
  pushes the children in reverse.
\<close>

function depth_loop :: "(json \<times> nat) list \<Rightarrow> nat \<Rightarrow> nat" where
  "depth_loop [] best = best"
| "depth_loop ((node, d) # st) best =
     (case children_of node of
        None \<Rightarrow> depth_loop st (max best d)
      | Some [] \<Rightarrow> depth_loop st (max best d)
      | Some (c # cs) \<Rightarrow> depth_loop (rev (map (\<lambda>ch. (ch, d + 1)) (c # cs)) @ st) best)"
  by pat_completeness auto
termination
proof (relation "measure (\<lambda>(st, best). sum_list (map (\<lambda>(n, d). size n + 1) st))", goal_cases)
  case (4 node d st best x2 c cs)
  have m: "sum_list (map ((\<lambda>(n, d). size n + 1) \<circ> (\<lambda>ch. (ch, d + 1))) xs)
      = sum_list (map (\<lambda>c. size c + 1) xs)" for xs :: "json list"
    by (simp add: comp_def)
  from 4 children_size have "sum_list (map (\<lambda>c. size c + 1) (c # cs)) < size node + 1" by blast
  then show ?case
    by (simp add: rev_map [symmetric] sum_list_rev m del: list.map) (simp add: comp_def)
qed auto

definition json_depth :: "json \<Rightarrow> nat" where
  "json_depth v = depth_loop [(v, 0)] 0"

text \<open>The reference: how deep containers nest, empty ones not counted.\<close>

function depth_spec :: "json \<Rightarrow> nat" where
  "depth_spec v = (case children_of v of None \<Rightarrow> 0 | Some [] \<Rightarrow> 0
     | Some (c # cs) \<Rightarrow> Suc (fold max (map depth_spec (c # cs)) 0))"
  by pat_completeness auto
termination
proof (relation "measure size")
  fix v x2 c cs z
  assume "children_of v = Some x2" "x2 = c # cs" "z \<in> set (c # cs)"
  moreover from this have "size z + 1 \<le> sum_list (map (\<lambda>c. size c + 1) (c # cs))"
    by (intro member_le_sum_list) (auto simp del: list.map)
  ultimately show "(z, v) \<in> measure size" using children_size [of v "c # cs"] by auto
qed simp

declare depth_spec.simps [simp del]

section \<open>The engine's state\<close>

record resource_engine =
  max_calls :: nat
  max_wall :: time
  max_depth :: nat
  heartbeat_interval :: time
  max_arg_depth :: nat
  last_seen :: "(string, time) dict"
  session_budgets :: "(string, budget_state) dict"   \<comment> \<open>least recently used first\<close>
  max_budget_entries :: nat

definition new_resource_engine :: "nat \<Rightarrow> time \<Rightarrow> nat \<Rightarrow> time \<Rightarrow> nat \<Rightarrow> resource_engine" where
  "new_resource_engine calls wall depth hb argd = \<lparr>max_calls = calls, max_wall = wall,
     max_depth = depth, heartbeat_interval = hb, max_arg_depth = argd, last_seen = [],
     session_budgets = [], max_budget_entries = 50000\<rparr>"

section \<open>The ledger\<close>

text \<open>\<open>move_to_end\<close> and the eviction loop of an \<open>OrderedDict\<close>.\<close>

definition move_to_end :: "'k \<Rightarrow> ('k, 'v) dict \<Rightarrow> ('k, 'v) dict" where
  "move_to_end k d = (case dget d k of None \<Rightarrow> d | Some v \<Rightarrow> AList.delete k d @ [(k, v)])"

fun evict_oldest :: "nat \<Rightarrow> ('k, 'v) dict \<Rightarrow> ('k, 'v) dict" where
  "evict_oldest cap [] = []"
| "evict_oldest cap (p # d) = (if length (p # d) > cap then evict_oldest cap d else p # d)"

definition ledger_put :: "nat \<Rightarrow> 'k \<Rightarrow> 'v \<Rightarrow> ('k, 'v) dict \<Rightarrow> ('k, 'v) dict" where
  "ledger_put cap k v d = evict_oldest cap (move_to_end k (AList.update k v d))"

definition restore_budget :: "ctx \<Rightarrow> resource_engine \<Rightarrow> ctx \<times> resource_engine" where
  "restore_budget c e = (case dget (session_budgets e) (session_id c) of
     None \<Rightarrow> (c, e)
   | Some b \<Rightarrow> (with_budget c b,
       e\<lparr>session_budgets := move_to_end (session_id c) (session_budgets e)\<rparr>))"

definition save_budget :: "string \<Rightarrow> budget_state \<Rightarrow> resource_engine \<Rightarrow> resource_engine" where
  "save_budget sid b e =
     e\<lparr>session_budgets := ledger_put (max_budget_entries e) sid b (session_budgets e)\<rparr>"

section \<open>Hooks\<close>

definition resource_on_session_start :: "time \<Rightarrow> ctx \<Rightarrow> resource_engine \<Rightarrow> ctx result \<times> resource_engine" where
  "resource_on_session_start now c e =
     (let e1 = e\<lparr>last_seen := AList.update (session_id c) now (last_seen e)\<rparr>;
          (c1, e2) = restore_budget c e1
      in (Inr c1, save_budget (session_id c1) (budget c1) e2))"

fun max_decoded_depth :: "nat \<Rightarrow> (string, json) dict \<Rightarrow> nat" where
  "max_decoded_depth d [] = d"
| "max_decoded_depth d ((k, v) # kvs) = max_decoded_depth (max d (1 + json_depth v)) kvs"

definition check_arg_depth :: "(string \<Rightarrow> loads_result) \<Rightarrow> nat \<Rightarrow> mcp_request \<Rightarrow> unit result" where
  "check_arg_depth loads limit req = (case dget (rq_params req) ''arguments'' of
     None \<Rightarrow> Inr ()
   | Some JNull \<Rightarrow> Inr ()
   | Some args \<Rightarrow> bindR (decoded_json_string_arguments loads args) (\<lambda>decoded.
       require (max_decoded_depth (json_depth args) decoded \<le> limit)
         (Cosai ResourceExceededError ''argument depth'')))"

definition check_budget :: "resource_engine \<Rightarrow> time \<Rightarrow> budget_state \<Rightarrow> unit result" where
  "check_budget e now b =
     (if calls_used b \<ge> max_calls e then Inl (Cosai ResourceExceededError ''call budget'')
      else if now - wall_clock_start b > max_wall e then Inl (Cosai ResourceExceededError ''wall clock'')
      else if loop_depth b > max_depth e then Inl (Cosai ResourceExceededError ''loop depth'')
      else Inr ())"

definition resource_on_request :: "(string \<Rightarrow> loads_result) \<Rightarrow> time \<Rightarrow> time
    \<Rightarrow> resource_engine request_hook_fn" where
  "resource_on_request loads seen now c req e =
     (let e1 = e\<lparr>last_seen := AList.update (session_id c) seen (last_seen e)\<rparr> in
      if rq_method req \<notin> set content_bearing_methods then (Inr c, e1)
      else
        let (c1, e2) = restore_budget c e1 in
        case bindR (check_budget e2 now (budget c1)) (\<lambda>_. check_arg_depth loads (max_arg_depth e2) req) of
          Inl x \<Rightarrow> (Inl x, e2)
        | Inr _ \<Rightarrow>
            let c2 = with_budget c1 (budget_increment (budget c1))
            in (Inr c2, save_budget (session_id c2) (budget c2) e2))"

definition resource_on_session_end :: "ctx \<Rightarrow> resource_engine \<Rightarrow> resource_engine" where
  "resource_on_session_end c e = e\<lparr>last_seen := AList.delete (session_id c) (last_seen e),
     session_budgets := AList.delete (session_id c) (session_budgets e)\<rparr>"

text \<open>\<open>_reap_zombie_sessions\<close>: the evicted ids (each passed to the callback) and the state.\<close>

definition reap_zombies :: "time \<Rightarrow> resource_engine \<Rightarrow> string list \<times> resource_engine" where
  "reap_zombies now e =
     (let zombies = map fst (filter (\<lambda>(sid, last). now - last > heartbeat_interval e) (last_seen e))
      in (zombies, e\<lparr>last_seen := fold AList.delete zombies (last_seen e)\<rparr>))"

section \<open>Depth\<close>

lemma fold_max_le: "fold max xs (a :: nat) \<le> n \<longleftrightarrow> a \<le> n \<and> (\<forall>x \<in> set xs. x \<le> n)"
  by (induction xs arbitrary: a) auto

lemma depth_spec_le:
  "children_of v = Some cs \<Longrightarrow> cs \<noteq> [] \<Longrightarrow> d + depth_spec v \<le> n
     \<longleftrightarrow> (\<forall>c \<in> set cs. d + 1 + depth_spec c \<le> n)"
proof -
  assume "children_of v = Some cs" "cs \<noteq> []"
  then obtain c cs' where cs: "cs = c # cs'" "children_of v = Some (c # cs')"
    by (cases cs) auto
  then have "depth_spec v = Suc (fold max (map depth_spec cs) 0)"
    by (subst depth_spec.simps) simp
  then have "d + depth_spec v \<le> n \<longleftrightarrow> fold max (map depth_spec cs) 0 + Suc d \<le> n"
    by (simp add: ac_simps)
  also have "\<dots> \<longleftrightarrow> Suc d \<le> n \<and> fold max (map depth_spec cs) 0 \<le> n - Suc d" by auto
  also have "\<dots> \<longleftrightarrow> (\<forall>c \<in> set cs. d + 1 + depth_spec c \<le> n)"
    unfolding fold_max_le using cs(1) by auto
  finally show ?thesis .
qed

lemma depth_loop_le:
  "depth_loop st best \<le> n \<longleftrightarrow> best \<le> n \<and> (\<forall>(v, d) \<in> set st. d + depth_spec v \<le> n)"
proof (induction st best rule: depth_loop.induct)
  case (2 node d st best)
  show ?case
  proof (cases "children_of node")
    case None
    then have "depth_spec node = 0" by (simp add: depth_spec.simps)
    with 2 None show ?thesis by auto
  next
    case (Some cs)
    show ?thesis
    proof (cases cs)
      case Nil
      with Some have "depth_spec node = 0" by (simp add: depth_spec.simps)
      with 2 Some Nil show ?thesis by auto
    next
      case (Cons c cs')
      have "depth_loop ((node, d) # st) best \<le> n \<longleftrightarrow> best \<le> n
          \<and> (\<forall>(v, d) \<in> set (rev (map (\<lambda>ch. (ch, d + 1)) (c # cs')) @ st). d + depth_spec v \<le> n)"
        using 2(3) [OF Some Cons] Some Cons by simp
      then show ?thesis using depth_spec_le [OF Some, of d n] Cons by (auto simp: ball_Un)
    qed
  qed
qed simp

lemma le_antisym_iff: "(\<And>n :: nat. a \<le> n \<longleftrightarrow> b \<le> n) \<Longrightarrow> a = b"
  by (meson eq_iff le_refl)

section \<open>The ledger\<close>

lemma evict_oldest_drop: "evict_oldest cap d = drop (length d - cap) d"
  by (induction d) (auto simp: Suc_diff_le not_less)

lemma delete_update_id: "AList.delete k (AList.update k v d) = AList.delete k d"
  by (induction d) auto

lemma dget_update [simp]: "dget (AList.update k v d) = (dget d)(k \<mapsto> v)"
  by (rule update_conv')

lemma ledger_put_alt: "ledger_put cap k v d = (let d' = AList.delete k d @ [(k, v)]
    in drop (length d' - cap) d')"
  by (simp add: ledger_put_def move_to_end_def evict_oldest_drop delete_update_id Let_def)

definition wf_ledger :: "nat \<Rightarrow> ('k, 'v) dict \<Rightarrow> bool" where
  "wf_ledger cap d = (wf_dict d \<and> length d \<le> cap)"

lemma card_dom_dget: "wf_dict d \<Longrightarrow> card (dom (dget d)) = length d"
  unfolding wf_dict_def dom_map_of_conv_image_fst
  by (metis distinct_card length_map set_map)

lemma wf_dict_move: "wf_dict d \<Longrightarrow> wf_dict (AList.delete k d @ [(k, v)])"
  by (auto simp: wf_dict_def delete_keys intro: distinct_removeAll)

lemma dget_move: "dget (AList.delete k d @ [(k, v)]) = (dget d)(k \<mapsto> v)"
  by (rule ext) (simp add: map_add_def delete_conv' split: option.splits)

lemma wf_dict_drop: "wf_dict d \<Longrightarrow> wf_dict (drop n d)"
  by (simp add: wf_dict_def drop_map [symmetric])

lemma dget_drop: "wf_dict d \<Longrightarrow> dget (drop n d) k \<in> {None, dget d k}"
proof -
  assume wf: "wf_dict d"
  have "dget d k = Some v" if "dget (drop n d) k = Some v" for v
    using that wf by (metis in_set_dropD map_of_SomeD map_of_is_SomeI wf_dict_def)
  then show ?thesis by (cases "dget (drop n d) k") auto
qed

locale lru_ledger =
  fixes get :: "'d \<Rightarrow> 'k \<Rightarrow> 'v option" and touch :: "'k \<Rightarrow> 'd \<Rightarrow> 'd"
    and put :: "'k \<Rightarrow> 'v \<Rightarrow> 'd \<Rightarrow> 'd" and del :: "'k \<Rightarrow> 'd \<Rightarrow> 'd"
    and inv :: "'d \<Rightarrow> bool" and cap :: nat
  assumes inv_touch: "inv d \<Longrightarrow> inv (touch k d)"
    and inv_put: "inv d \<Longrightarrow> inv (put k v d)"
    and inv_del: "inv d \<Longrightarrow> inv (del k d)"
    and bounded: "inv d \<Longrightarrow> finite (dom (get d)) \<and> card (dom (get d)) \<le> cap"
    and get_touch: "inv d \<Longrightarrow> get (touch k d) = get d"
    and get_del: "inv d \<Longrightarrow> get (del k d) = (get d)(k := None)"
    and get_put_same: "inv d \<Longrightarrow> 0 < cap \<Longrightarrow> get (put k v d) k = Some v"
    and get_put_other: "inv d \<Longrightarrow> k' \<noteq> k \<Longrightarrow> get (put k v d) k' \<in> {None, get d k'}"
    and get_put_room: "inv d \<Longrightarrow> card (insert k (dom (get d))) \<le> cap \<Longrightarrow>
      get (put k v d) = (get d)(k \<mapsto> v)"
begin

text \<open>As long as all keys come from a set that fits, nothing is ever evicted.\<close>

lemma put_within:
  assumes "inv d" and "finite S" and "card S \<le> cap" and "dom (get d) \<subseteq> S" and "k \<in> S"
  shows "get (put k v d) = (get d)(k \<mapsto> v)"
proof (rule get_put_room [OF assms(1)])
  have "card (insert k (dom (get d))) \<le> card S" using assms by (intro card_mono) auto
  with assms(3) show "card (insert k (dom (get d))) \<le> cap" by simp
qed

lemma put_dom: "inv d \<Longrightarrow> dom (get (put k v d)) \<subseteq> insert k (dom (get d))"
proof
  fix x assume i: "inv d" and "x \<in> dom (get (put k v d))"
  then show "x \<in> insert k (dom (get d))"
    using get_put_other [OF i, of x k v] by (cases "x = k") auto
qed

end

lemma ledger_put_laws:
  assumes "wf_ledger cap d"
  shows "wf_ledger cap (ledger_put cap k v d)"
    and "0 < cap \<Longrightarrow> dget (ledger_put cap k v d) k = Some v"
    and "k' \<noteq> k \<Longrightarrow> dget (ledger_put cap k v d) k' \<in> {None, dget d k'}"
    and "card (insert k (dom (dget d))) \<le> cap \<Longrightarrow> dget (ledger_put cap k v d) = (dget d)(k \<mapsto> v)"
proof -
  let ?d = "AList.delete k d @ [(k, v)]"
  from assms have wf: "wf_dict ?d" "length (AList.delete k d) \<le> cap"
    using wf_dict_move length_delete_le [of k d] by (auto simp: wf_ledger_def intro: order_trans)
  show "wf_ledger cap (ledger_put cap k v d)"
    using wf(1) by (simp add: wf_ledger_def ledger_put_alt Let_def wf_dict_drop del: drop_append)
  show "dget (ledger_put cap k v d) k = Some v" if "0 < cap"
  proof -
    have "length ?d - cap \<le> length (AList.delete k d)" using that by simp
    then have "(k, v) \<in> set (drop (length ?d - cap) ?d)" by simp
    then show ?thesis
      using wf_dict_drop [OF wf(1), of "length ?d - cap"]
      unfolding ledger_put_alt Let_def wf_dict_def by (rule map_of_is_SomeI [rotated])
  qed
  show "k' \<noteq> k \<Longrightarrow> dget (ledger_put cap k v d) k' \<in> {None, dget d k'}"
    using dget_drop [OF wf(1), of "length ?d - cap" k']
    by (simp add: ledger_put_alt Let_def dget_move del: drop_append map_of_append)
  assume "card (insert k (dom (dget d))) \<le> cap"
  moreover have "insert k (dom (dget d)) = dom (dget ?d)" by (simp only: dget_move dom_fun_upd) simp
  ultimately have "length ?d \<le> cap" using card_dom_dget [OF wf(1)] by simp
  then have "ledger_put cap k v d = ?d" by (simp add: ledger_put_alt Let_def del: drop_append)
  then show "dget (ledger_put cap k v d) = (dget d)(k \<mapsto> v)" by (simp only: dget_move)
qed

lemma wf_ledger_move: "wf_ledger cap d \<Longrightarrow> wf_ledger cap (move_to_end k d)"
proof -
  assume wf: "wf_ledger cap d"
  show ?thesis
  proof (cases "dget d k")
    case (Some v)
    then have "k \<in> fst ` set d" using dhas_conv_dget by force
    then have "length (AList.delete k d) < length d"
      by (auto simp: AList.delete_eq intro!: length_filter_less)
    with wf Some wf_dict_move [of d k v] show ?thesis
      by (simp add: wf_ledger_def move_to_end_def)
  qed (use wf in \<open>simp add: move_to_end_def\<close>)
qed

lemma dget_move_to_end: "dget (move_to_end k d) = dget d"
  by (cases "dget d k") (auto simp: move_to_end_def dget_move simp del: map_of_append)

lemma wf_ledger_delete: "wf_ledger cap d \<Longrightarrow> wf_ledger cap (AList.delete k d)"
  using length_delete_le [of k d] by (auto simp: wf_ledger_def)

interpretation ledger: lru_ledger dget move_to_end "ledger_put cap" AList.delete "wf_ledger cap" cap
  for cap
proof unfold_locales
  fix d :: "('a, 'b) dict" and k k' v
  assume wf: "wf_ledger cap d"
  show "wf_ledger cap (move_to_end k d)" using wf by (rule wf_ledger_move)
  show "wf_ledger cap (ledger_put cap k v d)" using wf by (rule ledger_put_laws)
  show "wf_ledger cap (AList.delete k d)" using wf by (rule wf_ledger_delete)
  show "finite (dom (dget d)) \<and> card (dom (dget d)) \<le> cap"
    using wf by (simp add: wf_ledger_def card_dom_dget finite_dom_map_of)
  show "dget (move_to_end k d) = dget d" by (rule dget_move_to_end)
  show "dget (AList.delete k d) = (dget d)(k := None)" by (rule delete_conv')
  show "0 < cap \<Longrightarrow> dget (ledger_put cap k v d) k = Some v"
    using ledger_put_laws(2) [OF wf] .
  show "k' \<noteq> k \<Longrightarrow> dget (ledger_put cap k v d) k' \<in> {None, dget d k'}"
    using ledger_put_laws(3) [OF wf] .
  show "card (insert k (dom (dget d))) \<le> cap \<Longrightarrow> dget (ledger_put cap k v d) = (dget d)(k \<mapsto> v)"
    using ledger_put_laws(4) [OF wf] .
qed

section \<open>Hooks and runs\<close>

text \<open>What can happen to the engine, in any order and for any number of sessions.\<close>

datatype resource_event =
    SessionStart ctx time
  | Request ctx mcp_request time time
  | SessionEnd ctx
  | Reap time

fun event_sid :: "resource_event \<Rightarrow> string option" where
  "event_sid (SessionStart c _) = Some (session_id c)"
| "event_sid (Request c _ _ _) = Some (session_id c)"
| "event_sid (SessionEnd c) = Some (session_id c)"
| "event_sid (Reap _) = None"

fun resource_step :: "(string \<Rightarrow> loads_result) \<Rightarrow> resource_engine \<Rightarrow> resource_event \<Rightarrow> resource_engine" where
  "resource_step loads e (SessionStart c now) = snd (resource_on_session_start now c e)"
| "resource_step loads e (Request c req seen now) = snd (resource_on_request loads seen now c req e)"
| "resource_step loads e (SessionEnd c) = resource_on_session_end c e"
| "resource_step loads e (Reap now) = snd (reap_zombies now e)"

text \<open>Whether the event is a content-bearing request of the session that was let through.\<close>

fun charges :: "(string \<Rightarrow> loads_result) \<Rightarrow> string \<Rightarrow> resource_engine \<Rightarrow> resource_event \<Rightarrow> bool" where
  "charges loads sid e (Request c req seen now) = (session_id c = sid
     \<and> rq_method req \<in> set content_bearing_methods
     \<and> is_ok (fst (resource_on_request loads seen now c req e)))"
| "charges loads sid e _ = False"

fun charged :: "(string \<Rightarrow> loads_result) \<Rightarrow> string \<Rightarrow> resource_engine \<Rightarrow> resource_event list \<Rightarrow> nat" where
  "charged loads sid e [] = 0"
| "charged loads sid e (ev # evs) = (if charges loads sid e ev then 1 else 0)
     + charged loads sid (resource_step loads e ev) evs"

fun resource_run :: "(string \<Rightarrow> loads_result) \<Rightarrow> resource_engine \<Rightarrow> resource_event list \<Rightarrow> resource_engine" where
  "resource_run loads e [] = e"
| "resource_run loads e (ev # evs) = resource_run loads (resource_step loads e ev) evs"

definition resource_inv :: "resource_engine \<Rightarrow> bool" where
  "resource_inv e = (wf_ledger (max_budget_entries e) (session_budgets e) \<and> wf_dict (last_seen e))"

definition used :: "string \<Rightarrow> resource_engine \<Rightarrow> nat" where
  "used sid e = (case dget (session_budgets e) sid of None \<Rightarrow> 0 | Some b \<Rightarrow> calls_used b)"

lemma restore_budget_eq:
  "restore_budget c e =
     (case dget (session_budgets e) (session_id c) of None \<Rightarrow> c | Some b \<Rightarrow> with_budget c b,
      e\<lparr>session_budgets := move_to_end (session_id c) (session_budgets e)\<rparr>)"
  by (auto simp: restore_budget_def move_to_end_def split: option.splits)

text \<open>The engine after a content-bearing request, and the budget it was judged by.\<close>

definition request_budget :: "ctx \<Rightarrow> resource_engine \<Rightarrow> budget_state" where
  "request_budget c e = (case dget (session_budgets e) (session_id c) of
     None \<Rightarrow> budget c | Some b \<Rightarrow> b)"

lemma fst_restore: "fst (restore_budget c e) = c\<lparr>budget := request_budget c e\<rparr>"
  by (auto simp: restore_budget_eq request_budget_def with_budget_def split: option.splits)

lemma resource_on_request_cases:
  obtains (other) "rq_method req \<notin> set content_bearing_methods"
      "resource_on_request loads seen now c req e
        = (Inr c, e\<lparr>last_seen := AList.update (session_id c) seen (last_seen e)\<rparr>)"
    | (refused) x where "rq_method req \<in> set content_bearing_methods"
      "resource_on_request loads seen now c req e
        = (Inl x, e\<lparr>last_seen := AList.update (session_id c) seen (last_seen e),
             session_budgets := move_to_end (session_id c) (session_budgets e)\<rparr>)"
      "bindR (check_budget e now (request_budget c e))
         (\<lambda>_. check_arg_depth loads (max_arg_depth e) req) = Inl x"
    | (granted) "rq_method req \<in> set content_bearing_methods"
      "check_budget e now (request_budget c e) = Inr ()"
      "check_arg_depth loads (max_arg_depth e) req = Inr ()"
      "resource_on_request loads seen now c req e
        = (Inr (c\<lparr>budget := budget_increment (request_budget c e)\<rparr>),
           e\<lparr>last_seen := AList.update (session_id c) seen (last_seen e),
             session_budgets := ledger_put (max_budget_entries e) (session_id c)
               (budget_increment (request_budget c e)) (move_to_end (session_id c) (session_budgets e))\<rparr>)"
proof (cases "rq_method req \<in> set content_bearing_methods")
  case False
  then show ?thesis by (intro other) (simp_all add: resource_on_request_def Let_def)
next
  case True
  let ?e1 = "e\<lparr>last_seen := AList.update (session_id c) seen (last_seen e)\<rparr>"
  have rb: "request_budget c ?e1 = request_budget c e" by (simp add: request_budget_def)
  have r: "restore_budget c ?e1 = (c\<lparr>budget := request_budget c e\<rparr>,
      ?e1\<lparr>session_budgets := move_to_end (session_id c) (session_budgets e)\<rparr>)"
    using fst_restore [of c ?e1] rb by (simp add: restore_budget_eq)
  have cb: "check_budget (?e1\<lparr>session_budgets := x\<rparr>) = check_budget e" for x
    by (simp add: check_budget_def fun_eq_iff)
  show ?thesis
  proof (cases "bindR (check_budget e now (request_budget c e))
      (\<lambda>_. check_arg_depth loads (max_arg_depth e) req)")
    case (Inl x)
    with True r show ?thesis
      by (intro refused [of x]) (simp_all add: resource_on_request_def cb)
  next
    case (Inr u)
    then have "check_budget e now (request_budget c e) = Inr ()"
      "check_arg_depth loads (max_arg_depth e) req = Inr ()" by (auto simp: bindR_eq_Inr)
    with True r Inr show ?thesis
      by (intro granted) (simp_all add: resource_on_request_def cb save_budget_def with_budget_def)
  qed
qed

interpretation resource_rq: request_hook "resource_on_request loads seen now" for loads seen now
proof unfold_locales
  fix c req s c' s'
  assume "resource_on_request loads seen now c req s = (Inr c', s')"
  then show "same_session c c'"
    by (cases rule: resource_on_request_cases [of req loads seen now c s])
       (auto simp: same_session_def)
qed

lemma reap_ledger: "session_budgets (snd (reap_zombies now e)) = session_budgets e"
  by (simp add: reap_zombies_def Let_def)

lemma wf_dict_fold_delete: "wf_dict d \<Longrightarrow> wf_dict (fold AList.delete ks d)"
  by (induction ks arbitrary: d) auto

lemma session_start_engine:
  "snd (resource_on_session_start now c e) =
     e\<lparr>last_seen := AList.update (session_id c) now (last_seen e),
       session_budgets := ledger_put (max_budget_entries e) (session_id c) (request_budget c e)
         (move_to_end (session_id c) (session_budgets e))\<rparr>"
  "fst (resource_on_session_start now c e) = Inr (c\<lparr>budget := request_budget c e\<rparr>)"
proof -
  let ?e1 = "e\<lparr>last_seen := AList.update (session_id c) now (last_seen e)\<rparr>"
  have "restore_budget c ?e1 = (c\<lparr>budget := request_budget c e\<rparr>,
      ?e1\<lparr>session_budgets := move_to_end (session_id c) (session_budgets e)\<rparr>)"
    using fst_restore [of c ?e1] by (simp add: restore_budget_eq request_budget_def)
  then show "snd (resource_on_session_start now c e) =
     e\<lparr>last_seen := AList.update (session_id c) now (last_seen e),
       session_budgets := ledger_put (max_budget_entries e) (session_id c) (request_budget c e)
         (move_to_end (session_id c) (session_budgets e))\<rparr>"
    "fst (resource_on_session_start now c e) = Inr (c\<lparr>budget := request_budget c e\<rparr>)"
    by (simp_all add: resource_on_session_start_def save_budget_def)
qed

lemma resource_request_limits:
  "max_calls (snd (resource_on_request loads seen now c req e)) = max_calls e"
  "max_budget_entries (snd (resource_on_request loads seen now c req e)) = max_budget_entries e"
  by (cases rule: resource_on_request_cases [of req loads seen now c e]; simp)+

lemma resource_step_limits [simp]:
  "max_calls (resource_step loads e ev) = max_calls e"
  "max_budget_entries (resource_step loads e ev) = max_budget_entries e"
  by (cases ev; simp add: session_start_engine resource_request_limits
      resource_on_session_end_def reap_zombies_def Let_def)+

lemma wf_ledger_touch_put:
  "wf_ledger cap d \<Longrightarrow> wf_ledger cap (ledger_put cap k v (move_to_end k d))"
  by (intro ledger.inv_put ledger.inv_touch)

text \<open>Every operation keeps the two tables well formed and the ledger within its bound.\<close>

lemma resource_step_inv [inv_rules]: "resource_inv e \<Longrightarrow> resource_inv (resource_step loads e ev)"
proof -
  assume inv: "resource_inv e"
  then have wf: "wf_ledger (max_budget_entries e) (session_budgets e)" "wf_dict (last_seen e)"
    by (simp_all add: resource_inv_def)
  show ?thesis
  proof (cases ev)
    case (SessionStart c now)
    with wf show ?thesis by (simp add: session_start_engine resource_inv_def wf_ledger_touch_put)
  next
    case (Request c req seen now)
    with wf show ?thesis
      by (cases rule: resource_on_request_cases [of req loads seen now c e])
         (simp_all add: resource_inv_def wf_ledger_touch_put wf_ledger_move)
  next
    case (SessionEnd c)
    with wf show ?thesis
      by (simp add: resource_inv_def resource_on_session_end_def wf_ledger_delete)
  next
    case (Reap now)
    with wf show ?thesis
      by (simp add: resource_inv_def reap_zombies_def Let_def wf_dict_fold_delete)
  qed
qed

text \<open>
  What one event does to the budgets when the session ids in play fit the ledger: only the
  event's own session changes, and its recorded count never goes down.
\<close>

locale fitting_sessions =
  fixes S :: "string set" and e :: resource_engine
  assumes inv: "resource_inv e" and finite: "finite S"
    and fits: "card S \<le> max_budget_entries e" and known: "dom (dget (session_budgets e)) \<subseteq> S"
begin

lemma touch_put: "k \<in> S \<Longrightarrow> dget (ledger_put (max_budget_entries e) k b
    (move_to_end k (session_budgets e))) = (dget (session_budgets e))(k \<mapsto> b)"
proof -
  assume "k \<in> S"
  have wf: "wf_ledger (max_budget_entries e) (session_budgets e)"
    using inv by (simp add: resource_inv_def)
  have "dom (dget (move_to_end k (session_budgets e))) \<subseteq> S"
    using known by (simp add: dget_move_to_end)
  from ledger.put_within [OF ledger.inv_touch [OF wf] finite fits this \<open>k \<in> S\<close>]
  show ?thesis by (simp add: dget_move_to_end)
qed

lemma step_budgets:
  assumes "\<forall>k. event_sid ev = Some k \<longrightarrow> k \<in> S"
  shows "\<forall>sid. event_sid ev \<noteq> Some sid \<longrightarrow>
      dget (session_budgets (resource_step loads e ev)) sid = dget (session_budgets e) sid"
    and "dom (dget (session_budgets (resource_step loads e ev))) \<subseteq> S"
proof -
  have both: "(\<forall>sid. event_sid ev \<noteq> Some sid \<longrightarrow>
      dget (session_budgets (resource_step loads e ev)) sid = dget (session_budgets e) sid)
    \<and> dom (dget (session_budgets (resource_step loads e ev))) \<subseteq> S"
  proof (cases ev)
    case (SessionStart c now)
    then show ?thesis using assms known by (auto simp: session_start_engine touch_put)
  next
    case (Request c req seen now)
    then show ?thesis using assms known
      by (cases rule: resource_on_request_cases [of req loads seen now c e])
         (auto simp: touch_put dget_move_to_end)
  next
    case (SessionEnd c)
    then show ?thesis using known
      by (auto simp: resource_on_session_end_def delete_conv' split: if_splits)
  next
    case (Reap now)
    then show ?thesis using known by (simp add: reap_ledger)
  qed
  then show "\<forall>sid. event_sid ev \<noteq> Some sid \<longrightarrow>
      dget (session_budgets (resource_step loads e ev)) sid = dget (session_budgets e) sid"
    and "dom (dget (session_budgets (resource_step loads e ev))) \<subseteq> S" by blast+
qed

lemma step_used:
  assumes "sid \<in> S" and "\<And>c. ev \<noteq> SessionEnd c \<or> session_id c \<noteq> sid"
    and "\<forall>k. event_sid ev = Some k \<longrightarrow> k \<in> S"
  shows "used sid e + (if charges loads sid e ev then 1 else 0) \<le> used sid (resource_step loads e ev)"
    and "charges loads sid e ev \<Longrightarrow> used sid (resource_step loads e ev) \<le> max_calls e"
proof -
  have "(used sid e + (if charges loads sid e ev then 1 else 0) \<le> used sid (resource_step loads e ev))
    \<and> (charges loads sid e ev \<longrightarrow> used sid (resource_step loads e ev) \<le> max_calls e)"
  proof (cases "event_sid ev = Some sid")
    case False
    then have "\<not> charges loads sid e ev" by (cases ev) auto
    with False step_budgets(1) [OF assms(3)] show ?thesis by (simp add: used_def)
  next
    case True
    show ?thesis
    proof (cases ev)
      case (SessionStart c now)
      with True assms(1) show ?thesis
        by (simp add: session_start_engine used_def touch_put request_budget_def
            split: option.splits)
    next
      case (Request c req seen now)
      with True assms(1) show ?thesis
        by (cases rule: resource_on_request_cases [of req loads seen now c e])
           (auto simp: used_def touch_put dget_move_to_end request_budget_def check_budget_def
             budget_increment_def split: option.splits if_splits)
    next
      case (SessionEnd c)
      with True assms(2) [of c] show ?thesis by simp
    qed (use True in simp)
  qed
  then show "used sid e + (if charges loads sid e ev then 1 else 0) \<le> used sid (resource_step loads e ev)"
    and "charges loads sid e ev \<Longrightarrow> used sid (resource_step loads e ev) \<le> max_calls e" by blast+
qed

end

interpretation fresh_sessions: fitting_sessions "{}" "new_resource_engine a b c d f" for a b c d f
  by unfold_locales
     (simp_all add: resource_inv_def new_resource_engine_def wf_ledger_def)

text \<open>The events of a run that keep to the sessions of \<open>S\<close> and never end session \<open>sid\<close>.\<close>

definition keeps_open :: "string set \<Rightarrow> string \<Rightarrow> resource_event list \<Rightarrow> bool" where
  "keeps_open S sid evs = list_all (\<lambda>ev. (case event_sid ev of None \<Rightarrow> True | Some k \<Rightarrow> k \<in> S)
     \<and> (case ev of SessionEnd c \<Rightarrow> session_id c \<noteq> sid | _ \<Rightarrow> True)) evs"

lemma charged_bound:
  assumes "fitting_sessions S e" and "sid \<in> S" and "keeps_open S sid evs"
  shows "charged loads sid e evs + used sid e \<le> max (max_calls e) (used sid e)"
  using assms(1,3)
proof (induction evs arbitrary: e)
  case (Cons ev evs)
  let ?e = "resource_step loads e ev"
  have ev: "\<forall>k. event_sid ev = Some k \<longrightarrow> k \<in> S" "\<And>c. ev \<noteq> SessionEnd c \<or> session_id c \<noteq> sid"
    using Cons.prems(2) by (auto simp: keeps_open_def split: option.splits)
  note fs = Cons.prems(1)
  have "fitting_sessions S ?e"
    using fs fitting_sessions.step_budgets(2) [OF fs ev(1), of loads]
    by (simp add: fitting_sessions_def resource_step_inv)
  with Cons.IH Cons.prems(2) have IH: "charged loads sid ?e evs + used sid ?e
      \<le> max (max_calls e) (used sid ?e)"
    by (fastforce simp: keeps_open_def)
  from fitting_sessions.step_used(1) [OF fs assms(2) ev(2,1), of loads]
    fitting_sessions.step_used(2) [OF fs assms(2) ev(2,1), of loads] IH
  show ?case by (auto simp: max_def split: if_splits)
qed simp

section \<open>Properties\<close>

text \<open>
  C31: The iterative \<open>_json_depth\<close> returns exactly the nesting depth of the value: the explicit
  stack visits every node and stops on every input.
\<close>

theorem json_depth_correct: "json_depth v = depth_spec v"
  by (rule le_antisym_iff)
     (simp add: json_depth_def depth_loop_le del: depth_loop.simps)

text \<open>
  C8: The call budget holds across everything that can happen to the engine.  If the session
  ids in play fit the ledger, then over any run that does not end the session (requests of
  any kind, re-opened sessions with zeroed contexts, idle reaping, other sessions coming and
  going) at most \<open>max_calls\<close> content-bearing requests of one session are let through.
\<close>

theorem call_budget_bound:
  assumes "finite S" and "card S \<le> 50000" and "sid \<in> S" and "keeps_open S sid evs"
  shows "charged loads sid (new_resource_engine calls wall depth hb argd) evs \<le> calls"
proof -
  let ?e = "new_resource_engine calls wall depth hb argd"
  have "fitting_sessions S ?e"
    using assms(1,2) fresh_sessions.inv [of calls wall depth hb argd]
    by (simp add: fitting_sessions_def) (simp add: new_resource_engine_def)
  from charged_bound [OF this assms(3,4), of loads]
  show ?thesis by (simp add: used_def new_resource_engine_def)
qed

theorem call_budget_bound_witness:
  "charged (\<lambda>_. NotJson) ''s'' (new_resource_engine 1 300 10 30 15)
     (replicate 3 (Request (new_context 0 ''s'' ''http'')
        \<lparr>rq_method = ''tools/call'', rq_params = [], rq_session_id = ''s'', rq_headers = [],
         rq_query = [], rq_transport = ''http'', rq_header_pairs = []\<rparr> 1 1)) \<le> 1"
  by (rule call_budget_bound [where S = "{''s''}"])
     (simp_all add: keeps_open_def new_context_def numeral_3_eq_3)

text \<open>
  A content-bearing request is let through exactly when the session's recorded budget
  (the ledger entry if there is one, whatever budget the adapter's context carries) is within
  the call, wall-clock and loop limits and the arguments, JSON strings decoded, nest no deeper
  than the limit; the returned context then carries that budget plus one call.
\<close>

theorem resource_request_granted_iff:
  assumes "rq_method req \<in> set content_bearing_methods"
  shows "fst (resource_on_request loads seen now c req e) = Inr c' \<longleftrightarrow>
     calls_used (request_budget c e) < max_calls e
     \<and> now - wall_clock_start (request_budget c e) \<le> max_wall e
     \<and> loop_depth (request_budget c e) \<le> max_depth e
     \<and> check_arg_depth loads (max_arg_depth e) req = Inr ()
     \<and> c' = c\<lparr>budget := budget_increment (request_budget c e)\<rparr>"
  using assms
  by (cases rule: resource_on_request_cases [of req loads seen now c e])
     (auto simp: check_budget_def bindR_eq_Inl split: if_splits)

theorem resource_request_granted_iff_witness:
  "let c = new_context 0 ''s'' ''http'';
       req = \<lparr>rq_method = ''prompts/get'', rq_params = [(''arguments'', JArr [JArr [JInt 1]])],
         rq_session_id = ''s'', rq_headers = [], rq_query = [], rq_transport = ''http'',
         rq_header_pairs = []\<rparr>
   in fst (resource_on_request (\<lambda>_. NotJson) 1 1 c req (new_resource_engine 1 300 10 30 15))
        = Inr (c\<lparr>budget := budget_increment (budget c)\<rparr>)"
  unfolding Let_def
  by (subst resource_request_granted_iff)
     (simp_all add: content_bearing_methods_def request_budget_def new_resource_engine_def
       new_context_def check_arg_depth_def decoded_json_string_arguments_def json_depth_def)

end
