(* ===== verification/ConfirmStore.thy ===== *)
theory ConfirmStore
  imports Engine
begin

text \<open>
  The confirmation-token store of the destructive two-stage gate (\<open>_TokenStore\<close> in
  \<open>mcp_armor/engines/authz.py\<close>): issue with lazy eviction and the three quotas, consume with
  expiry and single use.  The clock readings and the random token are arguments.  The locale
  \<open>confirmation_store\<close> is what the authorization engine relies on; its client lemma counts
  the confirmations one token can give over any run.
\<close>

section \<open>The store\<close>

record pending_token =
  pt_token :: string
  pt_expiry :: time
  pt_owner :: string
  pt_principal :: string

record token_store =
  ts_ttl :: time
  ts_max_entries :: nat
  ts_max_per_owner :: nat
  ts_max_per_principal :: nat
  ts_entries :: "(string, pending_token) dict"
  ts_dummy :: string

definition new_token_store :: "time \<Rightarrow> string \<Rightarrow> token_store" where
  "new_token_store ttl dummy = \<lparr>ts_ttl = ttl, ts_max_entries = 10000, ts_max_per_owner = 64,
     ts_max_per_principal = 256, ts_entries = [], ts_dummy = dummy\<rparr>"

definition make_key :: "string \<Rightarrow> string \<Rightarrow> string" where
  "make_key sid tool_name = sid @ ''::'' @ tool_name"

definition owned_by :: "string \<Rightarrow> (string, pending_token) dict \<Rightarrow> nat" where
  "owned_by owner d = length (filter (\<lambda>e. pt_owner (snd e) = owner) d)"

definition held_by :: "string \<Rightarrow> (string, pending_token) dict \<Rightarrow> nat" where
  "held_by prin d = length (filter (\<lambda>e. pt_principal (snd e) = prin) d)"

definition evict_expired :: "time \<Rightarrow> (string, pending_token) dict \<Rightarrow> (string, pending_token) dict" where
  "evict_expired now d = filter (\<lambda>e. \<not> pt_expiry (snd e) \<le> now) d"

text \<open>\<open>now1\<close> sets the expiry, \<open>now2\<close> drives the eviction; \<open>token\<close> is the fresh random token.\<close>

definition issue_token :: "time \<Rightarrow> time \<Rightarrow> string \<Rightarrow> string \<Rightarrow> string \<Rightarrow> string \<Rightarrow> string
    \<Rightarrow> token_store \<Rightarrow> string result \<times> token_store" where
  "issue_token now1 now2 token sid tool_name owner prin st =
     (let expiry = now1 + ts_ttl st;
          key = make_key sid tool_name;
          live = evict_expired now2 (ts_entries st);
          owner' = (if owner = [] then sid else owner);
          st1 = st\<lparr>ts_entries := live\<rparr>
      in if \<not> dhas live key \<and> (owned_by owner' live \<ge> ts_max_per_owner st
             \<or> held_by prin live \<ge> ts_max_per_principal st)
         then (Inl (Cosai AuthorizationError ''too many pending for this caller''), st1)
         else if \<not> dhas live key \<and> length live \<ge> ts_max_entries st
         then (Inl (Cosai AuthorizationError ''too many pending''), st1)
         else (Inr token, st\<lparr>ts_entries := AList.update key
                 \<lparr>pt_token = token, pt_expiry = expiry, pt_owner = owner', pt_principal = prin\<rparr>
                 live\<rparr>))"

definition consume_token :: "time \<Rightarrow> string \<Rightarrow> string \<Rightarrow> string \<Rightarrow> token_store
    \<Rightarrow> bool result \<times> token_store" where
  "consume_token now sid tool_name presented st =
     (let key = make_key sid tool_name in
      case dget (ts_entries st) key of
        None \<Rightarrow> (bindR (compare_digest_str presented (ts_dummy st)) (\<lambda>_. Inr False), st)
      | Some e \<Rightarrow>
          let st1 = st\<lparr>ts_entries := AList.delete key (ts_entries st)\<rparr> in
          if now > pt_expiry e
          then (bindR (compare_digest_str presented (ts_dummy st)) (\<lambda>_. Inr False), st1)
          else case compare_digest_str (pt_token e) presented of
                 Inl x \<Rightarrow> (Inl x, st)
               | Inr valid \<Rightarrow> (Inr valid, if valid then st1 else st))"

definition pending :: "token_store \<Rightarrow> string \<Rightarrow> string option" where
  "pending st key = map_option pt_token (dget (ts_entries st) key)"

section \<open>The interface\<close>

datatype confirm_event =
    Issue time time string string string string string
  | Consume time string string string

text \<open>A run of the store; the result says which consume events succeeded.\<close>

fun confirm_run :: "(time \<Rightarrow> time \<Rightarrow> string \<Rightarrow> string \<Rightarrow> string \<Rightarrow> string \<Rightarrow> string \<Rightarrow> 's \<Rightarrow> string result \<times> 's)
    \<Rightarrow> (time \<Rightarrow> string \<Rightarrow> string \<Rightarrow> string \<Rightarrow> 's \<Rightarrow> bool result \<times> 's)
    \<Rightarrow> confirm_event list \<Rightarrow> 's \<Rightarrow> bool list \<times> 's" where
  "confirm_run iss con [] s = ([], s)"
| "confirm_run iss con (Issue a b tok sid tool own pr # evs) s =
     (let (oks, s') = confirm_run iss con evs (snd (iss a b tok sid tool own pr s))
      in (False # oks, s'))"
| "confirm_run iss con (Consume t sid tool tok # evs) s =
     (let r = con t sid tool tok s; (oks, s') = confirm_run iss con evs (snd r)
      in ((fst r = Inr True) # oks, s'))"

text \<open>How often \<open>tok\<close> was issued, and how often it was accepted.\<close>

definition issued :: "string \<Rightarrow> confirm_event list \<Rightarrow> nat" where
  "issued tok evs = length (filter (\<lambda>ev. case ev of Issue _ _ t _ _ _ _ \<Rightarrow> t = tok | _ \<Rightarrow> False) evs)"

fun accepted :: "string \<Rightarrow> confirm_event list \<Rightarrow> bool list \<Rightarrow> nat" where
  "accepted tok (ev # evs) (ok # oks) =
     (case ev of Consume _ _ _ t \<Rightarrow> if t = tok \<and> ok then 1 else 0 | _ \<Rightarrow> 0) + accepted tok evs oks"
| "accepted tok _ _ = 0"

locale confirmation_store =
  fixes iss :: "time \<Rightarrow> time \<Rightarrow> string \<Rightarrow> string \<Rightarrow> string \<Rightarrow> string \<Rightarrow> string \<Rightarrow> 's \<Rightarrow> string result \<times> 's"
    and con :: "time \<Rightarrow> string \<Rightarrow> string \<Rightarrow> string \<Rightarrow> 's \<Rightarrow> bool result \<times> 's"
    and pend :: "'s \<Rightarrow> string \<Rightarrow> string option"
    and inv :: "'s \<Rightarrow> bool"
  assumes inv_iss: "inv s \<Longrightarrow> inv (snd (iss a b tok sid tool own pr s))"
    and inv_con: "inv s \<Longrightarrow> inv (snd (con t sid tool tok s))"
    and finite_pend: "inv s \<Longrightarrow> finite {k. pend s k = Some tok}"
    and iss_pend: "inv s \<Longrightarrow> pend (snd (iss a b tok sid tool own pr s)) k
        \<in> {None, pend s k} \<union> (if k = make_key sid tool then {Some tok} else {})"
    and con_pend: "inv s \<Longrightarrow> pend (snd (con t sid tool tok s)) k \<in> {None, pend s k}"
    and con_ok: "inv s \<Longrightarrow> fst (con t sid tool tok s) = Inr True \<Longrightarrow>
        pend s (make_key sid tool) = Some tok
        \<and> pend (snd (con t sid tool tok s)) (make_key sid tool) = None"
begin

definition holders :: "string \<Rightarrow> 's \<Rightarrow> string set" where
  "holders tok s = {k. pend s k = Some tok}"

lemma holders_iss:
  assumes "inv s"
  shows "card (holders tok (snd (iss a b t sid tool own pr s)))
    \<le> card (holders tok s) + (if t = tok then 1 else 0)"
proof -
  have "holders tok (snd (iss a b t sid tool own pr s))
      \<subseteq> (if t = tok then insert (make_key sid tool) (holders tok s) else holders tok s)"
  proof
    fix k assume "k \<in> holders tok (snd (iss a b t sid tool own pr s))"
    then show "k \<in> (if t = tok then insert (make_key sid tool) (holders tok s) else holders tok s)"
      using iss_pend [OF assms, of a b t sid tool own pr k]
      by (auto simp: holders_def split: if_splits)
  qed
  moreover have "finite (holders tok s)" using finite_pend [OF assms] by (simp add: holders_def)
  ultimately have "card (holders tok (snd (iss a b t sid tool own pr s)))
      \<le> card (if t = tok then insert (make_key sid tool) (holders tok s) else holders tok s)"
    by (intro card_mono) auto
  also have "\<dots> \<le> card (holders tok s) + (if t = tok then 1 else 0)"
    using card_insert_le_m1 by (auto simp: card_insert_if \<open>finite (holders tok s)\<close>)
  finally show ?thesis .
qed

lemma holders_con:
  assumes "inv s"
  shows "card (holders tok (snd (con t sid tool tk s)))
    + (if tk = tok \<and> fst (con t sid tool tk s) = Inr True then 1 else 0) \<le> card (holders tok s)"
proof -
  have fin: "finite (holders tok s)" using finite_pend [OF assms] by (simp add: holders_def)
  have sub: "holders tok (snd (con t sid tool tk s)) \<subseteq> holders tok s"
  proof
    fix k assume "k \<in> holders tok (snd (con t sid tool tk s))"
    then show "k \<in> holders tok s"
      using con_pend [OF assms, of t sid tool tk k] by (auto simp: holders_def)
  qed
  show ?thesis
  proof (cases "tk = tok \<and> fst (con t sid tool tk s) = Inr True")
    case True
    with con_ok [OF assms, of t sid tool tk]
    have "make_key sid tool \<in> holders tok s"
      "make_key sid tool \<notin> holders tok (snd (con t sid tool tk s))"
      by (auto simp: holders_def)
    with sub have "holders tok (snd (con t sid tool tk s)) \<subset> holders tok s" by blast
    from psubset_card_mono [OF fin this] True show ?thesis by simp
  qed (use sub fin in \<open>auto intro: card_mono\<close>)
qed

lemma accepted_le_issued:
  "inv s \<Longrightarrow> confirm_run iss con evs s = (oks, s') \<Longrightarrow>
     accepted tok evs oks \<le> card (holders tok s) + issued tok evs"
proof (induction evs arbitrary: s oks)
  case (Cons ev evs)
  show ?case
  proof (cases ev)
    case (Issue a b t sid tool own pr)
    obtain oks' where r: "confirm_run iss con evs (snd (iss a b t sid tool own pr s)) = (oks', s')"
      "oks = False # oks'" using Cons.prems(2) Issue by (auto split: prod.splits)
    from Cons.IH [OF inv_iss [OF Cons.prems(1)] r(1)] r(2) Issue
      holders_iss [OF Cons.prems(1), of tok a b t sid tool own pr]
    show ?thesis by (auto simp: issued_def split: if_splits)
  next
    case (Consume t sid tool tk)
    obtain oks' where r: "confirm_run iss con evs (snd (con t sid tool tk s)) = (oks', s')"
      "oks = (fst (con t sid tool tk s) = Inr True) # oks'"
      using Cons.prems(2) Consume by (auto simp: Let_def split: prod.splits)
    from Cons.IH [OF inv_con [OF Cons.prems(1)] r(1)] holders_con [OF Cons.prems(1), of tok t sid tool tk]
      r(2) Consume
    show ?thesis by (auto simp: issued_def split: if_splits)
  qed
qed simp

end

section \<open>The store provides it\<close>

definition store_wf :: "token_store \<Rightarrow> bool" where
  "store_wf st = wf_dict (ts_entries st)"

lemma wf_evict: "wf_dict d \<Longrightarrow> wf_dict (evict_expired now d)"
  by (simp add: evict_expired_def)

lemma dget_evict: "wf_dict d \<Longrightarrow> dget (evict_expired now d) k \<in> {None, dget d k}"
  by (auto simp: evict_expired_def dget_filter split: option.splits)

lemma issue_token_cases:
  obtains (refused) x where "issue_token a b tok sid tool own pr st
      = (Inl x, st\<lparr>ts_entries := evict_expired b (ts_entries st)\<rparr>)"
    | (granted) "issue_token a b tok sid tool own pr st
      = (Inr tok, st\<lparr>ts_entries := AList.update (make_key sid tool)
          \<lparr>pt_token = tok, pt_expiry = a + ts_ttl st,
           pt_owner = (if own = [] then sid else own), pt_principal = pr\<rparr>
          (evict_expired b (ts_entries st))\<rparr>)"
      "dhas (evict_expired b (ts_entries st)) (make_key sid tool)
       \<or> (owned_by (if own = [] then sid else own) (evict_expired b (ts_entries st)) < ts_max_per_owner st
          \<and> held_by pr (evict_expired b (ts_entries st)) < ts_max_per_principal st
          \<and> length (evict_expired b (ts_entries st)) < ts_max_entries st)"
proof -
  let ?live = "evict_expired b (ts_entries st)"
  let ?own = "if own = [] then sid else own"
  let ?key = "make_key sid tool"
  consider (quota) "\<not> dhas ?live ?key \<and> (owned_by ?own ?live \<ge> ts_max_per_owner st
      \<or> held_by pr ?live \<ge> ts_max_per_principal st)"
    | (full) "\<not> (\<not> dhas ?live ?key \<and> (owned_by ?own ?live \<ge> ts_max_per_owner st
      \<or> held_by pr ?live \<ge> ts_max_per_principal st))"
      "\<not> dhas ?live ?key \<and> length ?live \<ge> ts_max_entries st"
    | (ok) "dhas ?live ?key \<or> (owned_by ?own ?live < ts_max_per_owner st
          \<and> held_by pr ?live < ts_max_per_principal st \<and> length ?live < ts_max_entries st)"
    by linarith
  then show ?thesis
  proof cases
    case quota
    then show ?thesis
      by (intro refused [of "Cosai AuthorizationError ''too many pending for this caller''"])
         (simp only: issue_token_def Let_def if_True simp_thms)
  next
    case full
    then show ?thesis
      by (intro refused [of "Cosai AuthorizationError ''too many pending''"])
         (simp only: issue_token_def Let_def if_True if_False simp_thms)
  next
    case ok
    then have "\<not> (\<not> dhas ?live ?key \<and> (owned_by ?own ?live \<ge> ts_max_per_owner st
        \<or> held_by pr ?live \<ge> ts_max_per_principal st))"
      "\<not> (\<not> dhas ?live ?key \<and> length ?live \<ge> ts_max_entries st)" by linarith+
    with ok show ?thesis
      by (intro granted) (simp_all only: issue_token_def Let_def if_False simp_thms)
  qed
qed

lemma consume_token_cases:
  obtains (failed) r where "consume_token now sid tool tok st = (r, st)" "r \<noteq> Inr True"
    | (expired) r e where
      "consume_token now sid tool tok st
        = (r, st\<lparr>ts_entries := AList.delete (make_key sid tool) (ts_entries st)\<rparr>)" "r \<noteq> Inr True"
      "dget (ts_entries st) (make_key sid tool) = Some e" "now > pt_expiry e"
    | (consumed) e where
      "consume_token now sid tool tok st
        = (Inr True, st\<lparr>ts_entries := AList.delete (make_key sid tool) (ts_entries st)\<rparr>)"
      "dget (ts_entries st) (make_key sid tool) = Some e" "pt_token e = tok" "now \<le> pt_expiry e"
proof (cases "dget (ts_entries st) (make_key sid tool)")
  case None
  then show ?thesis
    by (intro failed) (auto simp: consume_token_def compare_digest_str_def split: if_splits)
next
  case (Some e)
  show ?thesis
  proof (cases "now > pt_expiry e")
    case True
    with Some show ?thesis
      by (intro expired [of "bindR (compare_digest_str tok (ts_dummy st)) (\<lambda>_. Inr False)" e])
         (auto simp: consume_token_def Let_def compare_digest_str_def split: if_splits)
  next
    case False
    show ?thesis
    proof (cases "compare_digest_str (pt_token e) tok = Inr True")
      case True
      then have "pt_token e = tok" by (simp add: compare_digest_str_def split: if_splits)
      with True False Some show ?thesis
        by (intro consumed [of e]) (auto simp: consume_token_def)
    next
      case nt: False
      then show ?thesis using False Some
        by (intro failed [of "compare_digest_str (pt_token e) tok"])
           (auto simp: consume_token_def split: sum.splits)
    qed
  qed
qed

lemma pending_update:
  "pending (st\<lparr>ts_entries := AList.update k e d\<rparr>) k' =
     (if k' = k then Some (pt_token e) else pending (st\<lparr>ts_entries := d\<rparr>) k')"
  by (simp add: pending_def update_conv')

lemma pending_delete:
  "pending (st\<lparr>ts_entries := AList.delete k d\<rparr>) k' =
     (if k' = k then None else pending (st\<lparr>ts_entries := d\<rparr>) k')"
  by (simp add: pending_def delete_conv')

lemma pending_evict: "store_wf st \<Longrightarrow>
    pending (st\<lparr>ts_entries := evict_expired b (ts_entries st)\<rparr>) k \<in> {None, pending st k}"
  using dget_evict [of "ts_entries st" b k] by (auto simp: pending_def store_wf_def)

interpretation confirm: confirmation_store issue_token consume_token pending store_wf
proof unfold_locales
  fix s :: token_store and a b t :: time and tok sid tool own pr k :: string
  assume wf: "store_wf s"
  show "store_wf (snd (issue_token a b tok sid tool own pr s))"
    by (cases rule: issue_token_cases [of a b tok sid tool own pr s])
       (use wf in \<open>auto simp: store_wf_def wf_evict\<close>)
  show "store_wf (snd (consume_token t sid tool tok s))"
    by (cases rule: consume_token_cases [of t sid tool tok s])
       (use wf in \<open>auto simp: store_wf_def\<close>)
  have "{k. pending s k = Some tok} \<subseteq> fst ` set (ts_entries s)"
    by (auto simp: pending_def dest!: map_of_SomeD intro: rev_image_eqI)
  then show "finite {k. pending s k = Some tok}" by (rule finite_subset) simp
  show "pending (snd (issue_token a b tok sid tool own pr s)) k
      \<in> {None, pending s k} \<union> (if k = make_key sid tool then {Some tok} else {})"
    by (cases rule: issue_token_cases [of a b tok sid tool own pr s])
       (use pending_evict [OF wf, of b k] in \<open>auto simp: pending_update\<close>)
  show "pending (snd (consume_token t sid tool tok s)) k \<in> {None, pending s k}"
    by (cases rule: consume_token_cases [of t sid tool tok s]) (auto simp: pending_delete)
  show "pending s (make_key sid tool) = Some tok
      \<and> pending (snd (consume_token t sid tool tok s)) (make_key sid tool) = None"
    if "fst (consume_token t sid tool tok s) = Inr True"
    by (cases rule: consume_token_cases [of t sid tool tok s])
       (use that in \<open>auto simp: pending_def delete_conv'\<close>)
qed

section \<open>Quotas\<close>

text \<open>
  The bounds of the store.  \<open>R k o\<close> says that entries under key \<open>k\<close> belong to owner \<open>o\<close>; the
  per-owner quota survives re-issuing because a key has one owner.
\<close>

definition store_bounded :: "(string \<Rightarrow> string \<Rightarrow> bool) \<Rightarrow> token_store \<Rightarrow> bool" where
  "store_bounded R st \<longleftrightarrow> store_wf st \<and> length (ts_entries st) \<le> ts_max_entries st
     \<and> (\<forall>ow. owned_by ow (ts_entries st) \<le> ts_max_per_owner st)
     \<and> (\<forall>(k, e) \<in> set (ts_entries st). R k (pt_owner e))"

lemma owned_by_filter: "owned_by ow (filter P d) \<le> owned_by ow d"
proof -
  have "filter (\<lambda>e. pt_owner (snd e) = ow) (filter P d)
      = filter P (filter (\<lambda>e. pt_owner (snd e) = ow) d)"
    by (simp add: filter_filter conj_commute)
  then show ?thesis unfolding owned_by_def by (metis length_filter_le)
qed

lemma store_bounded_evict:
  "store_bounded R st \<Longrightarrow> store_bounded R (st\<lparr>ts_entries := filter P (ts_entries st)\<rparr>)"
  unfolding store_bounded_def store_wf_def
  using owned_by_filter [of _ P "ts_entries st"] le_trans [OF length_filter_le [of P "ts_entries st"]]
  by (auto intro: order_trans)

lemma owned_by_update:
  assumes "wf_dict d" and "\<And>e. dget d k = Some e \<Longrightarrow> pt_owner e = pt_owner n"
  shows "owned_by ow (AList.update k n d)
    = owned_by ow d + (if dget d k = None \<and> pt_owner n = ow then 1 else 0)"
  using length_filter_update [OF assms(1), of "\<lambda>e. pt_owner (snd e) = ow" k n] assms(2)
  by (auto simp: owned_by_def split: option.splits if_splits)

lemma store_bounded_issue [inv_rules]:
  assumes "store_bounded R st" and "\<And>k o1 o2. R k o1 \<Longrightarrow> R k o2 \<Longrightarrow> o1 = o2"
    and "R (make_key sid tool) (if own = [] then sid else own)"
  shows "store_bounded R (snd (issue_token a b tok sid tool own pr st))"
proof -
  let ?live = "evict_expired b (ts_entries st)"
  let ?key = "make_key sid tool"
  let ?n = "\<lparr>pt_token = tok, pt_expiry = a + ts_ttl st,
           pt_owner = (if own = [] then sid else own), pt_principal = pr\<rparr>"
  have live: "store_bounded R (st\<lparr>ts_entries := ?live\<rparr>)"
    using store_bounded_evict [OF assms(1)] by (simp add: evict_expired_def)
  then have wf: "wf_dict ?live" "length ?live \<le> ts_max_entries st"
    "\<And>ow. owned_by ow ?live \<le> ts_max_per_owner st" "\<forall>(k, e) \<in> set ?live. R k (pt_owner e)"
    by (auto simp: store_bounded_def store_wf_def)
  show ?thesis
  proof (cases rule: issue_token_cases [of a b tok sid tool own pr st])
    case (refused x)
    with live show ?thesis by simp
  next
    case granted
    have same: "pt_owner e = pt_owner ?n" if "dget ?live ?key = Some e" for e
      using map_of_SomeD [OF that] wf(4) assms(2,3) by fastforce
    have ow: "owned_by ow (AList.update ?key ?n ?live)
        = owned_by ow ?live + (if dget ?live ?key = None \<and> pt_owner ?n = ow then 1 else 0)" for ow
      by (rule owned_by_update [OF wf(1) same])
    have "length (AList.update ?key ?n ?live) \<le> ts_max_entries st"
      using granted(2) wf(2) by (cases "dhas ?live ?key")
        (auto simp: length_update_old length_update_new)
    moreover have "owned_by ow (AList.update ?key ?n ?live) \<le> ts_max_per_owner st" for ow
      using granted(2) wf(3) [of ow] unfolding ow map_of_eq_None_iff
      by (auto split: if_splits)
    moreover have "\<forall>(k, e) \<in> set (AList.update ?key ?n ?live). R k (pt_owner e)"
      using wf(4) assms(3) set_update_subset [of ?key ?n ?live] by auto
    ultimately show ?thesis
      using granted(1) wf(1) by (simp add: store_bounded_def store_wf_def)
  qed
qed

lemma store_bounded_consume [inv_rules]:
  "store_bounded R st \<Longrightarrow> store_bounded R (snd (consume_token now sid tool tok st))"
  by (cases rule: consume_token_cases [of now sid tool tok st])
     (auto simp: AList.delete_eq intro!: store_bounded_evict)

section \<open>Properties\<close>

text \<open>
  A confirmation token gives at most as many confirmations as it was issued for (a random
  token, issued once, gives at most one), over every sequence of issues and consumptions from
  the empty store, with arbitrary clocks, keys and presented tokens.
\<close>

theorem confirmation_single_use:
  assumes "confirm_run issue_token consume_token evs (new_token_store ttl dummy) = (oks, st)"
  shows "accepted tok evs oks \<le> issued tok evs"
proof -
  have "store_wf (new_token_store ttl dummy)" by (simp add: store_wf_def new_token_store_def)
  from confirm.accepted_le_issued [OF this assms, of tok]
  show ?thesis by (simp add: confirm.holders_def pending_def new_token_store_def)
qed

theorem confirmation_single_use_witness:
  "let evs = [Issue 0 0 ''t'' ''b'' ''rm'' ''o'' ''p'', Consume 5 ''b'' ''rm'' ''t'',
       Consume 6 ''b'' ''rm'' ''t''];
       r = confirm_run issue_token consume_token evs (new_token_store 60 ''d'')
   in fst r = [False, True, False] \<and> accepted ''t'' evs (fst r) \<le> issued ''t'' evs"
proof -
  let ?evs = "[Issue 0 0 ''t'' ''b'' ''rm'' ''o'' ''p'', Consume 5 ''b'' ''rm'' ''t'',
       Consume 6 ''b'' ''rm'' ''t'']"
  let ?r = "confirm_run issue_token consume_token ?evs (new_token_store 60 ''d'')"
  have "fst ?r = [False, True, False]"
    by (simp add: issue_token_def consume_token_def new_token_store_def make_key_def
        evict_expired_def owned_by_def held_by_def compare_digest_str_def is_ascii_def ord_of_def
        Let_def)
  moreover have "accepted ''t'' ?evs (fst ?r) \<le> issued ''t'' ?evs"
    by (rule confirmation_single_use [where ttl = 60 and dummy = "''d''" and st = "snd ?r"]) simp
  ultimately show ?thesis by (simp only: Let_def simp_thms)
qed

end
