(* ===== verification/Authz.thy ===== *)
theory Authz
  imports ConfirmStore
begin

text \<open>
  T2: the authorization engine (\<open>AuthzEngine\<close> in \<open>mcp_armor/engines/authz.py\<close>): the method
  gate, per-tool policies, tenant isolation, the destructive two-stage gate on the store of
  \<open>ConfirmStore\<close>, and the filtering of tool listings.  SHA-256 (hexadecimal) is the parameter
  \<open>sha\<close>, \<open>fr\<close> the text of a float and \<open>repr\<close> the text of a non-string value.  Binding claims
  are reductions: two requests with one key agree or exhibit a SHA-256 collision.
\<close>

section \<open>Policies and the engine\<close>

record tool_policy =
  required_scopes :: "string list"
  user_only :: bool
  destructive :: bool
  tenant_isolated :: bool

record authz_engine =
  az_policies :: "(string, tool_policy) dict"
  az_default_deny :: bool
  az_echo :: bool
  az_store :: token_store

definition new_authz_engine :: "(string, tool_policy) dict \<Rightarrow> bool \<Rightarrow> time \<Rightarrow> bool \<Rightarrow> string \<Rightarrow> authz_engine" where
  "new_authz_engine policies deny ttl echo dummy = \<lparr>az_policies = policies,
     az_default_deny = deny, az_echo = echo, az_store = new_token_store ttl dummy\<rparr>"

definition authz_passthrough_methods :: "string list" where
  "authz_passthrough_methods = [''initialize'', ''server/discover'', ''notifications/initialized'',
     ''ping'', ''tools/list'', ''resources/list'', ''resources/templates/list'', ''prompts/list'',
     ''completion/complete'', ''logging/setLevel'', ''resources/unsubscribe'', ''roots/list'',
     ''notifications/roots/list_changed'', ''sampling/createMessage'', ''elicitation/create'',
     ''notifications/cancelled'', ''notifications/progress'', ''notifications/message'',
     ''notifications/resources/list_changed'', ''notifications/resources/updated'',
     ''notifications/tools/list_changed'', ''notifications/prompts/list_changed'']"

definition deny :: "string \<Rightarrow> exn" where
  "deny site = Cosai AuthorizationError site"

section \<open>The confirmation binding\<close>

text \<open>\<open>args\<close> without the token, hashed over its canonical JSON.\<close>

definition clean_args :: "json \<Rightarrow> json" where
  "clean_args args = (case args of
     JObj kvs \<Rightarrow> JObj (filter (\<lambda>p. fst p \<noteq> ''_confirm_token'') kvs) | _ \<Rightarrow> args)"

definition args_digest :: "(pyfloat \<Rightarrow> string) \<Rightarrow> (bytes \<Rightarrow> string) \<Rightarrow> json \<Rightarrow> string" where
  "args_digest fr sha args = sha (utf8 (dumps_canon fr (clean_args args)))"

definition confirm_binding :: "(pyfloat \<Rightarrow> string) \<Rightarrow> (bytes \<Rightarrow> string) \<Rightarrow> ctx \<Rightarrow> json
    \<Rightarrow> string result" where
  "confirm_binding fr sha c args =
     (let digest = args_digest fr sha args in
      if \<not> stateless c
      then Inr (dumps_compact fr (JArr [JStr ''session'', JStr (session_id c), JStr digest]))
      else if \<not> truthy (user_id c)
      then Inl (deny ''stateless requests require a principal (T2-004)'')
      else Inr (dumps_compact fr (JArr [JStr ''stateless'', user_id c, tenant_id c, JStr digest])))"

definition confirm_owner :: "(pyfloat \<Rightarrow> string) \<Rightarrow> ctx \<Rightarrow> string" where
  "confirm_owner fr c = (if stateless c
     then dumps_plain fr (JArr [JStr ''stateless'', user_id c, tenant_id c])
     else dumps_plain fr (JArr [JStr ''session'', JStr (session_id c)]))"

definition confirm_principal :: "(pyfloat \<Rightarrow> string) \<Rightarrow> ctx \<Rightarrow> string" where
  "confirm_principal fr c = (if truthy (user_id c)
     then dumps_plain fr (JArr [user_id c, tenant_id c]) else ''anonymous'')"

section \<open>The request hook\<close>

text \<open>The clock readings and the random token of one call.\<close>

record authz_env =
  env_now_expiry :: time
  env_now_evict :: time
  env_now_consume :: time
  env_token :: string

definition request_args :: "mcp_request \<Rightarrow> json" where
  "request_args req = (case dget (rq_params req) ''arguments'' of None \<Rightarrow> JObj [] | Some a \<Rightarrow> a)"

definition arg_or_null :: "json \<Rightarrow> string \<Rightarrow> json" where
  "arg_or_null args k = (case jget args k of None \<Rightarrow> JNull | Some v \<Rightarrow> v)"

definition subject_key :: "string \<Rightarrow> string" where
  "subject_key method = (if starts_with ''resources/'' method then ''uri'' else ''name'')"

definition request_subject :: "mcp_request \<Rightarrow> string option" where
  "request_subject req = (case dget (rq_params req) (subject_key (rq_method req)) of
     Some (JStr s) \<Rightarrow> if s = [] then None else Some s | _ \<Rightarrow> None)"

definition method_gate :: "authz_engine \<Rightarrow> ctx \<Rightarrow> string \<Rightarrow> unit result" where
  "method_gate e c method =
     (if method \<in> set authz_passthrough_methods \<and> (method \<noteq> ''server/discover'' \<or> stateless c)
      then Inr ()
      else require (\<not> az_default_deny e) (deny ''method not recognised (T2-001)''))"

definition tenant_check :: "ctx \<Rightarrow> json \<Rightarrow> unit result" where
  "tenant_check c args =
     (let arg_tenant = arg_or_null args ''tenant_id'' in
      if arg_tenant = JNull then Inl (deny ''missing tenant context (T2-003)'')
      else require (py_eq arg_tenant (tenant_id c)) (deny ''cross-tenant access (T2-003)''))"

definition policy_checks :: "tool_policy \<Rightarrow> ctx \<Rightarrow> json \<Rightarrow> unit result" where
  "policy_checks p c args =
     bindR (require (set (required_scopes p) \<subseteq> set (scopes c)) (deny ''missing scopes (T2-001)'')) (\<lambda>_.
     bindR (require (user_only p \<longrightarrow> truthy (user_id c)) (deny ''confused deputy (T2-002)'')) (\<lambda>_.
     if tenant_isolated p then tenant_check c args else Inr ()))"

definition destructive_gate :: "(pyfloat \<Rightarrow> string) \<Rightarrow> (bytes \<Rightarrow> string) \<Rightarrow> (json \<Rightarrow> string)
    \<Rightarrow> authz_env \<Rightarrow> ctx \<Rightarrow> string \<Rightarrow> json \<Rightarrow> authz_engine \<Rightarrow> unit result \<times> authz_engine" where
  "destructive_gate fr sha repr env c tool_name args e =
     (let confirm_token = arg_or_null args ''_confirm_token'' in
      case confirm_binding fr sha c args of
        Inl x \<Rightarrow> (Inl x, e)
      | Inr binding \<Rightarrow>
          if \<not> truthy confirm_token then
            (case issue_token (env_now_expiry env) (env_now_evict env) (env_token env) binding
                tool_name (confirm_owner fr c) (confirm_principal fr c) (az_store e) of
               (Inl x, st) \<Rightarrow> (Inl x, e\<lparr>az_store := st\<rparr>)
             | (Inr token, st) \<Rightarrow>
                 (Inl (deny (if az_echo e then ''requires confirmation (T2-004): '' @ token
                    else ''requires out-of-band confirmation (T2-004)'')), e\<lparr>az_store := st\<rparr>))
          else
            (case consume_token (env_now_consume env) binding tool_name
                (str_of repr confirm_token) (az_store e) of
               (Inl x, st) \<Rightarrow> (Inl x, e\<lparr>az_store := st\<rparr>)
             | (Inr ok, st) \<Rightarrow>
                 (require ok (deny ''_confirm_token is invalid or expired (T2-004)''),
                  e\<lparr>az_store := st\<rparr>)))"

definition authz_on_request :: "(pyfloat \<Rightarrow> string) \<Rightarrow> (bytes \<Rightarrow> string) \<Rightarrow> (json \<Rightarrow> string)
    \<Rightarrow> authz_env \<Rightarrow> authz_engine request_hook_fn" where
  "authz_on_request fr sha repr env c req e =
     (if rq_method req \<notin> set content_bearing_methods
      then (bindR (method_gate e c (rq_method req)) (\<lambda>_. Inr c), e)
      else case request_subject req of
        None \<Rightarrow> (Inl (deny ''no string subject (T2-001)''), e)
      | Some tool_name \<Rightarrow>
          (case dget (az_policies e) tool_name of
             None \<Rightarrow> (bindR (require (\<not> az_default_deny e) (deny ''not in policy (T2-001)'')) (\<lambda>_. Inr c), e)
           | Some p \<Rightarrow>
               (case policy_checks p c (request_args req) of
                  Inl x \<Rightarrow> (Inl x, e)
                | Inr _ \<Rightarrow>
                    if destructive p then
                      (case destructive_gate fr sha repr env c tool_name (request_args req) e of
                         (r, e') \<Rightarrow> (bindR r (\<lambda>_. Inr c), e'))
                    else (Inr c, e))))"

text \<open>\<open>filter_tools_list\<close>: one pass over the names, keeping their order.\<close>

fun filter_tools_list :: "authz_engine \<Rightarrow> string list \<Rightarrow> ctx \<Rightarrow> string list" where
  "filter_tools_list e [] c = []"
| "filter_tools_list e (name # names) c =
     (case dget (az_policies e) name of
        None \<Rightarrow> if \<not> az_default_deny e then name # filter_tools_list e names c
               else filter_tools_list e names c
      | Some p \<Rightarrow>
          if required_scopes p \<noteq> [] \<and> \<not> set (required_scopes p) \<subseteq> set (scopes c)
          then filter_tools_list e names c
          else name # filter_tools_list e names c)"

section \<open>Lemmas\<close>

lemma policy_checks_ok: "policy_checks p c args = Inr () \<longleftrightarrow>
    set (required_scopes p) \<subseteq> set (scopes c) \<and> (user_only p \<longrightarrow> truthy (user_id c))
    \<and> (tenant_isolated p \<longrightarrow> arg_or_null args ''tenant_id'' \<noteq> JNull
         \<and> py_eq (arg_or_null args ''tenant_id'') (tenant_id c))"
  by (auto simp: policy_checks_def tenant_check_def Let_def bindR_eq_Inr)

lemma destructive_gate_ok:
  "fst (destructive_gate fr sha repr env c tool args e) = Inr () \<longleftrightarrow>
     (\<exists>b. confirm_binding fr sha c args = Inr b \<and> truthy (arg_or_null args ''_confirm_token'')
        \<and> fst (consume_token (env_now_consume env) b tool
               (str_of repr (arg_or_null args ''_confirm_token'')) (az_store e)) = Inr True)"
  by (auto simp: destructive_gate_def Let_def split: sum.splits prod.splits)

lemma authz_on_request_ok:
  assumes "rq_method req \<in> set content_bearing_methods"
  shows "fst (authz_on_request fr sha repr env c req e) = Inr c' \<longleftrightarrow>
    c' = c \<and> (\<exists>tool. request_subject req = Some tool \<and>
      (case dget (az_policies e) tool of
         None \<Rightarrow> \<not> az_default_deny e
       | Some p \<Rightarrow> policy_checks p c (request_args req) = Inr () \<and>
           (destructive p \<longrightarrow> fst (destructive_gate fr sha repr env c tool (request_args req) e) = Inr ())))"
  using assms
  by (auto simp: authz_on_request_def bindR_eq_Inr split: option.splits sum.splits prod.splits)

interpretation authz_rq: request_hook "authz_on_request fr sha repr env" for fr sha repr env
proof unfold_locales
  fix c req s c' s'
  assume h: "authz_on_request fr sha repr env c req s = (Inr c', s')"
  have "c' = c"
  proof (cases "rq_method req \<in> set content_bearing_methods")
    case True
    from h have "fst (authz_on_request fr sha repr env c req s) = Inr c'" by simp
    with authz_on_request_ok [OF True] show ?thesis by blast
  qed (use h in \<open>auto simp: authz_on_request_def bindR_eq_Inr\<close>)
  then show "same_session c c'" by simp
qed

lemma filter_tools_list_filter:
  "filter_tools_list e names c = filter (\<lambda>n. case dget (az_policies e) n of
       None \<Rightarrow> \<not> az_default_deny e | Some p \<Rightarrow> set (required_scopes p) \<subseteq> set (scopes c)) names"
  by (induction names) (auto split: option.splits)

subsection \<open>What a confirmation key determines\<close>

definition sha_collision :: "(bytes \<Rightarrow> string) \<Rightarrow> bool" where
  "sha_collision sha \<longleftrightarrow> (\<exists>m m'. m \<noteq> m' \<and> sha m = sha m')"

lemma make_key_binding_inj:
  assumes "float_repr_ok fr"
    and "make_key (dumps_compact fr (JArr xs)) t = make_key (dumps_compact fr (JArr ys)) t'"
  shows "xs = ys \<and> t = t'"
  using jprint_array_prefix [OF assms(1), of "[]" xs "''::'' @ t" ys "''::'' @ t'"] assms(2)
  by (simp add: make_key_def dumps_compact_def del: jprint.simps)

lemma args_digest_inj:
  assumes "float_repr_ok fr" and "args_digest fr sha a = args_digest fr sha b"
  shows "canon (clean_args a) = canon (clean_args b) \<or> sha_collision sha"
  using assms dumps_canon_inj [OF assms(1)]
  by (auto simp: args_digest_def sha_collision_def utf8_inj) (metis utf8_inj)

text \<open>Who a request acts for, as far as confirmations are concerned.\<close>

definition same_actor :: "ctx \<Rightarrow> ctx \<Rightarrow> bool" where
  "same_actor c c' \<longleftrightarrow> stateless c = stateless c' \<and>
     (if stateless c then user_id c = user_id c' \<and> tenant_id c = tenant_id c'
      else session_id c = session_id c')"

lemma confirm_key_inj:
  assumes ok: "float_repr_ok fr"
    and b: "confirm_binding fr sha c a = Inr b" and b': "confirm_binding fr sha c' a' = Inr b'"
    and key: "make_key b t = make_key b' t'"
  shows "t = t' \<and> same_actor c c' \<and> (canon (clean_args a) = canon (clean_args a') \<or> sha_collision sha)"
proof -
  define elems where "elems c a = (if stateless c
      then [JStr ''stateless'', user_id c, tenant_id c, JStr (args_digest fr sha a)]
      else [JStr ''session'', JStr (session_id c), JStr (args_digest fr sha a)])" for c :: ctx and a
  have "b = dumps_compact fr (JArr (elems c a))" "b' = dumps_compact fr (JArr (elems c' a'))"
    using b b' by (auto simp: confirm_binding_def Let_def elems_def simp del: jprint.simps split: if_splits)
  with key make_key_binding_inj [OF ok] have e: "elems c a = elems c' a'" and t: "t = t'" by blast+
  from e have "same_actor c c'" and "args_digest fr sha a = args_digest fr sha a'"
    by (auto simp: elems_def same_actor_def split: if_splits)
  with args_digest_inj [OF ok] t show ?thesis by blast
qed

subsection \<open>The quotas of the engine's own store\<close>

text \<open>The key of a destructive call determines the owner its token is charged to.\<close>

definition key_owner :: "(pyfloat \<Rightarrow> string) \<Rightarrow> (bytes \<Rightarrow> string) \<Rightarrow> string \<Rightarrow> string \<Rightarrow> bool" where
  "key_owner fr sha k ow \<longleftrightarrow> (\<exists>c a t b. confirm_binding fr sha c a = Inr b \<and> k = make_key b t
     \<and> ow = confirm_owner fr c)"

lemma key_owner_fun:
  assumes "float_repr_ok fr" and "key_owner fr sha k o1" and "key_owner fr sha k o2"
  shows "o1 = o2"
proof -
  from assms(2,3) obtain c a t b c' a' t' b' where
    "confirm_binding fr sha c a = Inr b" "confirm_binding fr sha c' a' = Inr b'"
    "make_key b t = make_key b' t'" and o: "o1 = confirm_owner fr c" "o2 = confirm_owner fr c'"
    unfolding key_owner_def by metis
  from confirm_key_inj [OF assms(1) this(1-3)] have "same_actor c c'" by blast
  with o show ?thesis by (auto simp: same_actor_def confirm_owner_def)
qed

lemma confirm_owner_not_Nil: "confirm_owner fr c \<noteq> []"
  by (simp add: confirm_owner_def dumps_plain_def)

definition authz_bounded :: "(pyfloat \<Rightarrow> string) \<Rightarrow> (bytes \<Rightarrow> string) \<Rightarrow> authz_engine \<Rightarrow> bool" where
  "authz_bounded fr sha e = store_bounded (key_owner fr sha) (az_store e)"

lemma authz_step_bounded [inv_rules]:
  assumes ok: "float_repr_ok fr" and inv: "authz_bounded fr sha e"
  shows "authz_bounded fr sha (snd (authz_on_request fr sha repr env c req e))"
proof -
  have gate: "authz_bounded fr sha (snd (destructive_gate fr sha repr env c tool args e))" for tool args
  proof (cases "confirm_binding fr sha c args")
    case (Inl x)
    then show ?thesis using inv by (simp add: destructive_gate_def)
  next
    case (Inr b)
    have "key_owner fr sha (make_key b tool) (confirm_owner fr c)"
      using Inr unfolding key_owner_def by blast
    then have iss: "store_bounded (key_owner fr sha) (snd (issue_token x y z b tool
        (confirm_owner fr c) pr (az_store e)))" for x y z pr
      using inv key_owner_fun [OF ok] confirm_owner_not_Nil [of fr c]
      by (intro store_bounded_issue) (auto simp: authz_bounded_def)
    have con: "store_bounded (key_owner fr sha) (snd (consume_token x b tool z (az_store e)))" for x z
      using inv by (intro store_bounded_consume) (simp add: authz_bounded_def)
    show ?thesis
      using Inr iss [of "env_now_expiry env" "env_now_evict env" "env_token env" "confirm_principal fr c"]
        con [of "env_now_consume env" "str_of repr (arg_or_null args ''_confirm_token'')"]
      by (auto simp: destructive_gate_def Let_def authz_bounded_def split: sum.splits prod.splits)
  qed
  show ?thesis
    using inv gate
    by (auto simp: authz_on_request_def split: option.splits sum.splits prod.splits)
      (metis snd_conv)
qed

fun authz_run :: "(pyfloat \<Rightarrow> string) \<Rightarrow> (bytes \<Rightarrow> string) \<Rightarrow> (json \<Rightarrow> string)
    \<Rightarrow> (authz_env \<times> ctx \<times> mcp_request) list \<Rightarrow> authz_engine \<Rightarrow> authz_engine" where
  "authz_run fr sha repr [] e = e"
| "authz_run fr sha repr ((env, c, req) # calls) e =
     authz_run fr sha repr calls (snd (authz_on_request fr sha repr env c req e))"

lemma authz_run_bounded:
  "float_repr_ok fr \<Longrightarrow> authz_bounded fr sha e \<Longrightarrow> authz_bounded fr sha (authz_run fr sha repr calls e)"
  by (induction fr sha repr calls e rule: authz_run.induct) (auto intro: authz_step_bounded)

lemma issue_token_result_token:
  "fst (issue_token a b tok sid tool own pr st) = Inl x
     \<longleftrightarrow> fst (issue_token a b tok' sid tool own pr st) = Inl x"
  by (simp add: issue_token_def Let_def)

lemma policy_checks_scopes: "\<not> set (required_scopes p) \<subseteq> set (scopes c) \<Longrightarrow>
    policy_checks p c args = Inl (deny ''missing scopes (T2-001)'')"
  by (simp add: policy_checks_def require_def)

lemma issue_token_limits:
  "ts_max_entries (snd (issue_token a b tok sid tool own pr st)) = ts_max_entries st"
  "ts_max_per_owner (snd (issue_token a b tok sid tool own pr st)) = ts_max_per_owner st"
  by (cases rule: issue_token_cases [of a b tok sid tool own pr st]; simp)+

lemma consume_token_limits:
  "ts_max_entries (snd (consume_token now sid tool tok st)) = ts_max_entries st"
  "ts_max_per_owner (snd (consume_token now sid tool tok st)) = ts_max_per_owner st"
  by (cases rule: consume_token_cases [of now sid tool tok st]; simp)+

definition store_limits :: "authz_engine \<Rightarrow> nat \<times> nat" where
  "store_limits e = (ts_max_entries (az_store e), ts_max_per_owner (az_store e))"

lemma destructive_gate_limits:
  "store_limits (snd (destructive_gate fr sha repr env c tool args e)) = store_limits e"
proof (cases "confirm_binding fr sha c args")
  case (Inr b)
  let ?i = "issue_token (env_now_expiry env) (env_now_evict env) (env_token env) b tool
    (confirm_owner fr c) (confirm_principal fr c) (az_store e)"
  let ?c = "consume_token (env_now_consume env) b tool
    (str_of repr (arg_or_null args ''_confirm_token'')) (az_store e)"
  obtain ri si where i: "?i = (ri, si)" by (cases ?i)
  obtain rc sc where c: "?c = (rc, sc)" by (cases ?c)
  from i issue_token_limits [of "env_now_expiry env" "env_now_evict env" "env_token env" b tool
      "confirm_owner fr c" "confirm_principal fr c" "az_store e"]
    c consume_token_limits [of "env_now_consume env" b tool
      "str_of repr (arg_or_null args ''_confirm_token'')" "az_store e"]
  show ?thesis using Inr
    by (simp add: destructive_gate_def store_limits_def Let_def split: sum.splits)
qed (simp add: destructive_gate_def)

lemma authz_step_limits:
  "store_limits (snd (authz_on_request fr sha repr env c req e)) = store_limits e"
proof -
  have "store_limits e' = store_limits e"
    if "destructive_gate fr sha repr env c tool args e = (r, e')" for tool args r e'
    using destructive_gate_limits [of fr sha repr env c tool args e] that by simp
  then show ?thesis
    by (auto simp: authz_on_request_def split: option.splits sum.splits prod.splits)
qed

lemma authz_run_limits: "store_limits (authz_run fr sha repr calls e) = store_limits e"
  by (induction fr sha repr calls e rule: authz_run.induct) (simp_all add: authz_step_limits)

section \<open>Properties\<close>

text \<open>
  C2: A content-bearing request is authorized exactly when it names its subject by a non-empty
  string under the key of its method, and either no policy covers the subject and default-deny
  is off, or its policy is met: the required scopes are among the caller's, a user-only tool
  has a user, a tenant-isolated tool is called with the caller's own tenant, and a destructive
  one presents a token the store accepts.  The context is returned unchanged.
\<close>

theorem authz_grant_iff:
  assumes "rq_method req \<in> set content_bearing_methods"
  shows "fst (authz_on_request fr sha repr env c req e) = Inr c' \<longleftrightarrow> c' = c \<and>
    (\<exists>tool. dget (rq_params req) (subject_key (rq_method req)) = Some (JStr tool) \<and> tool \<noteq> [] \<and>
      (case dget (az_policies e) tool of
         None \<Rightarrow> \<not> az_default_deny e
       | Some p \<Rightarrow> set (required_scopes p) \<subseteq> set (scopes c)
           \<and> (user_only p \<longrightarrow> truthy (user_id c))
           \<and> (tenant_isolated p \<longrightarrow> arg_or_null (request_args req) ''tenant_id'' \<noteq> JNull
                \<and> py_eq (arg_or_null (request_args req) ''tenant_id'') (tenant_id c))
           \<and> (destructive p \<longrightarrow> (\<exists>b. confirm_binding fr sha c (request_args req) = Inr b
                \<and> truthy (arg_or_null (request_args req) ''_confirm_token'')
                \<and> fst (consume_token (env_now_consume env) b tool
                     (str_of repr (arg_or_null (request_args req) ''_confirm_token'')) (az_store e))
                  = Inr True))))"
proof -
  have sub: "request_subject req = Some tool \<longleftrightarrow>
      dget (rq_params req) (subject_key (rq_method req)) = Some (JStr tool) \<and> tool \<noteq> []" for tool
    by (auto simp: request_subject_def split: option.splits json.splits)
  show ?thesis
    unfolding authz_on_request_ok [OF assms] sub policy_checks_ok destructive_gate_ok
    by (simp cong: option.case_cong conj_cong)
qed

definition demo_policy :: tool_policy where
  "demo_policy = \<lparr>required_scopes = [''admin''], user_only = True, destructive = False,
     tenant_isolated = True\<rparr>"

definition demo_call :: "string \<Rightarrow> (string, json) dict \<Rightarrow> mcp_request" where
  "demo_call tool args = \<lparr>rq_method = ''tools/call'',
     rq_params = [(''name'', JStr tool), (''arguments'', JObj args)], rq_session_id = ''s'',
     rq_headers = [], rq_query = [], rq_transport = ''http'', rq_header_pairs = []\<rparr>"

definition demo_caller :: ctx where
  "demo_caller = with_scopes (with_user (new_context 0 ''s'' ''http'') (JStr ''u'') (JStr ''t''))
     [''admin'', ''read'']"

definition demo_env :: "string \<Rightarrow> authz_env" where
  "demo_env tok = \<lparr>env_now_expiry = 1, env_now_evict = 1, env_now_consume = 2, env_token = tok\<rparr>"

lemmas demo_defs = demo_policy_def demo_call_def demo_caller_def demo_env_def new_context_def
  with_scopes_def with_user_def new_authz_engine_def

theorem authz_grant_iff_witness:
  "fst (authz_on_request ratio_text (\<lambda>_. []) (\<lambda>_. []) (demo_env ''k'') demo_caller
     (demo_call ''purge'' [(''tenant_id'', JStr ''t'')])
     (new_authz_engine [(''purge'', demo_policy)] True 60 False ''d'')) = Inr demo_caller"
proof -
  have "rq_method (demo_call ''purge'' [(''tenant_id'', JStr ''t'')]) \<in> set content_bearing_methods"
    by (simp add: demo_call_def content_bearing_methods_def)
  from authz_grant_iff [OF this] show ?thesis
    by (auto simp: demo_defs subject_key_def starts_with_def request_args_def arg_or_null_def)
qed

text \<open>
  A tool that the filtered listing hides from a caller cannot be called by that caller:
  the engine denies \<open>tools/call\<close> on it, whatever the arguments and the confirmation store.
\<close>

theorem hidden_tool_denied:
  assumes "tool \<in> set names" and "tool \<notin> set (filter_tools_list e names c)"
    and "rq_method req = ''tools/call''" and "dget (rq_params req) ''name'' = Some (JStr tool)"
  shows "\<exists>site. fst (authz_on_request fr sha repr env c req e) = Inl (Cosai AuthorizationError site)"
proof (cases "tool = []")
  case True
  with assms(3,4) show ?thesis
    by (simp add: authz_on_request_def content_bearing_methods_def request_subject_def
        subject_key_def starts_with_def deny_def)
next
  case False
  have hid: "case dget (az_policies e) tool of None \<Rightarrow> az_default_deny e
      | Some p \<Rightarrow> \<not> set (required_scopes p) \<subseteq> set (scopes c)"
    using assms(1,2) by (auto simp: filter_tools_list_filter split: option.splits)
  have sub: "request_subject req = Some tool"
    using assms(3,4) False by (simp add: request_subject_def subject_key_def starts_with_def)
  have cb: "rq_method req \<in> set content_bearing_methods"
    using assms(3) by (simp add: content_bearing_methods_def)
  show ?thesis
  proof (cases "dget (az_policies e) tool")
    case None
    with hid sub cb show ?thesis by (simp add: authz_on_request_def deny_def)
  next
    case (Some p)
    with hid have "\<not> set (required_scopes p) \<subseteq> set (scopes c)" by simp
    then have "policy_checks p c (request_args req) = Inl (deny ''missing scopes (T2-001)'')"
      by (rule policy_checks_scopes)
    with Some sub cb show ?thesis by (simp add: authz_on_request_def deny_def)
  qed
qed

theorem hidden_tool_denied_witness:
  "''purge'' \<notin> set (filter_tools_list (new_authz_engine [(''purge'', demo_policy)] True 60 False ''d'')
       [''purge''] (new_context 0 ''s'' ''http''))
   \<and> (\<exists>site. fst (authz_on_request ratio_text (\<lambda>_. []) (\<lambda>_. []) (demo_env ''k'') (new_context 0 ''s'' ''http'')
     (demo_call ''purge'' []) (new_authz_engine [(''purge'', demo_policy)] True 60 False ''d''))
     = Inl (Cosai AuthorizationError site))"
proof -
  let ?e = "new_authz_engine [(''purge'', demo_policy)] True 60 False ''d''"
  let ?c = "new_context 0 ''s'' ''http''"
  have h: "''purge'' \<notin> set (filter_tools_list ?e [''purge''] ?c)"
    by (simp add: demo_defs)
  moreover have "\<exists>site. fst (authz_on_request ratio_text (\<lambda>_. []) (\<lambda>_. []) (demo_env ''k'') ?c
     (demo_call ''purge'' []) ?e) = Inl (Cosai AuthorizationError site)"
    by (rule hidden_tool_denied [where names = "[''purge'']" and tool = "''purge''", OF _ h])
       (simp_all add: demo_call_def)
  ultimately show ?thesis by blast
qed

text \<open>
  C12: A confirmation is bound to what was approved.  If the store holds a pending token only
  under the key it was issued for, and a destructive call presenting that token is let
  through, then it is the same tool, the same actor (session, or principal and tenant for a
  stateless request), and the same arguments up to key order, unless SHA-256 collides.
\<close>

theorem confirmation_binds_action:
  assumes "float_repr_ok fr"
    and "confirm_binding fr sha c0 args0 = Inr b0"
    and "\<forall>k. pending (az_store e) k = Some tok \<longrightarrow> k = make_key b0 tool0"
    and "rq_method req \<in> set content_bearing_methods"
    and "fst (authz_on_request fr sha repr env c req e) = Inr c'"
    and "request_subject req = Some tool" and "dget (az_policies e) tool = Some p" and "destructive p"
    and "arg_or_null (request_args req) ''_confirm_token'' = JStr tok"
  shows "tool = tool0 \<and> same_actor c c0
    \<and> (canon (clean_args (request_args req)) = canon (clean_args args0) \<or> sha_collision sha)"
proof -
  from assms(5-9) obtain b where b: "confirm_binding fr sha c (request_args req) = Inr b"
    and con: "fst (consume_token (env_now_consume env) b tool tok (az_store e)) = Inr True"
    unfolding authz_on_request_ok [OF assms(4)] destructive_gate_ok by (auto simp: str_of_def)
  have "pending (az_store e) (make_key b tool) = Some tok"
    by (cases rule: consume_token_cases [of "env_now_consume env" b tool tok "az_store e"])
       (use con in \<open>auto simp: pending_def\<close>)
  with assms(3) have "make_key b tool = make_key b0 tool0" by blast
  from confirm_key_inj [OF assms(1) b assms(2) this] show ?thesis by blast
qed

definition demo_gate :: authz_engine where
  "demo_gate = (new_authz_engine
     [(''rm'', demo_policy\<lparr>tenant_isolated := False, destructive := True\<rparr>)] True 60 False ''d'')
     \<lparr>az_store := (new_token_store 60 ''d'')\<lparr>ts_entries :=
       [(make_key (dumps_compact ratio_text (JArr [JStr ''session'', JStr ''s'', JStr ''h''])) ''rm'',
         \<lparr>pt_token = ''k'', pt_expiry = 60, pt_owner = ''o'', pt_principal = ''p''\<rparr>)]\<rparr>\<rparr>"

theorem confirmation_binds_action_witness:
  "''rm'' = ''rm'' \<and> same_actor demo_caller demo_caller
    \<and> (canon (clean_args (request_args (demo_call ''rm'' [(''_confirm_token'', JStr ''k'')])))
         = canon (clean_args (JObj [])) \<or> sha_collision (\<lambda>_. ''h''))"
proof (rule confirmation_binds_action [OF ratio_text_ok, where e = demo_gate and tok = "''k''"
      and env = "demo_env []" and repr = "\<lambda>_. []" and c' = demo_caller
      and p = "demo_policy\<lparr>tenant_isolated := False, destructive := True\<rparr>"])
  let ?b = "dumps_compact ratio_text (JArr [JStr ''session'', JStr ''s'', JStr ''h''])"
  let ?req = "demo_call ''rm'' [(''_confirm_token'', JStr ''k'')]"
  show bind: "confirm_binding ratio_text (\<lambda>_. ''h'') demo_caller (JObj []) = Inr ?b"
    by (simp add: confirm_binding_def args_digest_def demo_defs)
  have bind2: "confirm_binding ratio_text (\<lambda>_. ''h'') demo_caller (request_args ?req) = Inr ?b"
    by (simp add: confirm_binding_def args_digest_def demo_defs)
  show "\<forall>k. pending (az_store demo_gate) k = Some ''k'' \<longrightarrow> k = make_key ?b ''rm''"
    by (simp add: demo_gate_def pending_def new_token_store_def)
  show cb: "rq_method ?req \<in> set content_bearing_methods"
    by (simp add: demo_call_def content_bearing_methods_def)
  show sub: "request_subject ?req = Some ''rm''"
    by (simp add: demo_call_def request_subject_def subject_key_def starts_with_def)
  show pol: "dget (az_policies demo_gate) ''rm''
      = Some (demo_policy\<lparr>tenant_isolated := False, destructive := True\<rparr>)"
    by (simp add: demo_gate_def new_authz_engine_def)
  show tok: "arg_or_null (request_args ?req) ''_confirm_token'' = JStr ''k''"
    by (simp add: arg_or_null_def request_args_def demo_call_def)
  have "fst (consume_token 2 ?b ''rm'' ''k'' (az_store demo_gate)) = Inr True"
    by (simp add: consume_token_def demo_gate_def new_token_store_def compare_digest_str_def
        is_ascii_def ord_of_def del: jprint.simps)
  then show "fst (authz_on_request ratio_text (\<lambda>_. ''h'') (\<lambda>_. []) (demo_env []) demo_caller ?req
      demo_gate) = Inr demo_caller"
    unfolding authz_on_request_ok [OF cb] using sub pol bind2 tok
    by (auto simp: policy_checks_ok destructive_gate_ok str_of_def demo_env_def demo_policy_def
        demo_caller_def with_scopes_def with_user_def)
qed simp

text \<open>
  Without \<open>echo_confirm_token\<close> the answer to the client is independent of the random
  token: two runs that differ only in the token drawn return the same result, so an agent
  that reads its error messages learns nothing about the confirmation token.
\<close>

theorem token_not_disclosed:
  assumes "\<not> az_echo e"
  shows "fst (authz_on_request fr sha repr (env\<lparr>env_token := t1\<rparr>) c req e)
       = fst (authz_on_request fr sha repr (env\<lparr>env_token := t2\<rparr>) c req e)"
proof -
  have "fst (destructive_gate fr sha repr (env\<lparr>env_token := t1\<rparr>) c tool args e)
      = fst (destructive_gate fr sha repr (env\<lparr>env_token := t2\<rparr>) c tool args e)" for tool args
    using assms
    by (auto simp: destructive_gate_def Let_def issue_token_def split: sum.splits)
  then show ?thesis
    by (auto simp: authz_on_request_def split: option.splits sum.splits prod.splits)
      (metis fst_conv)+
qed

theorem token_not_disclosed_witness:
  "fst (authz_on_request ratio_text (\<lambda>_. []) (\<lambda>_. []) ((demo_env [])\<lparr>env_token := ''a''\<rparr>) demo_caller
     (demo_call ''rm'' []) (new_authz_engine [(''rm'', demo_policy\<lparr>tenant_isolated := False,
        destructive := True\<rparr>)] True 60 False ''d''))
   = fst (authz_on_request ratio_text (\<lambda>_. []) (\<lambda>_. []) ((demo_env [])\<lparr>env_token := ''b''\<rparr>) demo_caller
     (demo_call ''rm'' []) (new_authz_engine [(''rm'', demo_policy\<lparr>tenant_isolated := False,
        destructive := True\<rparr>)] True 60 False ''d''))"
  by (rule token_not_disclosed) (simp add: new_authz_engine_def)

text \<open>
  The confirmation store stays within its bounds under every sequence of requests: at most
  10000 pending tokens in all and at most 64 per owner (a session, or a stateless principal
  and tenant), so one caller cannot starve the others.
\<close>

theorem confirmation_quotas:
  assumes "float_repr_ok fr"
    and "e = authz_run fr sha repr calls (new_authz_engine ps dd ttl echo d)"
  shows "length (ts_entries (az_store e)) \<le> 10000 \<and> owned_by ow (ts_entries (az_store e)) \<le> 64"
proof -
  have "authz_bounded fr sha (new_authz_engine ps dd ttl echo d)"
    by (simp add: authz_bounded_def store_bounded_def store_wf_def new_authz_engine_def
        new_token_store_def owned_by_def)
  from authz_run_bounded [OF assms(1) this, of repr calls] assms(2)
  have "store_bounded (key_owner fr sha) (az_store e)" by (simp add: authz_bounded_def)
  moreover have "store_limits e = (10000, 64)"
    unfolding assms(2) authz_run_limits
    by (simp add: store_limits_def new_authz_engine_def new_token_store_def)
  ultimately show ?thesis by (auto simp: store_bounded_def store_limits_def)
qed

theorem confirmation_quotas_witness:
  "length (ts_entries (az_store (authz_run ratio_text (\<lambda>_. []) (\<lambda>_. [])
     [(demo_env ''k'', demo_caller, demo_call ''rm'' [])] (new_authz_engine [] True 60 False ''d''))))
     \<le> 10000
   \<and> owned_by ''o'' (ts_entries (az_store (authz_run ratio_text (\<lambda>_. []) (\<lambda>_. [])
     [(demo_env ''k'', demo_caller, demo_call ''rm'' [])] (new_authz_engine [] True 60 False ''d''))))
     \<le> 64"
  by (rule confirmation_quotas [OF ratio_text_ok refl])

end
