(* ===== verification/Replay.thy ===== *)
theory Replay
  imports Engine
begin

text \<open>
  The contract of a replay store (the protocols \<open>JTIReplayStore\<close> of
  \<open>mcp_armor/engines/auth.py\<close> and \<open>SpentStore\<close> of \<open>mcp_armor/explicit_state.py\<close>): an atomic
  test-and-set of an identifier with an expiry.  \<open>key_of\<close> is the key an identifier is stored
  under (or the error of an identifier that cannot be a key), \<open>live_until\<close> the expiry the
  store holds for a key, \<open>expired\<close> how an expiry compares with a reading of the clock.  Clients use the one consequence proved here: an identifier that was
  accepted is accepted again only after some reading of the clock has reached its expiry.
\<close>

locale replay_store =
  fixes check :: "time \<Rightarrow> 'j \<Rightarrow> 'x \<Rightarrow> 's \<Rightarrow> bool result \<times> 's"
    and key_of :: "'j \<Rightarrow> 'k result"
    and live_until :: "'s \<Rightarrow> 'k \<Rightarrow> 'x option"
    and inv :: "'s \<Rightarrow> bool"
    and expired :: "'x \<Rightarrow> time \<Rightarrow> bool"
  assumes inv_check: "inv s \<Longrightarrow> inv (snd (check now jti ex s))"
    and fresh: "inv s \<Longrightarrow> check now jti ex s = (Inr True, s') \<Longrightarrow> key_of jti = Inr k \<Longrightarrow>
        live_until s' k = Some ex \<and> (\<forall>u. live_until s k = Some u \<longrightarrow> expired u now)"
    and keeps: "inv s \<Longrightarrow> live_until s k = Some u \<Longrightarrow> \<not> expired u now \<Longrightarrow>
        live_until (snd (check now jti ex s)) k = Some u"
begin

lemma live_rejected:
  "inv s \<Longrightarrow> live_until s k = Some u \<Longrightarrow> \<not> expired u now \<Longrightarrow> key_of jti = Inr k \<Longrightarrow>
     fst (check now jti ex s) \<noteq> Inr True"
  using fresh [of s now jti ex "snd (check now jti ex s)" k] by (metis prod.collapse)

text \<open>
  A state evolves by calls of the store and by nothing else; each operation carries the
  reading of its call.
\<close>

fun evolve :: "(time \<times> 'j \<times> 'x) list \<Rightarrow> 's \<Rightarrow> 's" where
  "evolve [] s = s"
| "evolve ((now, jti, ex) # ops) s = evolve ops (snd (check now jti ex s))"

lemma evolve_inv: "inv s \<Longrightarrow> inv (evolve ops s)"
  by (induction ops s rule: evolve.induct) (simp_all add: inv_check)

lemma evolve_live:
  "inv s \<Longrightarrow> live_until s k = Some u \<Longrightarrow> \<forall>op \<in> set ops. \<not> expired u (fst op) \<Longrightarrow>
     live_until (evolve ops s) k = Some u"
  by (induction ops s rule: evolve.induct) (simp_all add: inv_check keeps)

lemma replay_needs_expiry:
  assumes "inv s" and "check n1 j1 x1 s = (Inr True, s1)" and "key_of j1 = Inr k"
    and "key_of j2 = Inr k" and "fst (check n2 j2 x2 (evolve ops s1)) = Inr True"
  shows "\<exists>now \<in> insert n2 (fst ` set ops). expired x1 now"
proof (rule ccontr)
  assume none: "\<not> ?thesis"
  have i1: "inv s1" using inv_check [OF assms(1), of n1 j1 x1] assms(2) by simp
  have "live_until s1 k = Some x1" using fresh [OF assms(1-3)] by blast
  then have "live_until (evolve ops s1) k = Some x1" using none i1 by (intro evolve_live) auto
  with live_rejected [OF evolve_inv [OF i1] this _ assms(4)] none assms(5) show False by blast
qed

end

end
