(* ===== verification/Auth.thy ===== *)
theory Auth
  imports Replay
begin

text \<open>
  T1: the authentication engine (\<open>mcp_armor/engines/auth.py\<close>): the replay cache, the
  algorithm allowlist, access-token claims, DPoP proofs, session binding and the request
  hook.  The JOSE library, SHA-256, JSON parsing and \<open>repr\<close> are the fields of \<open>jwt_lib\<close>;
  the DPoP replay store, which a deployment may replace, is an argument \<open>check\<close> together with
  its state.  The locale \<open>replay_store\<close> is the contract of \<open>JTIReplayStore\<close>; the in-process
  cache is shown to meet it.
\<close>

section \<open>The replay cache\<close>

record jti_cache =
  jc_entries :: "(json, pyfloat) dict"
  jc_maxsize :: nat

definition new_jti_cache :: "nat \<Rightarrow> jti_cache" where
  "new_jti_cache n = \<lparr>jc_entries = [], jc_maxsize = n\<rparr>"

definition auth_error :: "string \<Rightarrow> exn" where
  "auth_error site = Cosai AuthenticationError site"

type_synonym 's replay_check = "time \<Rightarrow> json \<Rightarrow> pyfloat \<Rightarrow> 's \<Rightarrow> bool result \<times> 's"

definition jti_check_and_add :: "jti_cache replay_check" where
  "jti_check_and_add now jti ex st =
     (let live = filter (\<lambda>e. \<not> pf_le (snd e) (Fin now)) (jc_entries st);
          st1 = st\<lparr>jc_entries := live\<rparr>
      in case hash_key jti of
           Inl x \<Rightarrow> (Inl x, st1)
         | Inr k \<Rightarrow>
             if dhas live k then (Inr False, st1)
             else if length live \<ge> jc_maxsize st then (Inl (auth_error ''JTI cache full''), st1)
             else (Inr True, st\<lparr>jc_entries := AList.update k ex live\<rparr>))"

section \<open>The library the engine calls\<close>

record jwt_lib =
  lib_decode :: "json \<Rightarrow> string \<Rightarrow> string list \<Rightarrow> (string, json) dict option"
    \<comment> \<open>\<open>jwt.decode\<close> with the key of a JWK or a JWKS; \<open>None\<close> when it raises\<close>
  lib_import :: "json \<Rightarrow> bool"   \<comment> \<open>does the key import without raising\<close>
  lib_loads :: "bytes \<Rightarrow> json option"
  lib_sha256 :: "bytes \<Rightarrow> bytes"
  lib_float_repr :: "pyfloat \<Rightarrow> string"
  lib_repr :: "json \<Rightarrow> string"

definition dpop_allowed_algs :: "string list" where
  "dpop_allowed_algs = [''RS256'', ''RS384'', ''RS512'', ''PS256'', ''PS384'', ''PS512'',
     ''ES256'', ''ES384'', ''ES512'', ''EdDSA'']"

definition hs_algs :: "string list" where
  "hs_algs = [''HS256'', ''HS384'', ''HS512'']"

definition dpop_algs_list :: "string list" where
  "dpop_algs_list = sort dpop_allowed_algs"

definition min_rsa_bits :: nat where
  "min_rsa_bits = 2048"

section \<open>JWT and JWK helpers\<close>

definition parse_jwt_header :: "jwt_lib \<Rightarrow> string \<Rightarrow> json result" where
  "parse_jwt_header lib token =
     (let parts = split_on (CHR ''.'') token in
      if length parts \<noteq> 3 then Inl (auth_error ''malformed JWT'')
      else case unb64 (parts ! 0) of
             None \<Rightarrow> Inl (auth_error ''cannot decode JWT header'')
           | Some bs \<Rightarrow> (case lib_loads lib bs of
               None \<Rightarrow> Inl (auth_error ''cannot decode JWT header'') | Some v \<Rightarrow> Inr v))"

definition import_jwk :: "jwt_lib \<Rightarrow> (string, json) dict \<Rightarrow> unit result" where
  "import_jwk lib jwk =
     (let kty = get_or_null jwk ''kty'' in
      if kty = JStr ''EC'' \<or> kty = JStr ''RSA'' \<or> kty = JStr ''oct''
      then require (lib_import lib (JObj jwk)) (PyExc OtherError ''import_key'')
      else Inl (auth_error ''unsupported JWK kty''))"

definition required_members :: "json \<Rightarrow> string list option" where
  "required_members kty =
     (if kty = JStr ''EC'' then Some [''crv'', ''kty'', ''x'', ''y'']
      else if kty = JStr ''RSA'' then Some [''e'', ''kty'', ''n'']
      else if kty = JStr ''oct'' then Some [''k'', ''kty'']
      else None)"

text \<open>The members of the thumbprint body, in the order \<open>sorted(required)\<close>.\<close>

definition thumbprint_body :: "string list \<Rightarrow> (string, json) dict \<Rightarrow> (string, json) dict" where
  "thumbprint_body ks jwk = map (\<lambda>k. (k, get_or_null jwk k)) (filter (\<lambda>k. dhas jwk k) ks)"

definition jwk_thumbprint :: "jwt_lib \<Rightarrow> (string, json) dict \<Rightarrow> string result" where
  "jwk_thumbprint lib jwk = (case required_members (get_or_null jwk ''kty'') of
     None \<Rightarrow> Inl (auth_error ''cannot compute thumbprint'')
   | Some ks \<Rightarrow> Inr (b64_url (lib_sha256 lib
       (utf8 (dumps_canon (lib_float_repr lib) (JObj (thumbprint_body ks jwk)))))))"

definition check_rsa_key_size :: "(string, json) dict \<Rightarrow> unit result" where
  "check_rsa_key_size jwk =
     (let n_b64 = (case dget jwk ''n'' of None \<Rightarrow> JStr [] | Some v \<Rightarrow> v) in
      if \<not> truthy n_b64 then Inr ()
      else case n_b64 of
             JStr s \<Rightarrow> (case unb64 s of
                 None \<Rightarrow> Inl (auth_error ''RSA modulus malformed'')
               | Some bs \<Rightarrow> require (\<not> length bs * 8 < min_rsa_bits) (auth_error ''RSA key too short''))
           | _ \<Rightarrow> Inl (auth_error ''RSA modulus malformed''))"

definition require_int_claim :: "(string, json) dict \<Rightarrow> string \<Rightarrow> unit result" where
  "require_int_claim claims key =
     (let v = get_or_null claims key in
      require (v = JNull \<or> num_val v \<noteq> None) (auth_error (key @ '' claim must be numeric'')))"

section \<open>The engine's configuration and state\<close>

record 's auth_engine =
  au_require_dpop :: bool
  au_require_cnf_binding :: bool
  au_require_jti :: bool
  au_token_expiry_max :: int
  au_issuer :: string       \<comment> \<open>empty when not configured\<close>
  au_audience :: string     \<comment> \<open>empty when not configured\<close>
  au_dpop_max_age :: int
  au_dpop_future_skew :: int
  au_endpoint_uri :: "string option"
  au_jti_cache :: jti_cache
  au_dpop_store :: 's
  au_jwks :: "(string, json) dict option"
  au_access_algs :: "string list"

definition load_keys :: "jwt_lib \<Rightarrow> (string, json) dict \<Rightarrow> unit result" where
  "load_keys lib jwks = (if dhas jwks ''keys''
     then require (lib_import lib (JObj jwks)) (PyExc OtherError ''import_key_set'')
     else import_jwk lib jwks)"

text \<open>The dictionaries among the keys; the rest of the list does not count.\<close>

fun obj_ktys :: "json list \<Rightarrow> json list" where
  "obj_ktys [] = []"
| "obj_ktys (JObj kd # ks) = get_or_null kd ''kty'' # obj_ktys ks"
| "obj_ktys (_ # ks) = obj_ktys ks"

definition jwks_key_dicts :: "(string, json) dict \<Rightarrow> json list result" where
  "jwks_key_dicts jwks = (case dget jwks ''keys'' of
     None \<Rightarrow> Inr [JObj jwks]
   | Some v \<Rightarrow> if \<not> truthy v then Inr []
       else (case v of
           JArr ks \<Rightarrow> Inr ks
         | JObj d \<Rightarrow> Inr (map (\<lambda>p. JStr (fst p)) d)
         | JStr s \<Rightarrow> Inr (map (\<lambda>c. JStr [c]) s)
         | _ \<Rightarrow> Inl (PyExc TypeError ''not iterable'')))"

definition compute_access_token_algs :: "(string, json) dict \<Rightarrow> string list result" where
  "compute_access_token_algs jwks =
     bindR (jwks_key_dicts jwks) (\<lambda>ks.
       if list_ex (\<lambda>k. \<not> is_ok (hash_key k)) (obj_ktys ks)
       then Inl (PyExc TypeError ''unhashable kty'')
       else Inr (sort (dpop_allowed_algs
              @ (if set (obj_ktys ks) = {JStr ''oct''} then hs_algs else []))))"

definition new_auth_engine :: "jwt_lib \<Rightarrow> bool \<Rightarrow> bool \<Rightarrow> nat \<Rightarrow> int \<Rightarrow> (string, json) dict option
    \<Rightarrow> string \<Rightarrow> string \<Rightarrow> int \<Rightarrow> int \<Rightarrow> string option \<Rightarrow> bool \<Rightarrow> 's \<Rightarrow> 's auth_engine result" where
  "new_auth_engine lib rdpop rjti cache_size expiry_max jwks iss aud max_age skew uri rcnf store =
     bindR (case jwks of None \<Rightarrow> Inr () | Some k \<Rightarrow> load_keys lib k) (\<lambda>_.
     bindR (case jwks of None \<Rightarrow> Inr dpop_algs_list | Some k \<Rightarrow> compute_access_token_algs k) (\<lambda>algs.
     Inr \<lparr>au_require_dpop = rdpop, au_require_cnf_binding = rcnf, au_require_jti = rjti,
       au_token_expiry_max = expiry_max, au_issuer = iss, au_audience = aud,
       au_dpop_max_age = max_age, au_dpop_future_skew = skew, au_endpoint_uri = uri,
       au_jti_cache = new_jti_cache cache_size, au_dpop_store = store, au_jwks = jwks,
       au_access_algs = algs\<rparr>))"

definition auth_on_startup :: "'s auth_engine \<Rightarrow> unit result" where
  "auth_on_startup e =
     (if au_jwks e = None then Inl (PyExc ValueError ''jwks= is required'')
      else if au_require_dpop e \<and> au_endpoint_uri e = None
      then Inl (PyExc ValueError ''require_dpop needs endpoint_uri'')
      else Inr ())"

section \<open>Access tokens\<close>

text \<open>The clock readings of one request: the claim checks, the two caches, the proof check.\<close>

record auth_env =
  now_claims :: time
  now_jti :: time
  now_proof :: time
  now_dpop_jti :: time

definition check_times :: "time \<Rightarrow> (string, json) dict \<Rightarrow> unit result" where
  "check_times now claims =
     bindR (require_int_claim claims ''exp'') (\<lambda>_.
     bindR (require_int_claim claims ''iat'') (\<lambda>_.
     bindR (require_int_claim claims ''nbf'') (\<lambda>_.
     case num_val (get_or_null claims ''exp'') of
       None \<Rightarrow> Inl (auth_error ''missing exp'')
     | Some ex \<Rightarrow>
         if pf_lt ex (Fin now) then Inl (auth_error ''expired'')
         else case num_val (get_or_null claims ''nbf'') of
           Some nbf \<Rightarrow> if pf_lt (Fin now) nbf then Inl (auth_error ''not yet valid'') else Inr ()
         | None \<Rightarrow> Inr ())))"

definition check_issued_at :: "time \<Rightarrow> int \<Rightarrow> (string, json) dict \<Rightarrow> unit result" where
  "check_issued_at now max_age claims =
     (let iat = get_or_null claims ''iat'' in
      if iat = JNull then Inr ()
      else bindR (to_float iat) (\<lambda>x.
        require (\<not> pf_lt (Fin (of_int max_age)) (pf_minus now x)) (auth_error ''issued too long ago'')))"

text \<open>\<open>self._audience not in aud\<close>, after a string audience was made a list.\<close>

definition audience_ok :: "string \<Rightarrow> json \<Rightarrow> bool result" where
  "audience_ok audience aud0 =
     (let aud = (case aud0 of JStr s \<Rightarrow> JArr [JStr s] | _ \<Rightarrow> aud0) in
      if \<not> truthy aud then Inr False
      else case aud of
             JArr xs \<Rightarrow> Inr (JStr audience \<in> set xs)
           | JObj d \<Rightarrow> Inr (dhas d audience)
           | _ \<Rightarrow> Inl (PyExc TypeError ''not iterable''))"

definition check_parties :: "'s auth_engine \<Rightarrow> (string, json) dict \<Rightarrow> unit result" where
  "check_parties e claims =
     bindR (require (au_issuer e = [] \<or> get_or_null claims ''iss'' = JStr (au_issuer e))
        (auth_error ''issuer mismatch'')) (\<lambda>_.
     if au_audience e = [] then Inr ()
     else bindR (audience_ok (au_audience e) (get_or_null claims ''aud'')) (\<lambda>ok.
       require ok (auth_error ''audience mismatch'')))"

definition check_claims :: "time \<Rightarrow> 's auth_engine \<Rightarrow> (string, json) dict \<Rightarrow> unit result" where
  "check_claims now e claims =
     bindR (check_times now claims) (\<lambda>_.
     bindR (check_issued_at now (au_token_expiry_max e) claims) (\<lambda>_.
     check_parties e claims))"

definition decode_access :: "jwt_lib \<Rightarrow> 's auth_engine \<Rightarrow> string \<Rightarrow> (string, json) dict result" where
  "decode_access lib e token = (case au_jwks e of
     None \<Rightarrow> Inl (auth_error ''no JWKS configured'')
   | Some jwks \<Rightarrow> (case lib_decode lib (JObj jwks) token (au_access_algs e) of
       None \<Rightarrow> Inl (auth_error ''JWT verification failed'') | Some claims \<Rightarrow> Inr claims))"

definition track_jti :: "time \<Rightarrow> (string, json) dict \<Rightarrow> 's auth_engine
    \<Rightarrow> unit result \<times> 's auth_engine" where
  "track_jti now claims e =
     (let jti = get_or_null claims ''jti'' in
      if jti = JNull then (require (\<not> au_require_jti e) (auth_error ''missing jti''), e)
      else case to_float (get_or_null claims ''exp'') of
             Inl x \<Rightarrow> (Inl x, e)
           | Inr ex \<Rightarrow> (case jti_check_and_add now jti ex (au_jti_cache e) of
               (r, st) \<Rightarrow> (bindR r (\<lambda>fresh. require fresh (auth_error ''JTI replayed'')),
                            e\<lparr>au_jti_cache := st\<rparr>)))"

definition verify_access_token :: "jwt_lib \<Rightarrow> auth_env \<Rightarrow> string \<Rightarrow> 's auth_engine
    \<Rightarrow> (string, json) dict result \<times> 's auth_engine" where
  "verify_access_token lib env token e =
     (case bindR (decode_access lib e token) (\<lambda>claims.
             bindR (check_claims (now_claims env) e claims) (\<lambda>_. Inr claims)) of
        Inl x \<Rightarrow> (Inl x, e)
      | Inr claims \<Rightarrow> (case track_jti (now_jti env) claims e of
          (r, e') \<Rightarrow> (bindR r (\<lambda>_. Inr claims), e')))"

section \<open>DPoP proofs\<close>

definition str_method :: "json \<Rightarrow> string result" where
  "str_method v = (case v of JStr s \<Rightarrow> Inr s | _ \<Rightarrow> Inl (PyExc AttributeError ''not a string''))"

definition rstrip_slash :: "string \<Rightarrow> string" where
  "rstrip_slash s = rstrip_of (\<lambda>c. c = CHR ''/'') s"

definition proof_jwk :: "json \<Rightarrow> (string, json) dict result" where
  "proof_jwk header = (case header of
     JObj h \<Rightarrow>
       if get_or_null h ''typ'' \<noteq> JStr ''dpop+jwt'' then Inl (auth_error ''typ'')
       else bindR (case dget h ''alg'' of None \<Rightarrow> Inr (JStr []) | Some a \<Rightarrow> hash_key a) (\<lambda>alg.
         if alg \<notin> JStr ` set dpop_allowed_algs then Inl (auth_error ''alg'')
         else case get_or_null h ''jwk'' of
           JObj jwk \<Rightarrow>
             if jwk = [] then Inl (auth_error ''missing JWK'')
             else if dhas jwk ''d'' then Inl (auth_error ''private key'')
             else if get_or_null jwk ''kty'' = JStr ''RSA''
               then bindR (check_rsa_key_size jwk) (\<lambda>_. Inr jwk)
             else Inr jwk
         | _ \<Rightarrow> Inl (auth_error ''missing JWK''))
   | _ \<Rightarrow> Inl (PyExc AttributeError ''header is not a dict''))"

definition decode_proof :: "jwt_lib \<Rightarrow> (string, json) dict \<Rightarrow> string \<Rightarrow> (string, json) dict result" where
  "decode_proof lib jwk token = (case import_jwk lib jwk of
     Inl (Cosai c site) \<Rightarrow> Inl (Cosai c site)
   | Inl _ \<Rightarrow> Inl (auth_error ''DPoP proof signature invalid'')
   | Inr _ \<Rightarrow> (case lib_decode lib (JObj jwk) token dpop_algs_list of
       None \<Rightarrow> Inl (auth_error ''DPoP proof signature invalid'') | Some claims \<Rightarrow> Inr claims))"

definition check_proof_iat :: "time \<Rightarrow> 's auth_engine \<Rightarrow> (string, json) dict \<Rightarrow> unit result" where
  "check_proof_iat now e claims =
     bindR (require_int_claim claims ''iat'') (\<lambda>_.
     if get_or_null claims ''iat'' = JNull then Inl (auth_error ''proof missing iat'')
     else bindR (to_float (get_or_null claims ''iat'')) (\<lambda>iat.
       if pf_lt (Fin (of_int (au_dpop_max_age e))) (pf_minus now iat)
       then Inl (auth_error ''proof iat too old'')
       else if (case iat of Fin x \<Rightarrow> x - now > of_int (au_dpop_future_skew e)
                  | PosInf \<Rightarrow> True | _ \<Rightarrow> False)
       then Inl (auth_error ''proof iat in the future'')
       else Inr ()))"

definition check_htu :: "'s auth_engine \<Rightarrow> (string, json) dict \<Rightarrow> unit result" where
  "check_htu e claims = (case au_endpoint_uri e of
     None \<Rightarrow> Inl (auth_error ''endpoint URI not configured'')
   | Some uri \<Rightarrow> bindR (str_method (case dget claims ''htu'' of None \<Rightarrow> JStr [] | Some v \<Rightarrow> v)) (\<lambda>htu.
       require (rstrip_slash htu = rstrip_slash uri) (auth_error ''htu mismatch'')))"

definition check_htm :: "string \<Rightarrow> (string, json) dict \<Rightarrow> unit result" where
  "check_htm http_method claims =
     bindR (str_method (case dget claims ''htm'' of None \<Rightarrow> JStr [] | Some v \<Rightarrow> v)) (\<lambda>htm.
       require (upper htm = upper http_method) (auth_error ''htm mismatch''))"

definition check_ath :: "jwt_lib \<Rightarrow> string \<Rightarrow> (string, json) dict \<Rightarrow> unit result" where
  "check_ath lib access_token claims =
     (if \<not> is_ascii access_token then Inl (PyExc ValueError ''UnicodeEncodeError'')
      else require (get_or_null claims ''ath'' = JStr (b64_url (lib_sha256 lib (utf8 access_token))))
        (auth_error ''ath mismatch''))"

definition check_cnf :: "jwt_lib \<Rightarrow> (string, json) dict \<Rightarrow> (string, json) dict \<Rightarrow> unit result" where
  "check_cnf lib jwk token_claims = (case get_or_null token_claims ''cnf'' of
     JObj cnf \<Rightarrow>
       if truthy (get_or_null cnf ''jkt'')
       then bindR (jwk_thumbprint lib jwk) (\<lambda>actual.
         require (get_or_null cnf ''jkt'' = JStr actual) (auth_error ''cnf.jkt mismatch''))
       else Inr ()
   | _ \<Rightarrow> Inr ())"

text \<open>Everything before the replay check, and everything after it.\<close>

definition proof_claims :: "jwt_lib \<Rightarrow> auth_env \<Rightarrow> string \<Rightarrow> string \<Rightarrow> 's auth_engine
    \<Rightarrow> ((string, json) dict \<times> (string, json) dict) result" where
  "proof_claims lib env dpop http_method e =
     bindR (parse_jwt_header lib dpop) (\<lambda>header.
     bindR (proof_jwk header) (\<lambda>jwk.
     bindR (decode_proof lib jwk dpop) (\<lambda>claims.
     bindR (check_proof_iat (now_proof env) e claims) (\<lambda>_.
     bindR (check_htu e claims) (\<lambda>_.
     bindR (check_htm http_method claims) (\<lambda>_.
     if truthy (get_or_null claims ''jti'') then Inr (jwk, claims)
     else Inl (auth_error ''proof missing jti'')))))))"

definition verify_dpop :: "jwt_lib \<Rightarrow> 's replay_check \<Rightarrow> auth_env \<Rightarrow> string \<Rightarrow> string
    \<Rightarrow> (string, json) dict \<Rightarrow> string \<Rightarrow> 's auth_engine \<Rightarrow> unit result \<times> 's auth_engine" where
  "verify_dpop lib check env dpop access_token token_claims http_method e =
     (case proof_claims lib env dpop http_method e of
        Inl x \<Rightarrow> (Inl x, e)
      | Inr (jwk, claims) \<Rightarrow>
          (case check (now_dpop_jti env) (get_or_null claims ''jti'')
              (Fin (now_proof env + of_int (au_dpop_max_age e))) (au_dpop_store e) of
             (r, st) \<Rightarrow>
               (bindR r (\<lambda>fresh. bindR (require fresh (auth_error ''DPoP JTI replayed'')) (\<lambda>_.
                bindR (check_ath lib access_token claims) (\<lambda>_.
                check_cnf lib jwk token_claims))),
                e\<lparr>au_dpop_store := st\<rparr>)))"

section \<open>The request hook\<close>

definition check_session_binding :: "(string, json) dict \<Rightarrow> string \<Rightarrow> unit result" where
  "check_session_binding claims sid =
     (let bound = or_else (get_or_null claims ''sid'') (get_or_null claims ''session_id'') in
      require (\<not> truthy bound \<or> bound = JStr sid) (auth_error ''session binding (T1-003)''))"

definition parse_credentials :: "'s auth_engine \<Rightarrow> mcp_request \<Rightarrow> (string \<times> string) result" where
  "parse_credentials e req =
     (let auth_header = (case dget (rq_headers req) ''authorization'' of None \<Rightarrow> [] | Some h \<Rightarrow> h);
          dpop = (case dget (rq_headers req) ''dpop'' of None \<Rightarrow> [] | Some h \<Rightarrow> h)
      in case split_ws1 auth_header of
           [p0, p1] \<Rightarrow>
             (let scheme = lower p0; access_token = strip p1 in
              if scheme \<noteq> ''bearer'' \<and> scheme \<noteq> ''dpop'' then Inl (auth_error ''unsupported scheme'')
              else if access_token = [] then Inl (auth_error ''empty token'')
              else if dpop \<noteq> [] \<and> scheme = ''bearer'' then Inl (auth_error ''proof with Bearer'')
              else if au_require_dpop e \<and> scheme \<noteq> ''dpop'' then Inl (auth_error ''DPoP scheme required'')
              else if au_require_dpop e \<and> dpop = [] then Inl (auth_error ''DPoP proof absent'')
              else Inr (access_token, dpop))
         | _ \<Rightarrow> Inl (auth_error ''malformed Authorization header''))"

definition cnf_jkt :: "(string, json) dict \<Rightarrow> json" where
  "cnf_jkt claims = (case get_or_null claims ''cnf'' of JObj cnf \<Rightarrow> get_or_null cnf ''jkt'' | _ \<Rightarrow> JNull)"

definition check_sender_constraint :: "'s auth_engine \<Rightarrow> string \<Rightarrow> (string, json) dict \<Rightarrow> unit result" where
  "check_sender_constraint e dpop claims =
     bindR (require (\<not> (truthy (cnf_jkt claims) \<and> dpop = [])) (auth_error ''DPoP proof required'')) (\<lambda>_.
     require (\<not> (au_require_cnf_binding e \<and> (au_require_dpop e \<or> dpop \<noteq> [])
        \<and> \<not> truthy (cnf_jkt claims))) (auth_error ''token not sender-constrained''))"

definition token_scopes :: "(json \<Rightarrow> string) \<Rightarrow> (string, json) dict \<Rightarrow> string list" where
  "token_scopes repr claims = (case get_or_null claims ''scopes'' of
     JArr ss \<Rightarrow> map (str_of repr) ss
   | _ \<Rightarrow> (case get_or_null claims ''scope'' of JStr s \<Rightarrow> split_ws s | _ \<Rightarrow> []))"

definition identify :: "(json \<Rightarrow> string) \<Rightarrow> ctx \<Rightarrow> (string, json) dict \<Rightarrow> ctx result" where
  "identify repr c claims =
     (let sub = or_else (get_or_null claims ''sub'')
            (case dget claims ''client_id'' of None \<Rightarrow> JStr [] | Some v \<Rightarrow> v);
          ten = get_or_null claims ''tenant_id'';
          tid = get_or_null claims ''tid''
      in if ten \<noteq> JNull \<and> tid \<noteq> JNull \<and> \<not> py_eq ten tid
         then Inl (auth_error ''conflicting tenant claims'')
         else Inr (with_scopes (with_user c sub (or_else ten tid)) (token_scopes repr claims)))"

definition auth_on_request :: "jwt_lib \<Rightarrow> 's replay_check \<Rightarrow> auth_env \<Rightarrow> 's auth_engine request_hook_fn" where
  "auth_on_request lib check env c req e =
     (case parse_credentials e req of
        Inl x \<Rightarrow> (Inl x, e)
      | Inr (access_token, dpop) \<Rightarrow>
          (case verify_access_token lib env access_token e of
             (Inl x, e1) \<Rightarrow> (Inl x, e1)
           | (Inr claims, e1) \<Rightarrow>
               (case bindR (check_session_binding claims (session_id c)) (\<lambda>_.
                       check_sender_constraint e1 dpop claims) of
                  Inl x \<Rightarrow> (Inl x, e1)
                | Inr _ \<Rightarrow>
                    (case (if dpop \<noteq> [] then verify_dpop lib check env dpop access_token claims ''POST'' e1
                           else (Inr (), e1)) of
                       (Inl x, e2) \<Rightarrow> (Inl x, e2)
                     | (Inr _, e2) \<Rightarrow> (identify (lib_repr lib) c claims, e2)))))"

section \<open>The cache meets the replay contract\<close>

definition jti_live :: "jti_cache \<Rightarrow> json \<Rightarrow> pyfloat option" where
  "jti_live st = dget (jc_entries st)"

definition jti_inv :: "jti_cache \<Rightarrow> bool" where
  "jti_inv st = (wf_dict (jc_entries st) \<and> length (jc_entries st) \<le> jc_maxsize st)"

lemma new_jti_inv [simp]: "jti_inv (new_jti_cache n)"
  by (simp add: jti_inv_def new_jti_cache_def)

interpretation jti: replay_store jti_check_and_add hash_key jti_live jti_inv "\<lambda>u now. pf_le u (Fin now)"
proof unfold_locales
  fix s :: jti_cache and now j ex
  let ?live = "filter (\<lambda>e. \<not> pf_le (snd e) (Fin now)) (jc_entries s)"
  assume inv: "jti_inv s"
  then have wf: "wf_dict ?live" and len: "length ?live \<le> jc_maxsize s"
    by (auto simp: jti_inv_def intro: le_trans [OF length_filter_le])
  show "jti_inv (snd (jti_check_and_add now j ex s))"
    using wf len length_update_le [of _ ex ?live]
    by (auto simp: jti_check_and_add_def Let_def jti_inv_def length_update_new split: sum.splits)
  show "jti_live s' k = Some ex \<and> (\<forall>u. jti_live s k = Some u \<longrightarrow> pf_le u (Fin now))"
    if "jti_check_and_add now j ex s = (Inr True, s')" "hash_key j = Inr k" for s' k
    using that inv
    by (auto simp: jti_check_and_add_def Let_def jti_live_def jti_inv_def update_conv' dhas_conv_dget
        dget_filter split: if_splits)
  show "jti_live (snd (jti_check_and_add now j ex s)) k = Some u"
    if "jti_live s k = Some u" "\<not> pf_le u (Fin now)" for k u
  proof -
    have lk: "dget ?live k = Some u"
      using that inv by (simp add: jti_live_def jti_inv_def dget_filter)
    then have "dhas ?live k" by (auto simp: dhas_conv_dget simp del: set_filter)
    with lk show ?thesis
      by (auto simp: jti_check_and_add_def Let_def jti_live_def update_conv' simp del: set_filter
          split: sum.splits)
  qed
qed

section \<open>What a hook does to the engine\<close>

text \<open>The claims of the token a request carries, as the engine's keys decode it.\<close>

definition request_token :: "jwt_lib \<Rightarrow> 's auth_engine \<Rightarrow> mcp_request
    \<Rightarrow> (string \<times> string \<times> (string, json) dict) result" where
  "request_token lib e req = bindR (parse_credentials e req) (\<lambda>(token, dpop).
     bindR (decode_access lib e token) (\<lambda>claims. Inr (token, dpop, claims)))"

lemma verify_access_token_ok:
  "verify_access_token lib env token e = (Inr claims, e') \<longleftrightarrow>
     decode_access lib e token = Inr claims \<and> check_claims (now_claims env) e claims = Inr ()
     \<and> track_jti (now_jti env) claims e = (Inr (), e')"
  by (auto simp: verify_access_token_def bindR_eq_Inr bindR_eq_Inl split: sum.splits prod.splits)

lemma verify_access_token_state:
  "snd (verify_access_token lib env token e) = e \<or>
   (\<exists>claims. snd (verify_access_token lib env token e) = snd (track_jti (now_jti env) claims e))"
  by (cases "bindR (decode_access lib e token) (\<lambda>claims.
        bindR (check_claims (now_claims env) e claims) (\<lambda>_. Inr claims))")
     (auto simp: verify_access_token_def case_prod_beta)

lemma verify_dpop_ok:
  "verify_dpop lib check env dpop token tc m e = (Inr (), e') \<longleftrightarrow>
     (\<exists>jwk claims st. proof_claims lib env dpop m e = Inr (jwk, claims)
        \<and> check (now_dpop_jti env) (get_or_null claims ''jti'')
            (Fin (now_proof env + of_int (au_dpop_max_age e))) (au_dpop_store e) = (Inr True, st)
        \<and> check_ath lib token claims = Inr () \<and> check_cnf lib jwk tc = Inr ()
        \<and> e' = e\<lparr>au_dpop_store := st\<rparr>)"
  by (auto simp: verify_dpop_def bindR_eq_Inr split: sum.splits prod.splits)

lemma verify_dpop_state:
  "snd (verify_dpop lib check env dpop token tc m e) = e \<or>
   (\<exists>now j x. snd (verify_dpop lib check env dpop token tc m e)
      = e\<lparr>au_dpop_store := snd (check now j x (au_dpop_store e))\<rparr> \<and> now = now_dpop_jti env)"
  by (cases "proof_claims lib env dpop m e") (auto simp: verify_dpop_def case_prod_beta)

lemma track_jti_state:
  "snd (track_jti now claims e) = e \<or>
   (\<exists>j x. snd (track_jti now claims e) = e\<lparr>au_jti_cache := snd (jti_check_and_add now j x (au_jti_cache e))\<rparr>)"
  by (cases "to_float (get_or_null claims ''exp'')") (auto simp: track_jti_def Let_def case_prod_beta)

text \<open>A hook touches the two replay stores, each by at most one call, and nothing else.\<close>

definition same_config :: "'s auth_engine \<Rightarrow> 's auth_engine \<Rightarrow> bool" where
  "same_config e e' \<longleftrightarrow> e' = e\<lparr>au_jti_cache := au_jti_cache e', au_dpop_store := au_dpop_store e'\<rparr>"

lemma same_config_trans: "same_config a b \<Longrightarrow> same_config b c \<Longrightarrow> same_config a c"
  unfolding same_config_def by (cases a; cases b; cases c) simp

lemma auth_on_request_state:
  "\<exists>c1 d1. snd (auth_on_request lib check env c req e) = e\<lparr>au_jti_cache := c1, au_dpop_store := d1\<rparr>
     \<and> (c1 = au_jti_cache e \<or> (\<exists>j x. c1 = snd (jti_check_and_add (now_jti env) j x (au_jti_cache e))))
     \<and> (d1 = au_dpop_store e \<or> (\<exists>j x. d1 = snd (check (now_dpop_jti env) j x (au_dpop_store e))))"
proof -
  have v: "\<exists>c1. snd (verify_access_token lib env t e) = e\<lparr>au_jti_cache := c1\<rparr> \<and>
      (c1 = au_jti_cache e \<or> (\<exists>j x. c1 = snd (jti_check_and_add (now_jti env) j x (au_jti_cache e))))" for t
  proof -
    consider "snd (verify_access_token lib env t e) = e"
      | claims where "snd (verify_access_token lib env t e) = snd (track_jti (now_jti env) claims e)"
      using verify_access_token_state [of lib env t e] by blast
    then show ?thesis
    proof cases
      case 1
      then show ?thesis by (intro exI [of _ "au_jti_cache e"]) simp
    next
      case 2
      with track_jti_state [of "now_jti env" claims e] show ?thesis
        by (auto intro: exI [of _ "au_jti_cache e"])
    qed
  qed
  have d: "\<exists>d1. snd (if dpop \<noteq> [] then verify_dpop lib check env dpop t claims ''POST'' e1 else (Inr (), e1))
        = e1\<lparr>au_dpop_store := d1\<rparr> \<and>
      (d1 = au_dpop_store e1 \<or> (\<exists>j x. d1 = snd (check (now_dpop_jti env) j x (au_dpop_store e1))))"
    for dpop t claims and e1 :: "'a auth_engine"
    using verify_dpop_state [of lib check env dpop t claims "''POST''" e1]
    by (cases "dpop = []") (auto intro: exI [of _ "au_dpop_store e1"])
  obtain r where p: "parse_credentials e req = r" by blast
  show ?thesis
  proof (cases r)
    case (Inl x)
    with p show ?thesis
      by (intro exI [of _ "au_jti_cache e"] exI [of _ "au_dpop_store e"]) (simp add: auth_on_request_def)
  next
    case (Inr tp)
    obtain t dpop where tp: "tp = (t, dpop)" by (cases tp)
    obtain q e1 where q: "verify_access_token lib env t e = (q, e1)" by (cases "verify_access_token lib env t e")
    with v [of t] obtain c1 where e1: "e1 = e\<lparr>au_jti_cache := c1\<rparr>"
      and c1: "c1 = au_jti_cache e \<or> (\<exists>j x. c1 = snd (jti_check_and_add (now_jti env) j x (au_jti_cache e)))"
      by auto
    show ?thesis
    proof (cases "snd (auth_on_request lib check env c req e) = e1")
      case True
      then show ?thesis using e1 c1
        by (intro exI [of _ c1] exI [of _ "au_dpop_store e"]) simp
    next
      case False
      let ?b = "\<lambda>claims. bindR (check_session_binding claims (session_id c))
        (\<lambda>_. check_sender_constraint e1 dpop claims)"
      from False p Inr tp q obtain claims u where q': "q = Inr claims" and b: "?b claims = Inr u"
        by (cases q; cases "?b (projr q)") (auto simp: auth_on_request_def)
      obtain r2 e2 where dp: "(if dpop \<noteq> [] then verify_dpop lib check env dpop t claims ''POST'' e1
          else (Inr (), e1)) = (r2, e2)" by fastforce
      have "snd (auth_on_request lib check env c req e) = e2"
        using p Inr tp q q' b dp by (cases r2) (simp_all add: auth_on_request_def)
      with dp have "snd (auth_on_request lib check env c req e)
          = snd (if dpop \<noteq> [] then verify_dpop lib check env dpop t claims ''POST'' e1 else (Inr (), e1))"
        by simp
      with d [of dpop t claims e1] obtain d1 where
        "snd (auth_on_request lib check env c req e) = e1\<lparr>au_dpop_store := d1\<rparr>"
        "d1 = au_dpop_store e1 \<or> (\<exists>j x. d1 = snd (check (now_dpop_jti env) j x (au_dpop_store e1)))"
        by auto
      then show ?thesis using e1 c1 by (intro exI [of _ c1] exI [of _ d1]) simp
    qed
  qed
qed

lemma auth_on_request_config: "same_config e (snd (auth_on_request lib check env c req e))"
  using auth_on_request_state [of lib check env c req e] by (auto simp: same_config_def)

lemma auth_on_request_ok:
  "auth_on_request lib check env c req e = (Inr d, e') \<longleftrightarrow>
     (\<exists>token dpop claims e1. request_token lib e req = Inr (token, dpop, claims)
        \<and> check_claims (now_claims env) e claims = Inr ()
        \<and> track_jti (now_jti env) claims e = (Inr (), e1)
        \<and> check_session_binding claims (session_id c) = Inr ()
        \<and> check_sender_constraint e1 dpop claims = Inr ()
        \<and> (if dpop \<noteq> [] then verify_dpop lib check env dpop token claims ''POST'' e1 = (Inr (), e')
           else e' = e1)
        \<and> identify (lib_repr lib) c claims = Inr d)"
  (is "?L \<longleftrightarrow> ?R")
proof
  assume ?L
  then show ?R
    by (auto simp: auth_on_request_def request_token_def bindR_eq_Inr bindR_eq_Inl verify_access_token_ok
        split: sum.splits prod.splits if_splits)
next
  assume ?R
  then obtain token dpop claims e1 where rt: "request_token lib e req = Inr (token, dpop, claims)"
    and v: "check_claims (now_claims env) e claims = Inr ()" "track_jti (now_jti env) claims e = (Inr (), e1)"
    and g: "check_session_binding claims (session_id c) = Inr ()" "check_sender_constraint e1 dpop claims = Inr ()"
    and dp: "if dpop \<noteq> [] then verify_dpop lib check env dpop token claims ''POST'' e1 = (Inr (), e') else e' = e1"
    and i: "identify (lib_repr lib) c claims = Inr d" by blast
  from rt have pc: "parse_credentials e req = Inr (token, dpop)" and da: "decode_access lib e token = Inr claims"
    by (auto simp: request_token_def bindR_eq_Inr)
  from da v have "verify_access_token lib env token e = (Inr claims, e1)" by (simp add: verify_access_token_ok)
  with pc g dp i show ?L by (cases "dpop = []") (simp_all add: auth_on_request_def)
qed

lemma identify_fields:
  assumes "identify repr c claims = Inr d"
  shows "get_or_null claims ''tenant_id'' \<noteq> JNull \<and> get_or_null claims ''tid'' \<noteq> JNull
         \<longrightarrow> py_eq (get_or_null claims ''tenant_id'') (get_or_null claims ''tid'')"
    and "truthy (get_or_null claims ''sub'') \<longrightarrow> user_id d = get_or_null claims ''sub''"
    and "tenant_id d = or_else (get_or_null claims ''tenant_id'') (get_or_null claims ''tid'')"
    and "scopes d = token_scopes repr claims"
proof -
  from assms have d: "d = with_scopes (with_user c (or_else (get_or_null claims ''sub'')
      (case dget claims ''client_id'' of None \<Rightarrow> JStr [] | Some v \<Rightarrow> v))
      (or_else (get_or_null claims ''tenant_id'') (get_or_null claims ''tid''))) (token_scopes repr claims)"
    and t: "\<not> (get_or_null claims ''tenant_id'' \<noteq> JNull \<and> get_or_null claims ''tid'' \<noteq> JNull
         \<and> \<not> py_eq (get_or_null claims ''tenant_id'') (get_or_null claims ''tid''))"
    unfolding identify_def Let_def by (simp_all split: if_splits)
  from t show "get_or_null claims ''tenant_id'' \<noteq> JNull \<and> get_or_null claims ''tid'' \<noteq> JNull
         \<longrightarrow> py_eq (get_or_null claims ''tenant_id'') (get_or_null claims ''tid'')" by blast
  from d show "truthy (get_or_null claims ''sub'') \<longrightarrow> user_id d = get_or_null claims ''sub''"
    by (simp add: with_user_def with_scopes_def or_else_def)
  from d show "tenant_id d = or_else (get_or_null claims ''tenant_id'') (get_or_null claims ''tid'')"
    and "scopes d = token_scopes repr claims"
    by (simp_all add: with_user_def with_scopes_def)
qed

lemma identify_frame: "identify repr c claims = Inr d \<Longrightarrow> same_session c d"
  by (auto simp: identify_def Let_def intro: same_session_trans split: if_splits)

interpretation auth_rq: request_hook "auth_on_request lib check env" for lib check env
  by unfold_locales (auto simp: auth_on_request_ok identify_frame)

text \<open>What the checks of a proof establish.\<close>

lemma proof_jwk_no_private: "proof_jwk header = Inr jwk \<Longrightarrow> \<not> dhas jwk ''d''"
  by (cases header)
     (auto simp: proof_jwk_def bindR_eq_Inr simp del: not_None_eq split: if_splits json.splits)

lemma rstrip_slash_Nil [simp]: "rstrip_slash [] = []"
  by (simp add: rstrip_slash_def rstrip_of_def)

lemma check_htu_ok: "check_htu e claims = Inr () \<Longrightarrow> \<exists>uri. au_endpoint_uri e = Some uri
    \<and> (\<exists>htu. dget claims ''htu'' = Some (JStr htu) \<and> rstrip_slash htu = rstrip_slash uri
        \<or> dget claims ''htu'' = None \<and> rstrip_slash uri = [])"
  by (auto simp: check_htu_def str_method_def bindR_eq_Inr split: option.splits json.splits)

lemma check_proof_iat_ok:
  assumes "check_proof_iat now e claims = Inr ()"
  shows "\<exists>iat. to_float (get_or_null claims ''iat'') = Inr iat
    \<and> (iat = NaN \<or> (\<exists>x. iat = Fin x \<and> now - of_int (au_dpop_max_age e) \<le> x
         \<and> x \<le> now + of_int (au_dpop_future_skew e)))"
proof -
  from assms obtain iat where iat: "to_float (get_or_null claims ''iat'') = Inr iat"
    and "\<not> pf_lt (Fin (of_int (au_dpop_max_age e))) (pf_minus now iat)"
    and "\<not> (case iat of Fin x \<Rightarrow> x - now > of_int (au_dpop_future_skew e) | PosInf \<Rightarrow> True | _ \<Rightarrow> False)"
    by (auto simp: check_proof_iat_def bindR_eq_Inr split: if_splits)
  then show ?thesis by (cases iat) auto
qed

section \<open>Runs\<close>

fun auth_run :: "jwt_lib \<Rightarrow> 's replay_check \<Rightarrow> (auth_env \<times> ctx \<times> mcp_request) list
    \<Rightarrow> 's auth_engine \<Rightarrow> 's auth_engine" where
  "auth_run lib check [] e = e"
| "auth_run lib check ((env, c, req) # calls) e =
     auth_run lib check calls (snd (auth_on_request lib check env c req e))"

lemma auth_run_jti:
  "\<exists>ops. au_jti_cache (auth_run lib check calls e) = jti.evolve ops (au_jti_cache e)
     \<and> fst ` set ops \<subseteq> (now_jti \<circ> fst) ` set calls"
proof (induction lib check calls e rule: auth_run.induct)
  case (1 lib check e)
  show ?case by (rule exI [of _ "[]"]) simp
next
  case (2 lib check env c req calls e)
  let ?e = "snd (auth_on_request lib check env c req e)"
  from 2 obtain ops where ops: "au_jti_cache (auth_run lib check calls ?e) = jti.evolve ops (au_jti_cache ?e)"
    "fst ` set ops \<subseteq> (now_jti \<circ> fst) ` set calls" by auto
  from auth_on_request_state [of lib check env c req e] consider "au_jti_cache ?e = au_jti_cache e"
    | j x where "au_jti_cache ?e = snd (jti_check_and_add (now_jti env) j x (au_jti_cache e))" by auto
  then show ?case
  proof cases
    case 1
    with ops show ?thesis by (intro exI [of _ ops]) auto
  next
    case 2
    with ops show ?thesis by (intro exI [of _ "(now_jti env, j, x) # ops"]) auto
  qed
qed

lemma auth_run_dpop:
  "\<exists>ops. au_dpop_store (auth_run lib jti_check_and_add calls e) = jti.evolve ops (au_dpop_store e)
     \<and> fst ` set ops \<subseteq> (now_dpop_jti \<circ> fst) ` set calls"
proof (induction calls arbitrary: e)
  case Nil
  show ?case by (rule exI [of _ "[]"]) simp
next
  case (Cons call calls)
  obtain env c req where call: "call = (env, c, req)" by (cases call)
  let ?e = "snd (auth_on_request lib jti_check_and_add env c req e)"
  from Cons obtain ops where ops:
    "au_dpop_store (auth_run lib jti_check_and_add calls ?e) = jti.evolve ops (au_dpop_store ?e)"
    "fst ` set ops \<subseteq> (now_dpop_jti \<circ> fst) ` set calls" by blast
  from auth_on_request_state [of lib jti_check_and_add env c req e]
  consider "au_dpop_store ?e = au_dpop_store e"
    | j x where "au_dpop_store ?e = snd (jti_check_and_add (now_dpop_jti env) j x (au_dpop_store e))" by auto
  then show ?case
  proof cases
    case 1
    with ops call show ?thesis by (intro exI [of _ ops]) auto
  next
    case 2
    with ops call show ?thesis by (intro exI [of _ "(now_dpop_jti env, j, x) # ops"]) auto
  qed
qed

lemma auth_run_config: "same_config e (auth_run lib check calls e)"
proof (induction lib check calls e rule: auth_run.induct)
  case (2 lib check env c req calls e)
  from auth_on_request_config [of e lib check env c req] 2 show ?case by (auto intro: same_config_trans)
qed (simp add: same_config_def)

lemma jti_accept_hash: "jti_check_and_add now j ex st = (Inr True, st') \<Longrightarrow> \<exists>k. hash_key j = Inr k"
  by (cases "hash_key j") (simp_all add: jti_check_and_add_def Let_def)

lemma track_jti_ok:
  "track_jti now claims e = (Inr (), e') \<Longrightarrow> get_or_null claims ''jti'' \<noteq> JNull \<Longrightarrow>
     \<exists>ex k st. to_float (get_or_null claims ''exp'') = Inr ex
       \<and> jti_check_and_add now (get_or_null claims ''jti'') ex (au_jti_cache e) = (Inr True, st)
       \<and> hash_key (get_or_null claims ''jti'') = Inr k \<and> e' = e\<lparr>au_jti_cache := st\<rparr>"
  using jti_accept_hash
  by (fastforce simp: track_jti_def Let_def bindR_eq_Inr split: sum.splits prod.splits)

lemma auth_accept_jti:
  assumes "auth_on_request lib check env c req e = (Inr d, e')"
    and "request_token lib e req = Inr (token, dpop, claims)" and "get_or_null claims ''jti'' \<noteq> JNull"
  shows "\<exists>ex k. to_float (get_or_null claims ''exp'') = Inr ex \<and> hash_key (get_or_null claims ''jti'') = Inr k
    \<and> jti_check_and_add (now_jti env) (get_or_null claims ''jti'') ex (au_jti_cache e) = (Inr True, au_jti_cache e')"
proof -
  from assms(1,2) obtain e1 where t: "track_jti (now_jti env) claims e = (Inr (), e1)"
    and e': "if dpop \<noteq> [] then verify_dpop lib check env dpop token claims ''POST'' e1 = (Inr (), e') else e' = e1"
    by (auto simp: auth_on_request_ok)
  from e' have "au_jti_cache e' = au_jti_cache e1" by (auto simp: verify_dpop_ok split: if_splits)
  with track_jti_ok [OF t assms(3)] show ?thesis by auto
qed

lemma same_config_fields:
  assumes "same_config e e'"
  shows "au_dpop_max_age e' = au_dpop_max_age e" "au_dpop_future_skew e' = au_dpop_future_skew e"
    "au_endpoint_uri e' = au_endpoint_uri e" "au_jwks e' = au_jwks e" "au_require_dpop e' = au_require_dpop e"
proof -
  from assms obtain c d where "e' = e\<lparr>au_jti_cache := c, au_dpop_store := d\<rparr>"
    by (auto simp: same_config_def)
  then show "au_dpop_max_age e' = au_dpop_max_age e" "au_dpop_future_skew e' = au_dpop_future_skew e"
    "au_endpoint_uri e' = au_endpoint_uri e" "au_jwks e' = au_jwks e" "au_require_dpop e' = au_require_dpop e"
    by simp_all
qed

lemma proof_claims_config:
  assumes "same_config e e'"
  shows "proof_claims lib env dpop m e' = proof_claims lib env dpop m e"
proof -
  have "check_proof_iat now e' = check_proof_iat now e" "check_htu e' = check_htu e" for now
    unfolding check_proof_iat_def [abs_def] check_htu_def [abs_def] same_config_fields [OF assms]
    by (rule refl)+
  then show ?thesis by (simp add: proof_claims_def)
qed

lemma auth_accept_proof:
  assumes "auth_on_request lib check env c req e = (Inr d, e')"
    and "dget (rq_headers req) ''dpop'' = Some dproof" and "dproof \<noteq> []"
  shows "\<exists>jwk pclaims. proof_claims lib env dproof ''POST'' e = Inr (jwk, pclaims)
    \<and> check (now_dpop_jti env) (get_or_null pclaims ''jti'')
        (Fin (now_proof env + of_int (au_dpop_max_age e))) (au_dpop_store e) = (Inr True, au_dpop_store e')"
proof -
  from assms(1) obtain token dpop claims e1 where rt: "request_token lib e req = Inr (token, dpop, claims)"
    and tj: "track_jti (now_jti env) claims e = (Inr (), e1)"
    and dp: "if dpop \<noteq> [] then verify_dpop lib check env dpop token claims ''POST'' e1 = (Inr (), e')
           else e' = e1"
    by (auto simp: auth_on_request_ok)
  from rt assms(2) have "dpop = dproof"
    by (auto simp: request_token_def bindR_eq_Inr parse_credentials_def Let_def split: list.splits if_splits)
  with dp assms(3) have vd: "verify_dpop lib check env dproof token claims ''POST'' e1 = (Inr (), e')" by simp
  from track_jti_state [of "now_jti env" claims e] tj obtain st where e1: "e1 = e\<lparr>au_jti_cache := st\<rparr>"
    by (auto intro: that [of "au_jti_cache e"])
  then have cfg: "same_config e e1" by (simp add: same_config_def)
  from vd e1 show ?thesis unfolding verify_dpop_ok proof_claims_config [OF cfg] by auto
qed

lemma proof_claims_fun:
  "proof_claims lib env1 dpop m e = Inr a \<Longrightarrow> proof_claims lib env2 dpop m e = Inr b \<Longrightarrow> b = a"
  by (auto simp: proof_claims_def bindR_eq_Inr split: if_splits)

lemma proof_claims_fresh:
  "proof_claims lib env dpop m e = Inr (jwk, pclaims) \<Longrightarrow>
     \<exists>iat. to_float (get_or_null pclaims ''iat'') = Inr iat
       \<and> (iat = NaN \<or> (\<exists>x. iat = Fin x \<and> now_proof env - of_int (au_dpop_max_age e) \<le> x
            \<and> x \<le> now_proof env + of_int (au_dpop_future_skew e)))"
  by (intro check_proof_iat_ok) (auto simp: proof_claims_def bindR_eq_Inr split: if_splits)

section \<open>Thumbprints\<close>

lemma dget_thumbprint_body:
  "dget (thumbprint_body ks jwk) k = (if k \<in> set ks then dget jwk k else None)"
  by (induction ks) (auto simp: thumbprint_body_def get_or_null_def dhas_conv_dget split: option.splits)

lemma wf_thumbprint_body: "required_members kty = Some ks \<Longrightarrow> wf_dict (thumbprint_body ks jwk)"
  by (auto simp: required_members_def thumbprint_body_def wf_dict_def comp_def split: if_splits)

lemma required_kty: "required_members kty = Some ks \<Longrightarrow> \<exists>s. kty = JStr s"
  by (auto simp: required_members_def split: if_splits)

lemma get_or_null_str: "get_or_null d k = JStr s \<longleftrightarrow> dget d k = Some (JStr s)"
  by (simp add: get_or_null_def split: option.split)

lemma all_equal_iff: "S = {x} \<longleftrightarrow> S \<noteq> {} \<and> (\<forall>v \<in> S. v = x)"
  by auto

lemma mem_append_if:
  "a \<notin> set xs \<Longrightarrow> set zs = set (xs @ (if C then ys else [])) \<Longrightarrow> a \<in> set ys \<Longrightarrow> a \<in> set zs \<longleftrightarrow> C"
  by (cases C) auto

section \<open>A concrete deployment for the witnesses\<close>

definition demo_jwk :: "(string, json) dict" where
  "demo_jwk = [(''kty'', JStr ''EC''), (''crv'', JStr ''P''), (''x'', JStr ''x''), (''y'', JStr ''y'')]"

definition demo_decode :: "json \<Rightarrow> string \<Rightarrow> string list \<Rightarrow> (string, json) dict option" where
  "demo_decode key token algs =
     (if token = ''t'' then Some [(''exp'', JInt 100), (''jti'', JStr ''a''), (''sub'', JStr ''u'')]
      else if token = ''u'' then Some [(''exp'', JInt 100), (''sub'', JStr ''u''),
        (''cnf'', JObj [(''jkt'', JStr ''AA'')])]
      else Some [(''iat'', JInt 5), (''htu'', JStr ''/''), (''htm'', JStr ''POST''), (''jti'', JStr ''p''),
        (''ath'', JStr ''AA'')])"

definition demo_lib :: jwt_lib where
  "demo_lib = \<lparr>lib_decode = demo_decode, lib_import = (\<lambda>_. True),
     lib_loads = (\<lambda>_. Some (JObj [(''typ'', JStr ''dpop+jwt''), (''alg'', JStr ''ES256''), (''jwk'', JObj demo_jwk)])),
     lib_sha256 = (\<lambda>_. [0]), lib_float_repr = ratio_text, lib_repr = (\<lambda>_. [])\<rparr>"

definition demo_auth :: "bool \<Rightarrow> jti_cache auth_engine" where
  "demo_auth dpop = \<lparr>au_require_dpop = dpop, au_require_cnf_binding = dpop, au_require_jti = \<not> dpop,
     au_token_expiry_max = 3600, au_issuer = [], au_audience = [], au_dpop_max_age = 30,
     au_dpop_future_skew = 5, au_endpoint_uri = Some ''/'', au_jti_cache = new_jti_cache 10,
     au_dpop_store = new_jti_cache 10, au_jwks = Some demo_jwk, au_access_algs = dpop_algs_list\<rparr>"

definition demo_auth_req :: "string \<Rightarrow> string \<Rightarrow> mcp_request" where
  "demo_auth_req auth proof = \<lparr>rq_method = ''ping'', rq_params = [], rq_session_id = ''s'',
     rq_headers = [(''authorization'', auth), (''dpop'', proof)], rq_query = [],
     rq_transport = ''http'', rq_header_pairs = []\<rparr>"

definition demo_times :: "time \<Rightarrow> auth_env" where
  "demo_times t = \<lparr>now_claims = t, now_jti = t, now_proof = t, now_dpop_jti = t\<rparr>"

definition demo_bearer :: "time \<Rightarrow> jti_cache auth_engine \<Rightarrow> ctx result \<times> jti_cache auth_engine" where
  "demo_bearer t e = auth_on_request demo_lib jti_check_and_add (demo_times t) (new_context 0 ''s'' ''http'')
     (demo_auth_req ''Bearer t'' []) e"

definition demo_dpop :: "time \<Rightarrow> jti_cache auth_engine \<Rightarrow> ctx result \<times> jti_cache auth_engine" where
  "demo_dpop t e = auth_on_request demo_lib jti_check_and_add (demo_times t) (new_context 0 ''s'' ''http'')
     (demo_auth_req ''DPoP u'' ''AAAA.b.c'') e"

lemma demo_bearer_twice:
  "is_ok (fst (demo_bearer 0 (demo_auth False)))"
  "is_ok (fst (demo_bearer 100 (snd (demo_bearer 0 (demo_auth False)))))"
  "\<not> is_ok (fst (demo_bearer 99 (snd (demo_bearer 0 (demo_auth False)))))"
  by code_simp+

lemma demo_dpop_twice:
  "is_ok (fst (demo_dpop 0 (demo_auth True)))"
  "is_ok (fst (demo_dpop 33 (snd (demo_dpop 0 (demo_auth True)))))"
  "\<not> is_ok (fst (demo_dpop 29 (snd (demo_dpop 0 (demo_auth True)))))"
  by code_simp+

section \<open>Properties\<close>

text \<open>
  C20: Two requests whose tokens carry the same \<open>jti\<close> are both authenticated only if, between
  them, the clock the replay cache reads has reached the expiry of the first token: within its
  lifetime a token is accepted once, whatever other requests come in between.
\<close>

theorem access_token_replay:
  assumes "jti_inv (au_jti_cache e)"
    and "auth_on_request lib check env1 c1 req1 e = (Inr d1, e1)"
    and "auth_on_request lib check env2 c2 req2 (auth_run lib check calls e1) = (Inr d2, e2)"
    and "request_token lib e req1 = Inr (token1, dpop1, claims1)"
    and "request_token lib (auth_run lib check calls e1) req2 = Inr (token2, dpop2, claims2)"
    and "get_or_null claims1 ''jti'' \<noteq> JNull"
    and "hash_key (get_or_null claims2 ''jti'') = hash_key (get_or_null claims1 ''jti'')"
  shows "\<exists>ex. to_float (get_or_null claims1 ''exp'') = Inr ex
    \<and> (\<exists>now \<in> insert (now_jti env2) ((now_jti \<circ> fst) ` set calls). pf_le ex (Fin now))"
proof -
  from auth_accept_jti [OF assms(2,4,6)] obtain ex k where ex: "to_float (get_or_null claims1 ''exp'') = Inr ex"
    and k: "hash_key (get_or_null claims1 ''jti'') = Inr k"
    and a1: "jti_check_and_add (now_jti env1) (get_or_null claims1 ''jti'') ex (au_jti_cache e)
        = (Inr True, au_jti_cache e1)" by blast
  have "get_or_null claims2 ''jti'' \<noteq> JNull"
    using assms(6,7) by (cases "get_or_null claims1 ''jti''") (auto simp: hash_key_def)
  from auth_accept_jti [OF assms(3,5) this] obtain ex2 where
    a2: "jti_check_and_add (now_jti env2) (get_or_null claims2 ''jti'') ex2
        (au_jti_cache (auth_run lib check calls e1)) = (Inr True, au_jti_cache e2)" by blast
  from auth_run_jti [of lib check calls e1] obtain ops where
    ops: "au_jti_cache (auth_run lib check calls e1) = jti.evolve ops (au_jti_cache e1)"
    "fst ` set ops \<subseteq> (now_jti \<circ> fst) ` set calls" by blast
  have "\<exists>now \<in> insert (now_jti env2) (fst ` set ops). pf_le ex (Fin now)"
    by (rule jti.replay_needs_expiry [OF assms(1) a1 k, where ?x2.0 = ex2]) (use assms(7) k a2 ops in auto)
  with ops(2) ex show ?thesis by blast
qed

theorem access_token_replay_witness:
  "\<exists>ex. to_float (JInt 100) = Inr ex \<and> (\<exists>now \<in> {100 :: rat}. pf_le ex (Fin now))"
proof -
  let ?e = "demo_auth False" and ?c = "new_context 0 ''s'' ''http''" and ?r = "demo_auth_req ''Bearer t'' []"
  let ?cl = "[(''exp'', JInt 100), (''jti'', JStr ''a''), (''sub'', JStr ''u'')]"
  obtain d1 e1 where r1: "demo_bearer 0 ?e = (Inr d1, e1)"
    using demo_bearer_twice(1) by (cases "demo_bearer 0 ?e") (auto simp: is_ok_iff)
  obtain d2 e2 where r2: "demo_bearer 100 (auth_run demo_lib jti_check_and_add [] e1) = (Inr d2, e2)"
    using demo_bearer_twice(2) r1 by (cases "demo_bearer 100 e1") (auto simp: is_ok_iff)
  have tok: "request_token demo_lib e ?r = Inr (''t'', [], ?cl)" if "au_jwks e = Some demo_jwk" "\<not> au_require_dpop e" for e :: "jti_cache auth_engine"
  proof -
    have "split_ws1 ''Bearer t'' = [''Bearer'', ''t'']" "lower ''Bearer'' = ''bearer''" "strip ''t'' = ''t''"
      by code_simp+
    with that show ?thesis by (simp add: request_token_def parse_credentials_def demo_auth_req_def
        decode_access_def demo_lib_def demo_decode_def)
  qed
  have cfg: "same_config ?e e1"
    using auth_on_request_config [of ?e demo_lib jti_check_and_add "demo_times 0" ?c ?r] r1
    by (simp add: demo_bearer_def)
  have "au_jwks e1 = Some demo_jwk" "\<not> au_require_dpop e1"
    using same_config_fields [OF cfg] by (simp_all add: demo_auth_def)
  then have t2: "request_token demo_lib (auth_run demo_lib jti_check_and_add [] e1) ?r = Inr (''t'', [], ?cl)"
    using tok by simp
  have t1: "request_token demo_lib ?e ?r = Inr (''t'', [], ?cl)"
    using tok by (simp add: demo_auth_def)
  have inv: "jti_inv (au_jti_cache ?e)" by (simp add: demo_auth_def)
  from access_token_replay [OF inv r1 [unfolded demo_bearer_def] r2 [unfolded demo_bearer_def] t1 t2]
  show ?thesis by (simp add: get_or_null_def demo_times_def)
qed

text \<open>
  C9: What an authenticated request guarantees: the token decoded under the pinned algorithms,
  its expiry not passed (a \<open>nan\<close> expiry never passes), issuer and session as configured and
  bound, one tenant, and the caller's identity and scopes are those of the token.
\<close>

theorem authenticated_identity:
  assumes "auth_on_request lib check env c req e = (Inr d, e')"
  shows "\<exists>token dpop claims ex. request_token lib e req = Inr (token, dpop, claims)
    \<and> num_val (get_or_null claims ''exp'') = Some ex \<and> (ex = NaN \<or> pf_le (Fin (now_claims env)) ex)
    \<and> (au_issuer e \<noteq> [] \<longrightarrow> get_or_null claims ''iss'' = JStr (au_issuer e))
    \<and> (au_require_jti e \<longrightarrow> get_or_null claims ''jti'' \<noteq> JNull)
    \<and> (truthy (get_or_null claims ''sid'') \<longrightarrow> get_or_null claims ''sid'' = JStr (session_id c))
    \<and> (get_or_null claims ''tenant_id'' \<noteq> JNull \<and> get_or_null claims ''tid'' \<noteq> JNull
         \<longrightarrow> py_eq (get_or_null claims ''tenant_id'') (get_or_null claims ''tid''))
    \<and> (truthy (get_or_null claims ''sub'') \<longrightarrow> user_id d = get_or_null claims ''sub'')
    \<and> tenant_id d = or_else (get_or_null claims ''tenant_id'') (get_or_null claims ''tid'')
    \<and> scopes d = token_scopes (lib_repr lib) claims \<and> same_session c d"
proof -
  from assms obtain token dpop claims e1 where rt: "request_token lib e req = Inr (token, dpop, claims)"
    and cc: "check_claims (now_claims env) e claims = Inr ()"
    and tj: "track_jti (now_jti env) claims e = (Inr (), e1)"
    and sb: "check_session_binding claims (session_id c) = Inr ()"
    and id: "identify (lib_repr lib) c claims = Inr d" by (auto simp: auth_on_request_ok)
  from cc obtain ex where ex: "num_val (get_or_null claims ''exp'') = Some ex" "\<not> pf_lt ex (Fin (now_claims env))"
    by (auto simp: check_claims_def check_times_def bindR_eq_Inr split: option.splits if_splits)
  from ex(2) have "ex = NaN \<or> pf_le (Fin (now_claims env)) ex"
    by (cases ex) (auto simp: pf_le_def)
  moreover from cc have "au_issuer e \<noteq> [] \<longrightarrow> get_or_null claims ''iss'' = JStr (au_issuer e)"
    by (auto simp: check_claims_def check_parties_def bindR_eq_Inr)
  moreover from tj have "au_require_jti e \<longrightarrow> get_or_null claims ''jti'' \<noteq> JNull"
    by (auto simp: track_jti_def)
  moreover from sb have "truthy (get_or_null claims ''sid'') \<longrightarrow> get_or_null claims ''sid'' = JStr (session_id c)"
    by (auto simp: check_session_binding_def or_else_def Let_def)
  ultimately show ?thesis
    using rt ex(1) identify_fields [OF id] identify_frame [OF id] by blast
qed

theorem authenticated_identity_witness:
  "\<exists>d e'. demo_bearer 0 (demo_auth False) = (Inr d, e') \<and> (\<exists>token dpop claims.
     request_token demo_lib (demo_auth False) (demo_auth_req ''Bearer t'' []) = Inr (token, dpop, claims)
     \<and> tenant_id d = or_else (get_or_null claims ''tenant_id'') (get_or_null claims ''tid''))"
proof -
  obtain d e' where r: "demo_bearer 0 (demo_auth False) = (Inr d, e')"
    using demo_bearer_twice(1) by (cases "demo_bearer 0 (demo_auth False)") (auto simp: is_ok_iff)
  from authenticated_identity [OF r [unfolded demo_bearer_def]] r show ?thesis by blast
qed

text \<open>
  C21: With \<open>require_dpop\<close> and \<open>require_cnf_binding\<close> every authenticated request is
  sender-constrained: its proof is signed by the very key whose thumbprint the token carries,
  hashes that token, names this endpoint, and is fresh (or its \<open>iat\<close> is \<open>nan\<close>).
\<close>

theorem dpop_binding:
  assumes "auth_on_request lib check env c req e = (Inr d, e')"
    and "au_require_dpop e" and "au_require_cnf_binding e"
  shows "\<exists>token dpop claims jwk pclaims t iat uri. request_token lib e req = Inr (token, dpop, claims)
    \<and> lib_decode lib (JObj jwk) dpop dpop_algs_list = Some pclaims
    \<and> jwk_thumbprint lib jwk = Inr t \<and> cnf_jkt claims = JStr t \<and> \<not> dhas jwk ''d''
    \<and> get_or_null pclaims ''ath'' = JStr (b64_url (lib_sha256 lib (utf8 token)))
    \<and> au_endpoint_uri e = Some uri
    \<and> (\<exists>htu. dget pclaims ''htu'' = Some (JStr htu) \<and> rstrip_slash htu = rstrip_slash uri
        \<or> dget pclaims ''htu'' = None \<and> rstrip_slash uri = [])
    \<and> to_float (get_or_null pclaims ''iat'') = Inr iat
    \<and> (iat = NaN \<or> (\<exists>x. iat = Fin x \<and> now_proof env - of_int (au_dpop_max_age e) \<le> x
         \<and> x \<le> now_proof env + of_int (au_dpop_future_skew e)))"
proof -
  from assms(1) obtain token dpop claims e1 where rt: "request_token lib e req = Inr (token, dpop, claims)"
    and tj: "track_jti (now_jti env) claims e = (Inr (), e1)"
    and sc: "check_sender_constraint e1 dpop claims = Inr ()"
    and dp: "if dpop \<noteq> [] then verify_dpop lib check env dpop token claims ''POST'' e1 = (Inr (), e')
           else e' = e1"
    by (auto simp: auth_on_request_ok)
  from rt assms(2) have "dpop \<noteq> []"
    by (auto simp: request_token_def bindR_eq_Inr parse_credentials_def Let_def split: list.splits if_splits)
  with dp have vd: "verify_dpop lib check env dpop token claims ''POST'' e1 = (Inr (), e')" by simp
  from track_jti_state [of "now_jti env" claims e] tj obtain st where e1: "e1 = e\<lparr>au_jti_cache := st\<rparr>"
    by (auto intro: that [of "au_jti_cache e"])
  from vd e1 obtain jwk pclaims where pc: "proof_claims lib env dpop ''POST'' e1 = Inr (jwk, pclaims)"
    and ath: "check_ath lib token pclaims = Inr ()" and cnf: "check_cnf lib jwk claims = Inr ()"
    by (auto simp: verify_dpop_ok)
  from sc assms(2,3) e1 have jkt: "truthy (cnf_jkt claims)"
    by (auto simp: check_sender_constraint_def bindR_eq_Inr)
  with cnf obtain t where t: "jwk_thumbprint lib jwk = Inr t" "cnf_jkt claims = JStr t"
    by (auto simp: cnf_jkt_def check_cnf_def bindR_eq_Inr split: json.splits)
  from pc obtain header where hd: "proof_jwk header = Inr jwk"
    and dec: "decode_proof lib jwk dpop = Inr pclaims" and iat: "check_proof_iat (now_proof env) e1 pclaims = Inr ()"
    and htu: "check_htu e1 pclaims = Inr ()"
    by (auto simp: proof_claims_def bindR_eq_Inr split: if_splits)
  from hd have nod: "\<not> dhas jwk ''d''" by (rule proof_jwk_no_private)
  from dec have dec: "lib_decode lib (JObj jwk) dpop dpop_algs_list = Some pclaims"
    by (auto simp: decode_proof_def split: sum.splits exn.splits option.splits)
  from htu e1 obtain uri where uri: "au_endpoint_uri e = Some uri"
    and "\<exists>htu. dget pclaims ''htu'' = Some (JStr htu) \<and> rstrip_slash htu = rstrip_slash uri
        \<or> dget pclaims ''htu'' = None \<and> rstrip_slash uri = []"
    using check_htu_ok [of e1 pclaims] by auto
  moreover from iat e1 obtain x where "to_float (get_or_null pclaims ''iat'') = Inr x"
    "x = NaN \<or> (\<exists>y. x = Fin y \<and> now_proof env - of_int (au_dpop_max_age e) \<le> y
         \<and> y \<le> now_proof env + of_int (au_dpop_future_skew e))"
    using check_proof_iat_ok [of "now_proof env" e1 pclaims] by auto
  moreover from ath have "get_or_null pclaims ''ath'' = JStr (b64_url (lib_sha256 lib (utf8 token)))"
    by (auto simp: check_ath_def split: if_splits)
  ultimately show ?thesis using rt dec t nod uri by blast
qed

theorem dpop_binding_witness:
  "\<exists>d e' claims jwk t. demo_dpop 0 (demo_auth True) = (Inr d, e')
     \<and> jwk_thumbprint demo_lib jwk = Inr t \<and> cnf_jkt claims = JStr t"
proof -
  obtain d e' where r: "demo_dpop 0 (demo_auth True) = (Inr d, e')"
    using demo_dpop_twice(1) by (cases "demo_dpop 0 (demo_auth True)") (auto simp: is_ok_iff)
  from dpop_binding [OF r [unfolded demo_dpop_def]] r show ?thesis by (fastforce simp: demo_auth_def)
qed

text \<open>
  The window in which one DPoP proof can be used twice.  The store remembers a proof for
  \<open>max_age\<close> after its first use, so the second use is after that; the proof itself is still
  fresh until \<open>iat + max_age\<close>, which is later when its \<open>iat\<close> lies in the tolerated future.  The
  witness is such a double use.
\<close>

theorem dpop_replay_window:
  assumes "jti_inv (au_dpop_store e)"
    and "auth_on_request lib jti_check_and_add env1 c1 req1 e = (Inr d1, e1)"
    and "auth_on_request lib jti_check_and_add env2 c2 req2
           (auth_run lib jti_check_and_add calls e1) = (Inr d2, e2)"
    and "dget (rq_headers req1) ''dpop'' = Some dproof" and "dproof \<noteq> []"
    and "dget (rq_headers req2) ''dpop'' = Some dproof"
  shows "\<exists>iat jwk pclaims. proof_claims lib env1 dproof ''POST'' e = Inr (jwk, pclaims)
    \<and> to_float (get_or_null pclaims ''iat'') = Inr iat
    \<and> (\<exists>now \<in> insert (now_dpop_jti env2) ((now_dpop_jti \<circ> fst) ` set calls).
         now_proof env1 + of_int (au_dpop_max_age e) \<le> now)
    \<and> (iat = NaN \<or> (\<exists>x. iat = Fin x \<and> now_proof env2 \<le> x + of_int (au_dpop_max_age e)
         \<and> x \<le> now_proof env1 + of_int (au_dpop_future_skew e)))"
proof -
  let ?e2 = "auth_run lib jti_check_and_add calls e1"
  have cfg1: "same_config e e1" using auth_on_request_config [of e lib jti_check_and_add env1 c1 req1] assms(2) by simp
  have cfg2: "same_config e ?e2"
    by (rule same_config_trans [OF cfg1 auth_run_config])
  from auth_accept_proof [OF assms(2,4,5)] obtain jwk1 p1 where p1: "proof_claims lib env1 dproof ''POST'' e = Inr (jwk1, p1)"
    and a1: "jti_check_and_add (now_dpop_jti env1) (get_or_null p1 ''jti'')
       (Fin (now_proof env1 + of_int (au_dpop_max_age e))) (au_dpop_store e) = (Inr True, au_dpop_store e1)" by blast
  from auth_accept_proof [OF assms(3,6,5)] obtain jwk2 p2 where p2': "proof_claims lib env2 dproof ''POST'' ?e2 = Inr (jwk2, p2)"
    and a2: "jti_check_and_add (now_dpop_jti env2) (get_or_null p2 ''jti'')
       (Fin (now_proof env2 + of_int (au_dpop_max_age ?e2))) (au_dpop_store ?e2) = (Inr True, au_dpop_store e2)" by blast
  have p2: "proof_claims lib env2 dproof ''POST'' e = Inr (jwk2, p2)"
    using p2' proof_claims_config [OF cfg2] by simp
  from proof_claims_fun [OF p1 p2] have same: "jwk2 = jwk1" "p2 = p1" by simp_all
  from jti_accept_hash [OF a1] obtain k where k: "hash_key (get_or_null p1 ''jti'') = Inr k" by blast
  from auth_run_dpop [of lib calls e1] obtain ops where
    ops: "au_dpop_store ?e2 = jti.evolve ops (au_dpop_store e1)"
    "fst ` set ops \<subseteq> (now_dpop_jti \<circ> fst) ` set calls" by blast
  have "\<exists>now \<in> insert (now_dpop_jti env2) (fst ` set ops).
      pf_le (Fin (now_proof env1 + of_int (au_dpop_max_age e))) (Fin now)"
    by (rule jti.replay_needs_expiry [OF assms(1) a1 k k,
          where ?x2.0 = "Fin (now_proof env2 + of_int (au_dpop_max_age ?e2))"])
       (use a2 ops same in simp)
  then have late: "\<exists>now \<in> insert (now_dpop_jti env2) ((now_dpop_jti \<circ> fst) ` set calls).
      now_proof env1 + of_int (au_dpop_max_age e) \<le> now"
    using ops(2) unfolding pf_le_Fin by blast
  from proof_claims_fresh [OF p1] obtain iat where iat: "to_float (get_or_null p1 ''iat'') = Inr iat"
    "iat = NaN \<or> (\<exists>x. iat = Fin x \<and> now_proof env1 - of_int (au_dpop_max_age e) \<le> x
       \<and> x \<le> now_proof env1 + of_int (au_dpop_future_skew e))" by blast
  from proof_claims_fresh [OF p2] same iat(1) have
    "iat = NaN \<or> (\<exists>x. iat = Fin x \<and> now_proof env2 - of_int (au_dpop_max_age e) \<le> x
       \<and> x \<le> now_proof env2 + of_int (au_dpop_future_skew e))" by auto
  with iat(2) have "iat = NaN \<or> (\<exists>x. iat = Fin x \<and> now_proof env2 \<le> x + of_int (au_dpop_max_age e)
         \<and> x \<le> now_proof env1 + of_int (au_dpop_future_skew e))" by (auto simp: algebra_simps)
  with p1 iat(1) late show ?thesis by blast
qed

theorem dpop_replay_window_witness:
  "\<exists>d1 e1 d2 e2. demo_dpop 0 (demo_auth True) = (Inr d1, e1) \<and> demo_dpop 33 e1 = (Inr d2, e2)
     \<and> (\<exists>iat pclaims. to_float (get_or_null pclaims ''iat'') = Inr iat
          \<and> (iat = NaN \<or> (\<exists>x. iat = Fin x \<and> 33 \<le> x + 30 \<and> x \<le> 0 + 5)))"
proof -
  obtain d1 e1 where r1: "demo_dpop 0 (demo_auth True) = (Inr d1, e1)"
    using demo_dpop_twice(1) by (cases "demo_dpop 0 (demo_auth True)") (auto simp: is_ok_iff)
  obtain d2 e2 where r2: "demo_dpop 33 (auth_run demo_lib jti_check_and_add [] e1) = (Inr d2, e2)"
    using demo_dpop_twice(2) r1 by (cases "demo_dpop 33 e1") (auto simp: is_ok_iff)
  have inv: "jti_inv (au_dpop_store (demo_auth True))" by (simp add: demo_auth_def)
  from dpop_replay_window [OF inv r1 [unfolded demo_dpop_def] r2 [unfolded demo_dpop_def],
      where dproof = "''AAAA.b.c''"]
  have "\<exists>iat pclaims. to_float (get_or_null pclaims ''iat'') = Inr iat
      \<and> (iat = NaN \<or> (\<exists>x. iat = Fin x \<and> 33 \<le> x + 30 \<and> x \<le> 0 + 5))"
    by (auto simp: demo_auth_req_def demo_auth_def demo_times_def)
  with r1 r2 show ?thesis by auto
qed

text \<open>
  HMAC algorithms are allowed for access tokens exactly when the key set is non-empty and
  every key object in it is symmetric: one asymmetric key rules them out.
\<close>

theorem hs_algs_only_for_oct:
  assumes "compute_access_token_algs jwks = Inr algs" and "jwks_key_dicts jwks = Inr ks"
    and "a \<in> set hs_algs"
  shows "a \<in> set algs \<longleftrightarrow> (\<exists>kd. JObj kd \<in> set ks) \<and> (\<forall>kd. JObj kd \<in> set ks \<longrightarrow> dget kd ''kty'' = Some (JStr ''oct''))"
proof -
  have mem: "v \<in> set (obj_ktys ks) \<longleftrightarrow> (\<exists>kd. JObj kd \<in> set ks \<and> v = get_or_null kd ''kty'')" for v
    by (induction ks rule: obj_ktys.induct) auto
  have "a \<notin> set dpop_allowed_algs" using assms(3) by (auto simp: hs_algs_def dpop_allowed_algs_def)
  moreover from assms(1) have "set algs = set (dpop_allowed_algs
      @ (if set (obj_ktys ks) = {JStr ''oct''} then hs_algs else []))"
    unfolding compute_access_token_algs_def assms(2) bindR_simps
    by (metis Inl_Inr_False sum.inject(2) set_sort)
  ultimately have "a \<in> set algs \<longleftrightarrow> set (obj_ktys ks) = {JStr ''oct''}"
    using assms(3) by (intro mem_append_if)
  also have "\<dots> \<longleftrightarrow> (\<exists>kd. JObj kd \<in> set ks) \<and> (\<forall>v \<in> set (obj_ktys ks). v = JStr ''oct'')"
  proof -
    have "set (obj_ktys ks) \<noteq> {} \<longleftrightarrow> (\<exists>kd. JObj kd \<in> set ks)"
      by (induction ks rule: obj_ktys.induct) auto
    then show ?thesis by (simp only: all_equal_iff)
  qed
  also have "\<dots> \<longleftrightarrow> (\<exists>kd. JObj kd \<in> set ks)
      \<and> (\<forall>kd. JObj kd \<in> set ks \<longrightarrow> get_or_null kd ''kty'' = JStr ''oct'')"
    unfolding Ball_def mem by metis
  finally show ?thesis by (simp add: get_or_null_str)
qed

theorem hs_algs_only_for_oct_witness:
  "''HS256'' \<notin> set (sort dpop_allowed_algs) \<and> compute_access_token_algs demo_jwk = Inr (sort dpop_allowed_algs)"
proof -
  have c: "compute_access_token_algs demo_jwk = Inr (sort dpop_allowed_algs)"
    by (simp add: compute_access_token_algs_def jwks_key_dicts_def demo_jwk_def get_or_null_def hash_key_def)
  have k: "jwks_key_dicts demo_jwk = Inr [JObj demo_jwk]" by (simp add: jwks_key_dicts_def demo_jwk_def)
  from hs_algs_only_for_oct [OF c k, of "''HS256''"] c show ?thesis
    by (simp add: hs_algs_def demo_jwk_def)
qed

text \<open>
  Two keys with one thumbprint have the same key type and the same required members (up to
  the order of object keys inside a member), or SHA-256 collides: a \<open>cnf.jkt\<close> names one key.
\<close>

theorem thumbprint_binds_key:
  assumes "float_repr_ok (lib_float_repr lib)"
    and "jwk_thumbprint lib jwk1 = Inr t" and "jwk_thumbprint lib jwk2 = Inr t"
  shows "(get_or_null jwk1 ''kty'' = get_or_null jwk2 ''kty''
      \<and> (\<forall>ks. required_members (get_or_null jwk1 ''kty'') = Some ks \<longrightarrow>
           (\<forall>k \<in> set ks. map_option canon (dget jwk1 k) = map_option canon (dget jwk2 k))))
    \<or> (\<exists>m m'. m \<noteq> m' \<and> lib_sha256 lib m = lib_sha256 lib m')"
proof (cases "\<exists>m m'. m \<noteq> m' \<and> lib_sha256 lib m = lib_sha256 lib m'")
  case False
  from assms(2,3) obtain ks1 ks2 where ks: "required_members (get_or_null jwk1 ''kty'') = Some ks1"
    "required_members (get_or_null jwk2 ''kty'') = Some ks2"
    and t: "b64_url (lib_sha256 lib (utf8 (dumps_canon (lib_float_repr lib) (JObj (thumbprint_body ks1 jwk1)))))
      = b64_url (lib_sha256 lib (utf8 (dumps_canon (lib_float_repr lib) (JObj (thumbprint_body ks2 jwk2)))))"
    by (auto simp: jwk_thumbprint_def split: option.splits)
  from t False have eq: "canon (JObj (thumbprint_body ks1 jwk1)) = canon (JObj (thumbprint_body ks2 jwk2))"
    unfolding b64_url_inj by (metis utf8_inj dumps_canon_inj [OF assms(1)])
  have wf: "wf_dict (thumbprint_body ks1 jwk1)" "wf_dict (thumbprint_body ks2 jwk2)"
    using ks by (auto intro: wf_thumbprint_body)
  have members: "map_option canon (if k \<in> set ks1 then dget jwk1 k else None)
      = map_option canon (if k \<in> set ks2 then dget jwk2 k else None)" for k
    using canon_obj_dget [OF eq wf, of k] by (simp add: dget_thumbprint_body)
  have kty: "''kty'' \<in> set ks1" "''kty'' \<in> set ks2" using ks by (auto simp: required_members_def split: if_splits)
  with members [of "''kty''"] have "map_option canon (dget jwk1 ''kty'') = map_option canon (dget jwk2 ''kty'')"
    by simp
  then have same: "get_or_null jwk1 ''kty'' = get_or_null jwk2 ''kty''"
    using required_kty [OF ks(1)] required_kty [OF ks(2)]
    by (auto simp: get_or_null_def split: option.splits)
  with ks have "ks1 = ks2" by simp
  with members ks(1) same show ?thesis by (metis option.inject)
qed simp

theorem thumbprint_binds_key_witness:
  "get_or_null demo_jwk ''kty'' = get_or_null demo_jwk ''kty'' \<and> (\<exists>t. jwk_thumbprint demo_lib demo_jwk = Inr t)"
proof -
  obtain t where t: "jwk_thumbprint demo_lib demo_jwk = Inr t"
    by (simp add: jwk_thumbprint_def demo_jwk_def get_or_null_def required_members_def)
  have "float_repr_ok (lib_float_repr demo_lib)" by (simp add: demo_lib_def ratio_text_ok)
  from thumbprint_binds_key [OF this t t] t show ?thesis by blast
qed

end
