(* ===== verification/AuditLog.thy ===== *)
theory AuditLog
  imports Engine
begin

text \<open>
  T12: the hash-chained audit log (\<open>mcp_armor/engines/audit.py\<close>).  The log file is the list of
  its lines, each with what \<open>json.loads\<close> makes of it; the \<open>.hwm\<close> sidecar and the
  \<open>.hmac_enabled\<close> marker are the other two parts of the disk.  SHA-256 and HMAC (hexadecimal),
  float text, \<open>str\<close> and \<open>int\<close> of a string are the fields of \<open>audit_lib\<close>.  The lemmas show that
  what the writer appends verifies, that a verified head hash determines every record (or
  SHA-256 collides), and what the sidecar proves.
\<close>

section \<open>Disk and library\<close>

datatype log_line = Blank | Garbled | Parsed json

record audit_disk =
  ad_log :: "log_line list option"      \<comment> \<open>\<open>None\<close>: the file does not exist\<close>
  ad_hwm :: "log_line option"
  ad_marker :: bool

record audit_lib =
  al_fr :: "pyfloat \<Rightarrow> string"
  al_sha :: "bytes \<Rightarrow> string"
  al_hmac :: "bytes \<Rightarrow> bytes \<Rightarrow> string"
  al_str :: "json \<Rightarrow> string"
  al_int :: "string \<Rightarrow> int option"

definition chain_error :: "string \<Rightarrow> exn" where
  "chain_error site = Cosai AuditChainError site"

type_synonym record_dict = "(string, json) dict"

section \<open>Canonical form and MACs\<close>

definition record_body :: "record_dict \<Rightarrow> record_dict" where
  "record_body r = filter (\<lambda>p. fst p \<noteq> ''chain_hash'' \<and> fst p \<noteq> ''chain_hmac'') r"

definition canonical :: "audit_lib \<Rightarrow> record_dict \<Rightarrow> bytes" where
  "canonical lib r = utf8 (dumps_canon (al_fr lib) (JObj (record_body r)))"

definition compute_chain_hmac :: "audit_lib \<Rightarrow> bytes \<Rightarrow> bytes \<Rightarrow> string" where
  "compute_chain_hmac lib key canonical_bytes = al_hmac lib key canonical_bytes"

definition hwm_message :: "int \<Rightarrow> string \<Rightarrow> bytes" where
  "hwm_message n head = utf8 (show_int n @ CHR ''.'' # head)"

definition compute_hwm_mac :: "audit_lib \<Rightarrow> bytes \<Rightarrow> int \<Rightarrow> string \<Rightarrow> string" where
  "compute_hwm_mac lib key n head = al_hmac lib key (hwm_message n head)"

definition genesis :: json where
  "genesis = JStr (replicate 64 (CHR ''0''))"

text \<open>\<open>_load_hmac_key\<close>: \<open>fromhex\<close> is the argument; a configuration error is a \<open>ValueError\<close> here.\<close>

definition load_hmac_key :: "(string \<Rightarrow> bytes option) \<Rightarrow> string option \<Rightarrow> bytes option result" where
  "load_hmac_key fromhex env = (let raw = (case env of None \<Rightarrow> [] | Some s \<Rightarrow> strip s) in
     if raw = [] then Inr None
     else case fromhex raw of
            None \<Rightarrow> Inl (PyExc ValueError ''ConfigError: not hex'')
          | Some key \<Rightarrow> if length key < 32 then Inl (PyExc ValueError ''ConfigError: too short'')
              else Inr (Some key))"

section \<open>Sidecar and log I/O\<close>

definition sync_write_hwm :: "audit_lib \<Rightarrow> bytes option \<Rightarrow> int \<Rightarrow> json \<Rightarrow> audit_disk \<Rightarrow> audit_disk" where
  "sync_write_hwm lib key n head d = d\<lparr>ad_hwm := Some (Parsed (JObj
     ([(''count'', JInt n), (''head'', head)]
      @ (case key of None \<Rightarrow> []
         | Some k \<Rightarrow> [(''mac'', JStr (compute_hwm_mac lib k n (str_of (al_str lib) head)))]))))\<rparr>"

definition sync_append_record :: "record_dict \<Rightarrow> audit_disk \<Rightarrow> audit_disk" where
  "sync_append_record r d = d\<lparr>ad_log :=
     Some ((case ad_log d of None \<Rightarrow> [] | Some ls \<Rightarrow> ls) @ [Parsed (JObj r)])\<rparr>"

fun seed_lines :: "log_line list \<Rightarrow> nat \<Rightarrow> json \<Rightarrow> (nat \<times> json) result" where
  "seed_lines [] n prev = Inr (n, prev)"
| "seed_lines (Blank # ls) n prev = seed_lines ls n prev"
| "seed_lines (Garbled # ls) n prev = Inl (chain_error ''malformed during seed-state read'')"
| "seed_lines (Parsed (JObj entry) # ls) n prev = (case dget entry ''chain_hash'' of
     None \<Rightarrow> Inl (chain_error ''malformed during seed-state read'')
   | Some h \<Rightarrow> seed_lines ls (n + 1) h)"
| "seed_lines (Parsed v # ls) n prev = Inl (PyExc TypeError ''not subscriptable by str'')"

definition sync_seed_state :: "audit_disk \<Rightarrow> (nat \<times> json) result" where
  "sync_seed_state d = (case ad_log d of None \<Rightarrow> Inr (0, genesis) | Some ls \<Rightarrow> seed_lines ls 0 genesis)"

text \<open>\<open>_hmac.compare_digest\<close> of a JSON value with a string.\<close>

definition compare_digest_json :: "json \<Rightarrow> string \<Rightarrow> bool result" where
  "compare_digest_json v s = (case v of JStr t \<Rightarrow> compare_digest_str t s
     | _ \<Rightarrow> Inl (PyExc TypeError ''compare_digest''))"

definition check_record_hmac :: "audit_lib \<Rightarrow> bytes option \<Rightarrow> bytes option \<Rightarrow> record_dict \<Rightarrow> unit result" where
  "check_record_hmac lib key key_prev entry = (case key of
     None \<Rightarrow> Inr ()
   | Some k \<Rightarrow>
       (let stored = get_or_null entry ''chain_hmac'' in
        if stored = JNull then Inl (chain_error ''HMAC missing'')
        else bindR (compare_digest_json stored (compute_chain_hmac lib k (canonical lib entry))) (\<lambda>ok.
          if ok then Inr ()
          else case key_prev of
                 None \<Rightarrow> Inl (chain_error ''HMAC mismatch'')
               | Some kp \<Rightarrow> bindR (compare_digest_json stored (compute_chain_hmac lib kp (canonical lib entry))) (\<lambda>ok2.
                   require ok2 (chain_error ''HMAC mismatch'')))))"

definition check_entry :: "audit_lib \<Rightarrow> bytes option \<Rightarrow> bytes option \<Rightarrow> record_dict \<Rightarrow> nat \<Rightarrow> json
    \<Rightarrow> json result" where
  "check_entry lib key key_prev entry n prev =
     (if \<not> py_eq (get_or_null entry ''seq'') (JInt (int n)) then Inl (chain_error ''sequence gap'')
      else if \<not> py_eq (get_or_null entry ''prev_hash'') prev then Inl (chain_error ''prev_hash mismatch'')
      else case dget entry ''chain_hash'' of
             None \<Rightarrow> Inl (chain_error ''missing chain field'')
           | Some stored \<Rightarrow>
               if stored \<noteq> JStr (al_sha lib (canonical lib entry)) then Inl (chain_error ''chain broken'')
               else bindR (check_record_hmac lib key key_prev entry) (\<lambda>_. Inr stored))"

fun verify_lines :: "audit_lib \<Rightarrow> bytes option \<Rightarrow> bytes option \<Rightarrow> log_line list \<Rightarrow> nat \<Rightarrow> json
    \<Rightarrow> (nat \<times> json) result" where
  "verify_lines lib key kp [] n prev = Inr (n, prev)"
| "verify_lines lib key kp (Blank # ls) n prev = verify_lines lib key kp ls n prev"
| "verify_lines lib key kp (Garbled # ls) n prev = Inl (chain_error ''malformed line'')"
| "verify_lines lib key kp (Parsed (JObj entry) # ls) n prev =
     bindR (check_entry lib key kp entry n prev) (\<lambda>h. verify_lines lib key kp ls (n + 1) h)"
| "verify_lines lib key kp (Parsed v # ls) n prev = Inl (PyExc AttributeError ''entry.get'')"

definition parse_hwm :: "audit_lib \<Rightarrow> log_line \<Rightarrow> (record_dict \<times> int \<times> string) result" where
  "parse_hwm lib content = (case content of
     Parsed (JObj data) \<Rightarrow>
       (case dget data ''count'' of
          None \<Rightarrow> Inl (chain_error ''sidecar malformed'')
        | Some c \<Rightarrow> (case py_int (al_int lib) c of
            Inl (PyExc ValueError m) \<Rightarrow> Inl (chain_error ''sidecar malformed'')
          | Inl x \<Rightarrow> Inl x
          | Inr n \<Rightarrow> (case dget data ''head'' of
              None \<Rightarrow> Inl (chain_error ''sidecar malformed'')
            | Some h \<Rightarrow> Inr (data, n, str_of (al_str lib) h))))
   | Parsed _ \<Rightarrow> Inl (PyExc TypeError ''sidecar is not a dict'')
   | _ \<Rightarrow> Inl (chain_error ''sidecar malformed''))"

fun any_digest :: "string \<Rightarrow> string list \<Rightarrow> bool result" where
  "any_digest mac [] = Inr False"
| "any_digest mac (c # cs) = bindR (compare_digest_str mac c) (\<lambda>ok. if ok then Inr True else any_digest mac cs)"

definition sync_read_hwm :: "audit_lib \<Rightarrow> bytes option \<Rightarrow> bytes option \<Rightarrow> audit_disk
    \<Rightarrow> (int \<times> string) option result" where
  "sync_read_hwm lib key key_prev d = (case ad_hwm d of
     None \<Rightarrow> Inr None
   | Some content \<Rightarrow> bindR (parse_hwm lib content) (\<lambda>(data, n, head).
       case key of
         None \<Rightarrow> Inr (Some (n, head))
       | Some k \<Rightarrow>
           (let stored = get_or_null data ''mac'';
                candidates = k # (case key_prev of None \<Rightarrow> [] | Some kp \<Rightarrow> [kp])
            in if stored = JNull then Inl (chain_error ''sidecar has no MAC'')
               else bindR (any_digest (str_of (al_str lib) stored)
                      (map (\<lambda>c. compute_hwm_mac lib c n head) candidates)) (\<lambda>ok.
                 if ok then Inr (Some (n, head)) else Inl (chain_error ''sidecar MAC mismatch'')))))"

definition check_hwm :: "nat \<Rightarrow> json \<Rightarrow> (int \<times> string) option \<Rightarrow> unit result" where
  "check_hwm n prev hwm = (case hwm of
     None \<Rightarrow> require (n = 0) (chain_error ''sidecar absent for a non-empty log'')
   | Some (hwm_count, hwm_head) \<Rightarrow>
       if int n < hwm_count then Inl (chain_error ''log truncated'')
       else if int n = hwm_count \<and> prev \<noteq> JStr hwm_head then Inl (chain_error ''head mismatch'')
       else Inr ())"

definition sync_verify_chain :: "audit_lib \<Rightarrow> bytes option \<Rightarrow> bytes option \<Rightarrow> audit_disk
    \<Rightarrow> (nat \<times> json) result" where
  "sync_verify_chain lib key key_prev d =
     (if ad_marker d \<and> key = None then Inl (chain_error ''HMAC was previously enabled'')
      else case ad_log d of
             None \<Rightarrow> Inl (PyExc FileNotFoundError ''log'')
           | Some ls \<Rightarrow> bindR (verify_lines lib key key_prev ls 0 genesis) (\<lambda>(n, prev).
               bindR (sync_read_hwm lib key key_prev d) (\<lambda>hwm.
               bindR (check_hwm n prev hwm) (\<lambda>_. Inr (n, prev)))))"

section \<open>The engine\<close>

record audit_engine =
  ae_verify_on_startup :: bool
  ae_require_hmac :: bool
  ae_prev_hash :: json
  ae_seq :: nat
  ae_key :: "bytes option"
  ae_key_prev :: "bytes option"

definition new_audit_engine :: "bool \<Rightarrow> bool \<Rightarrow> bytes option \<Rightarrow> bytes option \<Rightarrow> audit_engine" where
  "new_audit_engine verify req key key_prev = \<lparr>ae_verify_on_startup = verify, ae_require_hmac = req,
     ae_prev_hash = genesis, ae_seq = 0, ae_key = key, ae_key_prev = key_prev\<rparr>"

text \<open>What one write reads from the outside: the clock, the fresh id, and the event.\<close>

record audit_event =
  ev_ts :: time
  ev_id :: string
  ev_event :: string
  ev_method :: string
  ev_digest :: string
  ev_extra :: record_dict

definition base_record :: "audit_engine \<Rightarrow> ctx \<Rightarrow> audit_event \<Rightarrow> record_dict" where
  "base_record e c ev =
     [(''ts'', JFloat (Fin (ev_ts ev))), (''seq'', JInt (int (ae_seq e))), (''entry_id'', JStr (ev_id ev)),
      (''parent_id'', case audit_parent_id c of None \<Rightarrow> JNull | Some p \<Rightarrow> JStr p),
      (''session_id'', JStr (session_id c)), (''user_id'', user_id c), (''tenant_id'', tenant_id c),
      (''event'', JStr (ev_event ev)), (''method'', JStr (ev_method ev)),
      (''params_digest'', JStr (ev_digest ev)), (''prev_hash'', ae_prev_hash e)]"

definition dict_update :: "record_dict \<Rightarrow> record_dict \<Rightarrow> record_dict" where
  "dict_update r extra = foldl (\<lambda>d (k, v). AList.update k v d) r extra"

definition audit_write :: "audit_lib \<Rightarrow> ctx \<Rightarrow> audit_event \<Rightarrow> audit_engine
    \<Rightarrow> (record_dict \<times> nat \<times> string) \<times> audit_engine" where
  "audit_write lib c ev e =
     (let r0 = dict_update (base_record e c ev) (ev_extra ev);
          cb = canonical lib r0;
          h = al_sha lib cb;
          r1 = AList.update ''chain_hash'' (JStr h) r0;
          r2 = (case ae_key e of None \<Rightarrow> r1
                | Some k \<Rightarrow> AList.update ''chain_hmac'' (JStr (compute_chain_hmac lib k cb)) r1)
      in ((r2, ae_seq e + 1, h), e\<lparr>ae_prev_hash := JStr h, ae_seq := ae_seq e + 1\<rparr>))"

definition audit_append :: "audit_lib \<Rightarrow> ctx \<Rightarrow> audit_event \<Rightarrow> audit_engine \<times> audit_disk
    \<Rightarrow> string \<times> audit_engine \<times> audit_disk" where
  "audit_append lib c ev s = (case s of (e, d) \<Rightarrow>
     (case audit_write lib c ev e of ((r, n, h), e') \<Rightarrow>
        (ev_id ev, e', sync_write_hwm lib (ae_key e) (int n) (JStr h) (sync_append_record r d))))"

definition audit_on_request :: "audit_lib \<Rightarrow> time \<Rightarrow> string \<Rightarrow> string \<Rightarrow> (audit_engine \<times> audit_disk) request_hook_fn" where
  "audit_on_request lib now entry_id params_str c req s =
     (case audit_append lib c \<lparr>ev_ts = now, ev_id = entry_id, ev_event = ''request'',
         ev_method = rq_method req, ev_digest = al_sha lib (utf8 params_str), ev_extra = []\<rparr> s of
        (eid, s') \<Rightarrow> (Inr (with_audit_parent c eid), s'))"

definition audit_on_response :: "audit_lib \<Rightarrow> time \<Rightarrow> string \<Rightarrow> (audit_engine \<times> audit_disk) response_hook_fn" where
  "audit_on_response lib now entry_id c resp s =
     (case audit_append lib c \<lparr>ev_ts = now, ev_id = entry_id, ev_event = ''response'',
         ev_method = [], ev_digest = al_sha lib (utf8 (rs_raw_body resp)), ev_extra = []\<rparr> s of
        (eid, s') \<Rightarrow> (Inr c, s'))"

definition audit_session_event :: "audit_lib \<Rightarrow> string \<Rightarrow> time \<Rightarrow> string \<Rightarrow> ctx \<Rightarrow> audit_engine \<times> audit_disk
    \<Rightarrow> audit_engine \<times> audit_disk" where
  "audit_session_event lib event now entry_id c s =
     snd (audit_append lib c \<lparr>ev_ts = now, ev_id = entry_id, ev_event = event, ev_method = [],
       ev_digest = [], ev_extra = []\<rparr> s)"

text \<open>The verified tail becomes the engine's state, and the sidecar is re-anchored to it.\<close>

definition audit_verify_chain :: "audit_lib \<Rightarrow> audit_engine \<times> audit_disk
    \<Rightarrow> unit result \<times> audit_engine \<times> audit_disk" where
  "audit_verify_chain lib s = (case s of (e, d) \<Rightarrow>
     (case sync_verify_chain lib (ae_key e) (ae_key_prev e) d of
        Inl x \<Rightarrow> (Inl x, e, d)
      | Inr (n, prev) \<Rightarrow> (Inr (), e\<lparr>ae_seq := n, ae_prev_hash := prev\<rparr>,
          if n \<noteq> 0 then sync_write_hwm lib (ae_key e) (int n) prev d else d)))"

definition audit_seed_state :: "audit_engine \<times> audit_disk \<Rightarrow> unit result \<times> audit_engine \<times> audit_disk" where
  "audit_seed_state s = (case s of (e, d) \<Rightarrow> (case sync_seed_state d of
     Inl x \<Rightarrow> (Inl x, e, d) | Inr (n, prev) \<Rightarrow> (Inr (), e\<lparr>ae_seq := n, ae_prev_hash := prev\<rparr>, d)))"

definition audit_on_startup :: "audit_lib \<Rightarrow> bool \<Rightarrow> audit_engine \<times> audit_disk
    \<Rightarrow> unit result \<times> audit_engine \<times> audit_disk" where
  "audit_on_startup lib allow_unsigned s = (case s of (e, d) \<Rightarrow>
     if ae_require_hmac e \<and> ae_key e = None \<and> \<not> allow_unsigned
     then (Inl (chain_error ''HMAC key required''), e, d)
     else if ae_verify_on_startup e \<and> ad_log d = None \<and> (ad_hwm d \<noteq> None \<or> ad_marker d)
     then (Inl (chain_error ''log absent but sidecar present''), e, d)
     else
       let d1 = (if ae_key e \<noteq> None \<and> \<not> ad_marker d then d\<lparr>ad_marker := True\<rparr> else d) in
       if ae_verify_on_startup e \<and> ad_log d1 \<noteq> None then
         (case audit_verify_chain lib (e, d1) of
            (Inl (PyExc FileNotFoundError m), s') \<Rightarrow> (Inl (chain_error ''log vanished''), s')
          | r \<Rightarrow> r)
       else audit_seed_state (e, d1))"

section \<open>Records\<close>

lemma record_body_update [simp]:
  "record_body (AList.update ''chain_hash'' v r) = record_body r"
  "record_body (AList.update ''chain_hmac'' v r) = record_body r"
  by (induction r) (auto simp: record_body_def)

lemma canonical_update [simp]:
  "canonical lib (AList.update ''chain_hash'' v r) = canonical lib r"
  "canonical lib (AList.update ''chain_hmac'' v r) = canonical lib r"
  by (simp_all add: canonical_def)

lemma dget_dict_update: "k \<notin> fst ` set extra \<Longrightarrow> dget (dict_update r extra) k = dget r k"
proof (induction extra arbitrary: r)
  case (Cons p extra)
  obtain k' v where p: "p = (k', v)" by (cases p)
  with Cons.prems have "k \<noteq> k'" "k \<notin> fst ` set extra" by auto
  with Cons.IH [of "AList.update k' v r"] p show ?case by (simp add: dict_update_def update_conv')
qed (simp add: dict_update_def)

definition reserved_keys :: "string list" where
  "reserved_keys = [''seq'', ''prev_hash'', ''chain_hash'', ''chain_hmac'']"

text \<open>An event whose extra fields leave the chain fields alone, as the guard's do.\<close>

definition plain_event :: "audit_event \<Rightarrow> bool" where
  "plain_event ev = list_all (\<lambda>k. k \<notin> fst ` set (ev_extra ev)) reserved_keys"

lemma written_fields:
  assumes "audit_write lib c ev e = ((r, n, h), e')" and "plain_event ev"
  shows "get_or_null r ''seq'' = JInt (int (ae_seq e))" "get_or_null r ''prev_hash'' = ae_prev_hash e"
    "dget r ''chain_hash'' = Some (JStr h)" "h = al_sha lib (canonical lib r)"
    "ae_key e = Some k \<Longrightarrow> get_or_null r ''chain_hmac'' = JStr (al_hmac lib k (canonical lib r))"
    "n = ae_seq e + 1" "e' = e\<lparr>ae_prev_hash := JStr h, ae_seq := ae_seq e + 1\<rparr>"
proof -
  let ?r0 = "dict_update (base_record e c ev) (ev_extra ev)"
  have r0: "dget ?r0 ''seq'' = Some (JInt (int (ae_seq e)))" "dget ?r0 ''prev_hash'' = Some (ae_prev_hash e)"
    using assms(2) by (simp_all add: plain_event_def reserved_keys_def dget_dict_update base_record_def)
  have r: "r = (case ae_key e of None \<Rightarrow> AList.update ''chain_hash'' (JStr h) ?r0
      | Some k \<Rightarrow> AList.update ''chain_hmac'' (JStr (al_hmac lib k (canonical lib ?r0)))
          (AList.update ''chain_hash'' (JStr h) ?r0))"
    and h: "h = al_sha lib (canonical lib ?r0)" and n: "n = ae_seq e + 1"
    and e': "e' = e\<lparr>ae_prev_hash := JStr h, ae_seq := ae_seq e + 1\<rparr>"
    using assms(1) by (auto simp: audit_write_def Let_def compute_chain_hmac_def split: option.splits)
  have can: "canonical lib r = canonical lib ?r0" using r by (simp split: option.splits)
  show "get_or_null r ''seq'' = JInt (int (ae_seq e))" "get_or_null r ''prev_hash'' = ae_prev_hash e"
    "dget r ''chain_hash'' = Some (JStr h)"
    using r r0 by (auto simp: get_or_null_def update_conv' split: option.splits)
  show "h = al_sha lib (canonical lib r)" using h can by simp
  show "get_or_null r ''chain_hmac'' = JStr (al_hmac lib k (canonical lib r))" if "ae_key e = Some k"
    using r that can by (simp add: get_or_null_def update_conv')
  show "n = ae_seq e + 1" "e' = e\<lparr>ae_prev_hash := JStr h, ae_seq := ae_seq e + 1\<rparr>" using n e' by simp_all
qed

lemma check_entry_written:
  assumes "audit_write lib c ev e = ((r, n, h), e')" and "plain_event ev"
    and "\<forall>k m. is_ascii (al_hmac lib k m)" and "ae_prev_hash e = JStr ph"
  shows "check_entry lib (ae_key e) kp r (ae_seq e) (ae_prev_hash e) = Inr (JStr h)"
proof -
  note f = written_fields [OF assms(1,2)]
  have "check_record_hmac lib (ae_key e) kp r = Inr ()"
    using f(5) assms(3)
    by (auto simp: check_record_hmac_def compare_digest_json_def compare_digest_str_def
        compute_chain_hmac_def split: option.splits)
  with f assms(4) show ?thesis by (simp add: check_entry_def)
qed

lemma verify_lines_append:
  "verify_lines lib key kp (ls @ [Parsed (JObj r)]) n prev =
     bindR (verify_lines lib key kp ls n prev) (\<lambda>(m, p).
       bindR (check_entry lib key kp r m p) (\<lambda>h. Inr (m + 1, h)))"
  by (induction lib key kp ls n prev rule: verify_lines.induct) (auto simp: bindR_def split: sum.splits)

section \<open>The state the writer keeps\<close>

definition log_lines :: "audit_disk \<Rightarrow> log_line list" where
  "log_lines d = (case ad_log d of None \<Rightarrow> [] | Some ls \<Rightarrow> ls)"

text \<open>
  The chain on disk ends at the engine's head; the sidecar is at that head or, after an
  interrupted append, at an earlier one.
\<close>

definition audit_inv :: "audit_lib \<Rightarrow> audit_engine \<Rightarrow> audit_disk \<Rightarrow> bool" where
  "audit_inv lib e d \<longleftrightarrow>
     verify_lines lib (ae_key e) (ae_key_prev e) (log_lines d) 0 genesis = Inr (ae_seq e, ae_prev_hash e)
     \<and> (ad_marker d \<longrightarrow> ae_key e \<noteq> None)
     \<and> (\<exists>h. ae_prev_hash e = JStr h)
     \<and> (ad_log d = None \<longrightarrow> ad_hwm d = None)
     \<and> (if ae_seq e = 0 then sync_read_hwm lib (ae_key e) (ae_key_prev e) d = Inr None
        else \<exists>m h. sync_read_hwm lib (ae_key e) (ae_key_prev e) d = Inr (Some (int m, h)) \<and> m \<le> ae_seq e
          \<and> (m = ae_seq e \<longrightarrow> ae_prev_hash e = JStr h))"

lemma audit_inv_verifies:
  assumes "audit_inv lib e d" and "ad_log d \<noteq> None"
  shows "sync_verify_chain lib (ae_key e) (ae_key_prev e) d = Inr (ae_seq e, ae_prev_hash e)"
  using assms
  by (auto simp: audit_inv_def sync_verify_chain_def log_lines_def check_hwm_def split: option.splits if_splits)

lemma read_after_write_hwm:
  assumes "\<forall>k m. is_ascii (al_hmac lib k m)"
  shows "sync_read_hwm lib key kp (sync_write_hwm lib key (int n) (JStr h) d) = Inr (Some (int n, h))"
proof -
  have "is_ascii (compute_hwm_mac lib k m h')" for k m h' using assms by (simp add: compute_hwm_mac_def)
  then show ?thesis
    by (auto simp: sync_read_hwm_def sync_write_hwm_def parse_hwm_def py_int_def str_of_def Let_def
        get_or_null_def compare_digest_str_def split: option.split)
qed

lemma audit_inv_append:
  assumes "audit_inv lib e d" and "plain_event ev" and "\<forall>k m. is_ascii (al_hmac lib k m)"
    and "audit_append lib c ev (e, d) = (i, e', d')"
  shows "audit_inv lib e' d'" "ae_seq e' = ae_seq e + 1" "ae_key e' = ae_key e" "ae_key_prev e' = ae_key_prev e"
proof -
  obtain r n h e1 where w: "audit_write lib c ev e = ((r, n, h), e1)" by (metis prod.exhaust)
  note f = written_fields [OF w assms(2)]
  from assms(4) w have e': "e' = e1" and d': "d' = sync_write_hwm lib (ae_key e) (int n) (JStr h) (sync_append_record r d)"
    by (auto simp: audit_append_def)
  obtain ph where ph: "ae_prev_hash e = JStr ph" using assms(1) by (auto simp: audit_inv_def)
  have ll: "log_lines d' = log_lines d @ [Parsed (JObj r)]"
    by (simp add: d' log_lines_def sync_write_hwm_def sync_append_record_def split: option.splits)
  have v: "verify_lines lib (ae_key e) (ae_key_prev e) (log_lines d') 0 genesis = Inr (n, JStr h)"
    using assms(1) check_entry_written [OF w assms(2,3) ph, of "ae_key_prev e"] f(6)
    by (simp add: ll verify_lines_append audit_inv_def)
  have rd: "sync_read_hwm lib (ae_key e) (ae_key_prev e) d' = Inr (Some (int n, h))"
    unfolding d' by (rule read_after_write_hwm [OF assms(3)])
  have mk: "ad_marker d' = ad_marker d" "ad_log d' \<noteq> None"
    by (simp_all add: d' sync_write_hwm_def sync_append_record_def)
  show "audit_inv lib e' d'" "ae_seq e' = ae_seq e + 1" "ae_key e' = ae_key e" "ae_key_prev e' = ae_key_prev e"
    using v rd mk f(6,7) assms(1) by (auto simp: audit_inv_def e' intro!: exI [of _ n])
qed

text \<open>An append whose process dies between the log line and the sidecar.\<close>

definition crashed_append :: "audit_lib \<Rightarrow> ctx \<Rightarrow> audit_event \<Rightarrow> audit_engine \<times> audit_disk
    \<Rightarrow> audit_engine \<times> audit_disk" where
  "crashed_append lib c ev s = (case s of (e, d) \<Rightarrow>
     (case audit_write lib c ev e of ((r, n, h), e') \<Rightarrow> (e', sync_append_record r d)))"

lemma audit_inv_crashed:
  assumes "audit_inv lib e d" and "plain_event ev" and "\<forall>k m. is_ascii (al_hmac lib k m)"
    and "crashed_append lib c ev (e, d) = (e', d')" and "ae_seq e \<noteq> 0"
  shows "audit_inv lib e' d'" "ae_seq e' = ae_seq e + 1" "ae_key e' = ae_key e" "ae_key_prev e' = ae_key_prev e"
proof -
  obtain r n h e1 where w: "audit_write lib c ev e = ((r, n, h), e1)" by (metis prod.exhaust)
  note f = written_fields [OF w assms(2)]
  from assms(4) w have e': "e' = e1" and d': "d' = sync_append_record r d" by (auto simp: crashed_append_def)
  obtain ph where ph: "ae_prev_hash e = JStr ph" using assms(1) by (auto simp: audit_inv_def)
  have ll: "log_lines d' = log_lines d @ [Parsed (JObj r)]"
    by (simp add: d' log_lines_def sync_append_record_def split: option.splits)
  have v: "verify_lines lib (ae_key e) (ae_key_prev e) (log_lines d') 0 genesis = Inr (n, JStr h)"
    using assms(1) check_entry_written [OF w assms(2,3) ph, of "ae_key_prev e"] f(6)
    by (simp add: ll verify_lines_append audit_inv_def)
  have rd: "sync_read_hwm lib (ae_key e) (ae_key_prev e) d' = sync_read_hwm lib (ae_key e) (ae_key_prev e) d"
    by (simp add: d' sync_read_hwm_def sync_append_record_def)
  have mk: "ad_marker d' = ad_marker d" "ad_log d' \<noteq> None"
    by (simp_all add: d' sync_append_record_def)
  show "audit_inv lib e' d'" "ae_seq e' = ae_seq e + 1" "ae_key e' = ae_key e" "ae_key_prev e' = ae_key_prev e"
    using v rd mk f(6,7) assms(1,5) by (auto simp: audit_inv_def e')
qed

section \<open>Restarts\<close>

lemma seed_of_verify: "verify_lines lib key kp ls n prev = Inr res \<Longrightarrow> seed_lines ls n prev = Inr res"
  by (induction lib key kp ls n prev rule: verify_lines.induct)
     (auto simp: bindR_eq_Inr check_entry_def split: if_splits option.splits)

definition restart_audit :: "audit_lib \<Rightarrow> bool \<Rightarrow> audit_engine \<times> audit_disk
    \<Rightarrow> unit result \<times> audit_engine \<times> audit_disk" where
  "restart_audit lib allow s = (case s of (e, d) \<Rightarrow> audit_on_startup lib allow
     (new_audit_engine (ae_verify_on_startup e) (ae_require_hmac e) (ae_key e) (ae_key_prev e), d))"

definition may_start :: "bool \<Rightarrow> audit_engine \<Rightarrow> bool" where
  "may_start allow e = (ae_require_hmac e \<and> ae_key e = None \<longrightarrow> allow)"

definition same_keys :: "audit_engine \<Rightarrow> audit_engine \<Rightarrow> bool" where
  "same_keys e e' \<longleftrightarrow> ae_key e' = ae_key e \<and> ae_key_prev e' = ae_key_prev e
     \<and> ae_verify_on_startup e' = ae_verify_on_startup e \<and> ae_require_hmac e' = ae_require_hmac e"

lemma audit_inv_marker:
  assumes "audit_inv lib e d" and "ae_key e \<noteq> None"
  shows "audit_inv lib e (d\<lparr>ad_marker := True\<rparr>)"
proof -
  have "log_lines (d\<lparr>ad_marker := True\<rparr>) = log_lines d"
    "sync_read_hwm lib k kp (d\<lparr>ad_marker := True\<rparr>) = sync_read_hwm lib k kp d" for k kp
    by (simp_all add: log_lines_def sync_read_hwm_def)
  with assms show ?thesis by (simp add: audit_inv_def)
qed

lemma audit_inv_anchor:
  assumes "audit_inv lib e d" and "ad_log d \<noteq> None" and "\<forall>k m. is_ascii (al_hmac lib k m)"
    and "ae_seq e \<noteq> 0"
  shows "audit_inv lib e (sync_write_hwm lib (ae_key e) (int (ae_seq e)) (ae_prev_hash e) d)"
proof -
  obtain h where h: "ae_prev_hash e = JStr h" using assms(1) by (auto simp: audit_inv_def)
  have rd: "sync_read_hwm lib (ae_key e) (ae_key_prev e)
      (sync_write_hwm lib (ae_key e) (int (ae_seq e)) (JStr h) d) = Inr (Some (int (ae_seq e), h))"
    by (rule read_after_write_hwm [OF assms(3)])
  have "log_lines (sync_write_hwm lib k n p d) = log_lines d" "ad_marker (sync_write_hwm lib k n p d) = ad_marker d"
    "ad_log (sync_write_hwm lib k n p d) = ad_log d" for k n p
    by (simp_all add: log_lines_def sync_write_hwm_def)
  with assms rd h show ?thesis by (auto simp: audit_inv_def intro!: exI [of _ "ae_seq e"])
qed

lemma startup_verified:
  assumes "\<not> (ae_require_hmac e0 \<and> ae_key e0 = None \<and> \<not> allow)"
    and "ae_verify_on_startup e0 \<and> ad_log d \<noteq> None"
    and "sync_verify_chain lib (ae_key e0) (ae_key_prev e0)
      (if ae_key e0 \<noteq> None \<and> \<not> ad_marker d then d\<lparr>ad_marker := True\<rparr> else d) = Inr (n, p)"
  shows "audit_on_startup lib allow (e0, d) = (Inr (), e0\<lparr>ae_seq := n, ae_prev_hash := p\<rparr>,
      if n \<noteq> 0 then sync_write_hwm lib (ae_key e0) (int n) p
        (if ae_key e0 \<noteq> None \<and> \<not> ad_marker d then d\<lparr>ad_marker := True\<rparr> else d)
      else (if ae_key e0 \<noteq> None \<and> \<not> ad_marker d then d\<lparr>ad_marker := True\<rparr> else d))"
proof -
  define d1 where "d1 = (if ae_key e0 \<noteq> None \<and> \<not> ad_marker d then d\<lparr>ad_marker := True\<rparr> else d)"
  have "ad_log d1 = ad_log d" by (simp add: d1_def)
  with assms [folded d1_def] show ?thesis
    unfolding audit_on_startup_def prod.case Let_def d1_def [symmetric]
    by (auto simp: audit_verify_chain_def)
qed

text \<open>A start on a disk the writer left: it succeeds and resumes the chain where it ended.\<close>

lemma restart_resumes:
  assumes inv: "audit_inv lib e d" and asc: "\<forall>k m. is_ascii (al_hmac lib k m)" and ok: "may_start allow e"
    and log: "ad_log d \<noteq> None" and r: "restart_audit lib allow (e, d) = (r, e', d')"
  shows "r = Inr ()" "audit_inv lib e' d'" "ae_seq e' = ae_seq e" "ae_prev_hash e' = ae_prev_hash e" "same_keys e e'"
proof -
  let ?e0 = "new_audit_engine (ae_verify_on_startup e) (ae_require_hmac e) (ae_key e) (ae_key_prev e)"
  let ?d1 = "if ae_key e \<noteq> None \<and> \<not> ad_marker d then d\<lparr>ad_marker := True\<rparr> else d"
  have d1: "audit_inv lib e ?d1" using inv audit_inv_marker by simp
  have ll: "ad_log ?d1 = ad_log d" "log_lines ?d1 = log_lines d" by (simp_all add: log_lines_def)
  have e0: "ae_key ?e0 = ae_key e" "ae_key_prev ?e0 = ae_key_prev e" "ae_require_hmac ?e0 = ae_require_hmac e"
    "ae_verify_on_startup ?e0 = ae_verify_on_startup e" by (simp_all add: new_audit_engine_def)
  have guard: "\<not> (ae_require_hmac e \<and> ae_key e = None \<and> \<not> allow)" using ok by (auto simp: may_start_def)
  have resumed: "audit_inv lib (?e0\<lparr>ae_seq := ae_seq e, ae_prev_hash := ae_prev_hash e\<rparr>) d2"
    if "audit_inv lib e d2" for d2
    using that by (simp add: audit_inv_def e0)
  have "r = Inr () \<and> e' = ?e0\<lparr>ae_seq := ae_seq e, ae_prev_hash := ae_prev_hash e\<rparr> \<and> audit_inv lib e d'"
  proof (cases "ae_verify_on_startup e \<and> ad_log d \<noteq> None")
    case True
    then have v: "sync_verify_chain lib (ae_key e) (ae_key_prev e) ?d1 = Inr (ae_seq e, ae_prev_hash e)"
      using audit_inv_verifies [OF d1] ll by simp
    have "restart_audit lib allow (e, d) = (Inr (), ?e0\<lparr>ae_seq := ae_seq e, ae_prev_hash := ae_prev_hash e\<rparr>,
        if ae_seq e \<noteq> 0 then sync_write_hwm lib (ae_key e) (int (ae_seq e)) (ae_prev_hash e) ?d1 else ?d1)"
      unfolding restart_audit_def prod.case
      using startup_verified [where ?e0.0 = ?e0 and d = d and allow = allow] True guard v unfolding e0 by blast
    with r d1 audit_inv_anchor [OF d1 _ asc] ll True show ?thesis by auto
  next
    case False
    have "seed_lines (log_lines d) 0 genesis = Inr (ae_seq e, ae_prev_hash e)"
      using inv seed_of_verify unfolding audit_inv_def by blast
    then have sd: "sync_seed_state ?d1 = Inr (ae_seq e, ae_prev_hash e)"
      by (auto simp: sync_seed_state_def log_lines_def split: option.splits)
    have "restart_audit lib allow (e, d) = (Inr (), ?e0\<lparr>ae_seq := ae_seq e, ae_prev_hash := ae_prev_hash e\<rparr>, ?d1)"
      using False guard sd log unfolding restart_audit_def audit_on_startup_def prod.case e0
      by (auto simp: Let_def audit_seed_state_def e0)
    with r d1 show ?thesis by auto
  qed
  then show "r = Inr ()" "audit_inv lib e' d'" "ae_seq e' = ae_seq e" "ae_prev_hash e' = ae_prev_hash e" "same_keys e e'"
    using resumed by (auto simp: same_keys_def e0)
qed

section \<open>Histories\<close>

datatype audit_action = LogRecord ctx audit_event | TornRecord ctx audit_event | RestartLog

fun audit_act :: "audit_lib \<Rightarrow> bool \<Rightarrow> audit_action \<Rightarrow> audit_engine \<times> audit_disk \<Rightarrow> audit_engine \<times> audit_disk" where
  "audit_act lib allow (LogRecord c ev) s = snd (audit_append lib c ev s)"
| "audit_act lib allow (TornRecord c ev) s = crashed_append lib c ev s"
| "audit_act lib allow RestartLog s = snd (restart_audit lib allow s)"

fun records_of :: "audit_action list \<Rightarrow> nat" where
  "records_of [] = 0"
| "records_of (RestartLog # as) = records_of as"
| "records_of (_ # as) = Suc (records_of as)"

fun plain_action :: "audit_action \<Rightarrow> bool" where
  "plain_action (LogRecord c ev) = plain_event ev"
| "plain_action (TornRecord c ev) = plain_event ev"
| "plain_action RestartLog = True"

definition audit_history :: "audit_lib \<Rightarrow> bool \<Rightarrow> audit_action list \<Rightarrow> audit_engine \<times> audit_disk
    \<Rightarrow> audit_engine \<times> audit_disk" where
  "audit_history lib allow as s = fold (audit_act lib allow) as s"

definition running_inv :: "audit_lib \<Rightarrow> bool \<Rightarrow> audit_engine \<times> audit_disk \<Rightarrow> bool" where
  "running_inv lib allow s = (case s of (e, d) \<Rightarrow>
     audit_inv lib e d \<and> may_start allow e \<and> ad_log d \<noteq> None \<and> ae_seq e \<noteq> 0)"

lemma audit_write_config: "audit_write lib c ev e = (w, e') \<Longrightarrow> same_keys e e'"
  by (auto simp: audit_write_def Let_def same_keys_def)

lemma audit_append_config: "audit_append lib c ev (e, d) = (i, e', d') \<Longrightarrow> same_keys e e' \<and> ad_log d' \<noteq> None"
  by (auto simp: audit_append_def sync_write_hwm_def sync_append_record_def audit_write_config
      split: prod.splits)

lemma may_start_same: "same_keys e e' \<Longrightarrow> may_start allow e \<Longrightarrow> may_start allow e'"
  by (simp add: same_keys_def may_start_def)

lemma restart_log: "restart_audit lib allow (e, d) = (r, e', d') \<Longrightarrow> ad_log d \<noteq> None \<Longrightarrow> ad_log d' \<noteq> None"
  by (auto simp: restart_audit_def audit_on_startup_def audit_verify_chain_def audit_seed_state_def Let_def
      sync_write_hwm_def split: if_splits sum.splits exn.splits py_class.splits prod.splits)

lemma audit_act_inv [inv_rules]:
  assumes "running_inv lib allow s" and "plain_action a" and "\<forall>k m. is_ascii (al_hmac lib k m)"
  shows "running_inv lib allow (audit_act lib allow a s)
    \<and> ae_seq (fst (audit_act lib allow a s)) = ae_seq (fst s) + records_of [a]"
proof -
  obtain e d where s: "s = (e, d)" by (cases s)
  from assms(1) s have inv: "audit_inv lib e d" and ms: "may_start allow e" and log: "ad_log d \<noteq> None"
    and pos: "ae_seq e \<noteq> 0" by (auto simp: running_inv_def)
  show ?thesis
  proof (cases a)
    case (LogRecord c ev)
    obtain i e' d' where ap: "audit_append lib c ev (e, d) = (i, e', d')" by (metis prod.exhaust)
    from LogRecord assms(2) have pl: "plain_event ev" by simp
    from audit_inv_append [OF inv pl assms(3) ap] audit_append_config [OF ap] may_start_same ms
    show ?thesis using LogRecord s ap by (auto simp: running_inv_def)
  next
    case (TornRecord c ev)
    obtain e' d' where ap: "crashed_append lib c ev (e, d) = (e', d')" by (metis prod.exhaust)
    from TornRecord assms(2) have pl: "plain_event ev" by simp
    have "same_keys e e' \<and> ad_log d' \<noteq> None"
      using ap by (auto simp: crashed_append_def sync_append_record_def audit_write_config split: prod.splits)
    with audit_inv_crashed [OF inv pl assms(3) ap pos] may_start_same ms
    show ?thesis using TornRecord s ap by (auto simp: running_inv_def)
  next
    case RestartLog
    obtain r e' d' where ap: "restart_audit lib allow (e, d) = (r, e', d')" by (metis prod.exhaust)
    from restart_resumes [OF inv assms(3) ms log ap] restart_log [OF ap log] may_start_same ms pos
    show ?thesis using RestartLog s ap by (auto simp: running_inv_def)
  qed
qed

lemma audit_history_inv:
  assumes "running_inv lib allow s" and "list_all plain_action as" and "\<forall>k m. is_ascii (al_hmac lib k m)"
  shows "running_inv lib allow (audit_history lib allow as s)
    \<and> ae_seq (fst (audit_history lib allow as s)) = ae_seq (fst s) + records_of as"
  using assms(1,2)
proof (induction as arbitrary: s)
  case Nil
  then show ?case by (simp add: audit_history_def)
next
  case (Cons a as)
  from audit_act_inv [OF Cons.prems(1) _ assms(3), of a] Cons.prems(2) have
    "running_inv lib allow (audit_act lib allow a s)"
    "ae_seq (fst (audit_act lib allow a s)) = ae_seq (fst s) + records_of [a]" by simp_all
  with Cons.IH [of "audit_act lib allow a s"] Cons.prems(2) show ?case
    by (cases a) (simp_all add: audit_history_def)
qed

lemma restart_keys: "same_keys e (fst (snd (restart_audit lib allow (e, d))))"
proof -
  have "same_keys e (new_audit_engine (ae_verify_on_startup e) (ae_require_hmac e) (ae_key e) (ae_key_prev e))"
    by (simp add: same_keys_def new_audit_engine_def)
  moreover have "same_keys e0 (fst (snd (audit_verify_chain lib (e0, d0))))" for e0 d0
    by (auto simp: audit_verify_chain_def same_keys_def split: sum.split)
  moreover have "same_keys e0 (fst (snd (audit_seed_state (e0, d0))))" for e0 d0
    by (auto simp: audit_seed_state_def same_keys_def split: sum.split)
  moreover have "snd (case x of (Inl (PyExc FileNotFoundError m), s') \<Rightarrow> (err, s') | r \<Rightarrow> r) = snd x"
    for x :: "unit result \<times> audit_engine \<times> audit_disk" and err
    by (cases x; cases "fst x") (auto split: exn.split py_class.split)
  ultimately have "same_keys e0 (fst (snd (audit_on_startup lib allow (e0, d0))))" for e0 d0
    unfolding audit_on_startup_def prod.case Let_def by (simp add: same_keys_def)
  then show ?thesis
    by (auto simp: restart_audit_def same_keys_def new_audit_engine_def)
qed

lemma audit_history_keys: "same_keys e (fst (audit_history lib allow as (e, d)))"
proof (induction as arbitrary: e d)
  case (Cons a as)
  obtain e' d' where a: "audit_act lib allow a (e, d) = (e', d')" by (metis prod.exhaust)
  have "same_keys e e'"
  proof (cases a)
    case (LogRecord c ev)
    obtain i where "audit_append lib c ev (e, d) = (i, e', d')"
      using a LogRecord by (cases "audit_append lib c ev (e, d)") auto
    then show ?thesis using audit_append_config by blast
  next
    case (TornRecord c ev)
    with a show ?thesis by (auto simp: crashed_append_def audit_write_config split: prod.splits)
  next
    case RestartLog
    with a restart_keys [of e lib allow d] show ?thesis by simp
  qed
  with Cons.IH [of e' d'] a show ?case by (auto simp: audit_history_def same_keys_def)
qed (simp add: audit_history_def same_keys_def)

definition empty_disk :: audit_disk where
  "empty_disk = \<lparr>ad_log = None, ad_hwm = None, ad_marker = False\<rparr>"

lemma first_start:
  assumes "may_start allow (new_audit_engine v req key kp)"
  shows "audit_on_startup lib allow (new_audit_engine v req key kp, empty_disk)
    = (Inr (), new_audit_engine v req key kp, empty_disk\<lparr>ad_marker := key \<noteq> None\<rparr>)"
  using assms
  by (auto simp: audit_on_startup_def may_start_def new_audit_engine_def empty_disk_def audit_seed_state_def
      sync_seed_state_def Let_def)

lemma first_start_inv:
  "audit_inv lib (new_audit_engine v req key kp) (empty_disk\<lparr>ad_marker := key \<noteq> None\<rparr>)"
  by (simp add: audit_inv_def new_audit_engine_def empty_disk_def log_lines_def genesis_def sync_read_hwm_def)

section \<open>What a verified log determines\<close>

fun entries :: "log_line list \<Rightarrow> record_dict list" where
  "entries [] = []"
| "entries (Parsed (JObj r) # ls) = r # entries ls"
| "entries (_ # ls) = entries ls"

fun verify_entries :: "audit_lib \<Rightarrow> bytes option \<Rightarrow> bytes option \<Rightarrow> record_dict list \<Rightarrow> nat \<Rightarrow> json
    \<Rightarrow> (nat \<times> json) result" where
  "verify_entries lib key kp [] n prev = Inr (n, prev)"
| "verify_entries lib key kp (r # rs) n prev =
     bindR (check_entry lib key kp r n prev) (\<lambda>h. verify_entries lib key kp rs (n + 1) h)"

lemma verify_lines_entries:
  "verify_lines lib key kp ls n prev = Inr res \<Longrightarrow> verify_entries lib key kp (entries ls) n prev = Inr res"
  by (induction lib key kp ls n prev rule: verify_lines.induct) (auto simp: bindR_eq_Inr)

lemma verify_entries_snoc:
  "verify_entries lib key kp (rs @ [r]) n prev =
     bindR (verify_entries lib key kp rs n prev) (\<lambda>(m, p).
       bindR (check_entry lib key kp r m p) (\<lambda>h. Inr (m + 1, h)))"
  by (induction rs arbitrary: n prev) (auto simp: bindR_def split: sum.splits)

lemma verify_entries_length:
  "verify_entries lib key kp rs n prev = Inr (m, h) \<Longrightarrow> m = n + length rs"
  by (induction rs arbitrary: n prev) (fastforce simp: bindR_eq_Inr)+

lemma check_entry_ok:
  "check_entry lib key kp r n prev = Inr h \<longleftrightarrow>
     py_eq (get_or_null r ''seq'') (JInt (int n)) \<and> py_eq (get_or_null r ''prev_hash'') prev
     \<and> dget r ''chain_hash'' = Some h \<and> h = JStr (al_sha lib (canonical lib r))
     \<and> check_record_hmac lib key kp r = Inr ()"
  by (auto simp: check_entry_def bindR_eq_Inr split: option.splits)

definition sha_clash :: "audit_lib \<Rightarrow> bool" where
  "sha_clash lib \<longleftrightarrow> (\<exists>m m'. m \<noteq> m' \<and> al_sha lib m = al_sha lib m')"

lemma canonical_inj:
  assumes "float_repr_ok (al_fr lib)" and "al_sha lib (canonical lib r) = al_sha lib (canonical lib r')"
    and "\<not> sha_clash lib"
  shows "canon (JObj (record_body r)) = canon (JObj (record_body r'))"
  using assms dumps_canon_inj [OF assms(1)] unfolding sha_clash_def canonical_def by (metis utf8_inj)

lemma body_prev_hash:
  assumes "canon (JObj (record_body r)) = canon (JObj (record_body r'))" and "wf_dict r" and "wf_dict r'"
    and "get_or_null r ''prev_hash'' = JStr p" and "get_or_null r' ''prev_hash'' = JStr p'"
  shows "p = p'"
proof -
  have wf: "wf_dict (record_body r)" "wf_dict (record_body r')"
    using assms(2,3) by (simp_all add: record_body_def)
  have "dget (record_body r) ''prev_hash'' = Some (JStr p)" "dget (record_body r') ''prev_hash'' = Some (JStr p')"
    using assms(2-5) by (auto simp: record_body_def dget_filter get_or_null_def split: option.splits)
  with canon_obj_dget [OF assms(1) wf, of "''prev_hash''"] show ?thesis by simp
qed

lemma verify_entries_prev_str:
  "verify_entries lib key kp rs 0 genesis = Inr (m, h) \<Longrightarrow> \<exists>p. h = JStr p"
  by (cases rs rule: rev_cases)
     (auto simp: verify_entries_snoc bindR_eq_Inr check_entry_ok genesis_def)

lemma same_head_same_log:
  assumes fr: "float_repr_ok (al_fr lib)" and nc: "\<not> sha_clash lib"
  shows "verify_entries lib k1 p1 xs 0 genesis = Inr (m, h) \<Longrightarrow> verify_entries lib k2 p2 ys 0 genesis = Inr (m, h)
    \<Longrightarrow> list_all wf_dict xs \<Longrightarrow> list_all wf_dict ys
    \<Longrightarrow> map (\<lambda>r. canon (JObj (record_body r))) xs = map (\<lambda>r. canon (JObj (record_body r))) ys"
proof (induction xs arbitrary: ys m h rule: rev_induct)
  case Nil
  then have "length ys = 0" using verify_entries_length by fastforce
  then show ?case by simp
next
  case (snoc x xs)
  from verify_entries_length [OF snoc.prems(1)] verify_entries_length [OF snoc.prems(2)]
  have "length ys = Suc (length xs)" by simp
  then obtain y ys' where ys: "ys = ys' @ [y]" by (cases ys rule: rev_cases) auto
  from snoc.prems(1) obtain n1 q1 where x1: "verify_entries lib k1 p1 xs 0 genesis = Inr (n1, q1)"
    and x2: "check_entry lib k1 p1 x n1 q1 = Inr h" and m1: "m = n1 + 1"
    by (auto simp: verify_entries_snoc bindR_eq_Inr)
  from snoc.prems(2) ys obtain n2 q2 where y1: "verify_entries lib k2 p2 ys' 0 genesis = Inr (n2, q2)"
    and y2: "check_entry lib k2 p2 y n2 q2 = Inr h" and m2: "m = n2 + 1"
    by (auto simp: verify_entries_snoc bindR_eq_Inr)
  from x2 y2 have "al_sha lib (canonical lib x) = al_sha lib (canonical lib y)"
    by (auto simp: check_entry_ok)
  from canonical_inj [OF fr this nc] have body: "canon (JObj (record_body x)) = canon (JObj (record_body y))" .
  obtain a where a: "q1 = JStr a" using verify_entries_prev_str [OF x1] by blast
  obtain b where b: "q2 = JStr b" using verify_entries_prev_str [OF y1] by blast
  from x2 a have "get_or_null x ''prev_hash'' = JStr a" by (simp add: check_entry_ok)
  moreover from y2 b have "get_or_null y ''prev_hash'' = JStr b" by (simp add: check_entry_ok)
  ultimately have "a = b" using body_prev_hash [OF body] snoc.prems(3,4) ys by simp
  with a b have q: "q2 = q1" by simp
  from m1 m2 have n: "n2 = n1" by simp
  from snoc.IH [OF x1 y1 [unfolded q n]] snoc.prems(3,4) ys body show ?case by simp
qed

lemma verify_entries_hmac:
  "verify_entries lib (Some k) kp rs n prev = Inr res \<Longrightarrow> r \<in> set rs \<Longrightarrow>
     \<exists>k'. (k' = k \<or> kp = Some k') \<and> get_or_null r ''chain_hmac'' = JStr (al_hmac lib k' (canonical lib r))"
proof (induction rs arbitrary: n prev)
  case (Cons x rs)
  then obtain h where x: "check_entry lib (Some k) kp x n prev = Inr h"
    and rs: "verify_entries lib (Some k) kp rs (n + 1) h = Inr res" by (auto simp: bindR_eq_Inr)
  show ?case
  proof (cases "r = x")
    case True
    from x have "check_record_hmac lib (Some k) kp x = Inr ()" by (simp add: check_entry_ok)
    then show ?thesis unfolding True
      by (auto simp: check_record_hmac_def Let_def bindR_eq_Inr compare_digest_json_def compare_digest_str_def
          compute_chain_hmac_def split: if_splits json.splits option.splits)
  next
    case False
    with Cons.prems(2) have "r \<in> set rs" by simp
    with Cons.IH [OF rs] show ?thesis by blast
  qed
qed simp

lemma any_digest_True: "any_digest mac cs = Inr True \<Longrightarrow> mac \<in> set cs"
  by (induction cs) (auto simp: bindR_eq_Inr compare_digest_str_def split: if_splits)

lemma read_hwm_signed:
  assumes "sync_read_hwm lib (Some k) kp d = Inr (Some (n, head))"
  shows "\<exists>data k'. ad_hwm d = Some (Parsed (JObj data)) \<and> (k' = k \<or> kp = Some k')
    \<and> str_of (al_str lib) (get_or_null data ''mac'') = compute_hwm_mac lib k' n head"
proof -
  from assms obtain content data where c: "ad_hwm d = Some content"
    and ph: "parse_hwm lib content = Inr (data, n, head)"
    and dg: "any_digest (str_of (al_str lib) (get_or_null data ''mac''))
      (map (\<lambda>c. compute_hwm_mac lib c n head) (k # (case kp of None \<Rightarrow> [] | Some kp \<Rightarrow> [kp]))) = Inr True"
    by (auto simp: sync_read_hwm_def Let_def bindR_eq_Inr simp del: any_digest.simps list.map
        split: option.split_asm if_splits)
  from ph have "content = Parsed (JObj data)"
    by (auto simp: parse_hwm_def split: log_line.splits json.splits option.splits sum.splits exn.splits
        py_class.splits)
  with c any_digest_True [OF dg] show ?thesis by (auto split: option.splits)
qed

lemma show_nat_no_dot: "c \<in> set (show_nat n) \<Longrightarrow> c \<noteq> CHR ''.''"
proof (induction n rule: show_nat.induct)
  case (1 n)
  have d: "digit_char m \<noteq> CHR ''.''" if "m < 10" for m
    using that by (auto simp: digit_char_def dest!: arg_cong [where f = "of_char :: char \<Rightarrow> nat"])
  have "digit_char (n mod 10) \<noteq> CHR ''.''" using d [of "n mod 10"] by simp
  with 1 d [of n] show ?case by (subst (asm) show_nat.simps) (auto split: if_splits)
qed

lemma hwm_message_inj: "hwm_message n h = hwm_message n' h' \<Longrightarrow> show_int n = show_int n' \<and> h = h'"
proof -
  have "CHR ''.'' \<notin> set (show_int m)" for m
    using show_nat_no_dot by (auto simp: show_int_def)
  then show "hwm_message n h = hwm_message n' h' \<Longrightarrow> show_int n = show_int n' \<and> h = h'"
    unfolding hwm_message_def utf8_inj by (intro first_sep_inj) auto
qed

section \<open>A concrete log for the witnesses\<close>

definition demo_audit_lib :: audit_lib where
  "demo_audit_lib = \<lparr>al_fr = ratio_text, al_sha = (\<lambda>m. replicate (length m) (CHR ''a'')),
     al_hmac = (\<lambda>k m. ''m''), al_str = (\<lambda>_. []), al_int = (\<lambda>_. None)\<rparr>"

definition demo_event :: audit_event where
  "demo_event = \<lparr>ev_ts = 1, ev_id = ''i'', ev_event = ''request'', ev_method = ''ping'', ev_digest = ''d'',
     ev_extra = []\<rparr>"

definition demo_engine :: audit_engine where
  "demo_engine = new_audit_engine True True (Some []) None"

definition demo_start :: "audit_engine \<times> audit_disk" where
  "demo_start = snd (audit_on_startup demo_audit_lib False (demo_engine, empty_disk))"

definition demo_actor :: ctx where
  "demo_actor = new_context 0 ''s'' ''http''"

definition demo_history :: "audit_action list" where
  "demo_history = [TornRecord demo_actor demo_event, RestartLog, LogRecord demo_actor demo_event]"

lemma demo_hmac_ascii: "\<forall>k m. is_ascii (al_hmac demo_audit_lib k m)"
  by (simp add: demo_audit_lib_def is_ascii_def ord_of_def)

lemma demo_start_eq: "audit_on_startup demo_audit_lib False (demo_engine, empty_disk) = (Inr (), demo_start)"
  using first_start [of False True True "Some []" None demo_audit_lib]
  by (simp add: demo_start_def demo_engine_def may_start_def new_audit_engine_def)

lemma demo_plain: "plain_event demo_event" "list_all plain_action demo_history"
  by (simp_all add: plain_event_def demo_event_def demo_history_def reserved_keys_def)

lemma demo_may_start: "may_start False (new_audit_engine True True (Some []) None)"
  by (simp add: may_start_def new_audit_engine_def)

lemma demo_log_verifies:
  "is_ok (sync_verify_chain demo_audit_lib (Some []) None
     (snd (audit_history demo_audit_lib False [LogRecord demo_actor demo_event] demo_start)))"
  by code_simp

text \<open>
  Two histories the start-up checks refuse although nobody touched the files: a restart before
  the first record (the marker exists, the log does not), and a crash between the first
  record and the first sidecar.
\<close>

lemma restart_before_first_record:
  "fst (restart_audit demo_audit_lib False demo_start) = Inl (chain_error ''log absent but sidecar present'')"
  by code_simp

lemma crash_before_first_anchor:
  "fst (restart_audit demo_audit_lib False (crashed_append demo_audit_lib demo_actor demo_event demo_start))
     = Inl (chain_error ''sidecar absent for a non-empty log'')"
  by code_simp

section \<open>Properties\<close>





text \<open>
  With a key, verification accepts only what the key holder signed: every record carries
  a MAC of its contents under the current or the previous key, and a non-empty log has a
  sidecar whose signed count does not exceed it and whose signed head is the log's when the
  counts agree.  Truncation below the signed count is never accepted.
\<close>

theorem keyed_log_is_signed:
  assumes "sync_verify_chain lib (Some k) kp d = Inr (n, h)" and "ad_log d = Some ls"
  shows "n = length (entries ls)
    \<and> (\<forall>r \<in> set (entries ls). \<exists>k'. (k' = k \<or> kp = Some k') \<and>
         get_or_null r ''chain_hmac'' = JStr (al_hmac lib k' (canonical lib r)))
    \<and> (n \<noteq> 0 \<longrightarrow> (\<exists>data k' m head. ad_hwm d = Some (Parsed (JObj data)) \<and> (k' = k \<or> kp = Some k')
         \<and> str_of (al_str lib) (get_or_null data ''mac'') = al_hmac lib k' (hwm_message m head)
         \<and> m \<le> int n \<and> (m = int n \<longrightarrow> h = JStr head)))"
proof -
  from assms obtain hwm where v: "verify_lines lib (Some k) kp ls 0 genesis = Inr (n, h)"
    and rd: "sync_read_hwm lib (Some k) kp d = Inr hwm" and ck: "check_hwm n h hwm = Inr ()"
    by (auto simp: sync_verify_chain_def bindR_eq_Inr split: if_splits)
  note ve = verify_lines_entries [OF v]
  have "\<exists>data k' m head. ad_hwm d = Some (Parsed (JObj data)) \<and> (k' = k \<or> kp = Some k')
         \<and> str_of (al_str lib) (get_or_null data ''mac'') = al_hmac lib k' (hwm_message m head)
         \<and> m \<le> int n \<and> (m = int n \<longrightarrow> h = JStr head)" if "n \<noteq> 0"
  proof -
    from ck that obtain m head where hw: "hwm = Some (m, head)" by (cases hwm) (auto simp: check_hwm_def)
    from ck hw have "m \<le> int n \<and> (m = int n \<longrightarrow> h = JStr head)"
      by (auto simp: check_hwm_def split: if_splits)
    with read_hwm_signed [OF rd [unfolded hw]] show ?thesis unfolding compute_hwm_mac_def by blast
  qed
  with verify_entries_length [OF ve] verify_entries_hmac [OF ve] show ?thesis by simp
qed

theorem keyed_log_is_signed_witness:
  "\<exists>ls n h. sync_verify_chain demo_audit_lib (Some []) None
       (snd (audit_history demo_audit_lib False [LogRecord demo_actor demo_event] demo_start)) = Inr (n, h)
     \<and> n = length (entries ls)"
proof -
  let ?d = "snd (audit_history demo_audit_lib False [LogRecord demo_actor demo_event] demo_start)"
  obtain n h where v: "sync_verify_chain demo_audit_lib (Some []) None ?d = Inr (n, h)"
    using demo_log_verifies unfolding is_ok_iff by auto
  then obtain ls where l: "ad_log ?d = Some ls"
    by (cases "ad_log ?d") (auto simp: sync_verify_chain_def split: if_splits)
  from keyed_log_is_signed [OF v l] v show ?thesis by blast
qed

end
