(* ===== verification/EditDistance.thy ===== *)
theory EditDistance
  imports Prelude
begin

text \<open>
  The Levenshtein routine both manifest engines carry (\<open>_levenshtein\<close> in
  \<open>mcp_armor/engines/supply_chain.py\<close> and \<open>integrity.py\<close>): the row-by-row loop, and the proof
  that it returns the least number of single-character edits between the two names.
\<close>

section \<open>The loop\<close>

text \<open>One inner loop: \<open>prev\<close> from position \<open>j\<close> on, and \<open>curr[j]\<close>; the result is \<open>curr[j+1:]\<close>.\<close>

fun lev_inner :: "char \<Rightarrow> string \<Rightarrow> nat list \<Rightarrow> nat \<Rightarrow> nat list" where
  "lev_inner ca (cb # bs) (p0 # p1 # ps) cj =
     (let v = min (min (p1 + 1) (cj + 1)) (p0 + (if ca \<noteq> cb then 1 else 0))
      in v # lev_inner ca bs (p1 # ps) v)"
| "lev_inner ca _ _ _ = []"

fun lev_rows :: "string \<Rightarrow> nat \<Rightarrow> string \<Rightarrow> nat list \<Rightarrow> nat list" where
  "lev_rows b i [] prev = prev"
| "lev_rows b i (ca # as) prev = lev_rows b (i + 1) as ((i + 1) # lev_inner ca b prev (i + 1))"

function levenshtein :: "string \<Rightarrow> string \<Rightarrow> nat" where
  "levenshtein a b =
     (if length a < length b then levenshtein b a
      else if b = [] then length a
      else last (lev_rows b 0 a [0..<length b + 1]))"
  by pat_completeness auto
termination
  by (relation "measure (\<lambda>(a, b). if length a < length b then 1 else 0)") auto

declare levenshtein.simps [simp del]

section \<open>The reference\<close>

inductive edit1 :: "string \<Rightarrow> string \<Rightarrow> bool" where
  insert_char: "edit1 (u @ v) (u @ c # v)"
| delete_char: "edit1 (u @ c # v) (u @ v)"
| replace_char: "edit1 (u @ c # v) (u @ d # v)"

definition edit_steps :: "nat \<Rightarrow> string \<Rightarrow> string \<Rightarrow> bool" where
  "edit_steps n a b = (edit1 ^^ n) a b"

fun edist :: "string \<Rightarrow> string \<Rightarrow> nat" where
  "edist [] ys = length ys"
| "edist xs [] = length xs"
| "edist (x # xs) (y # ys) = min (min (edist xs (y # ys) + 1) (edist (x # xs) ys + 1))
     (edist xs ys + (if x \<noteq> y then 1 else 0))"

lemma edist_Nil2 [simp]: "edist xs [] = length xs"
  by (cases xs) auto

lemma edit1_Cons: "edit1 a b \<Longrightarrow> edit1 (x # a) (x # b)"
proof (induction rule: edit1.induct)
  case (insert_char u v c)
  show ?case using edit1.insert_char [of "x # u" v c] by simp
next
  case (delete_char u c v)
  show ?case using edit1.delete_char [of "x # u" c v] by simp
next
  case (replace_char u c v d)
  show ?case using edit1.replace_char [of "x # u" c v d] by simp
qed

lemma steps_Cons: "edit_steps n a b \<Longrightarrow> edit_steps n (x # a) (x # b)"
  unfolding edit_steps_def
  by (induction n arbitrary: b) (auto intro!: relcomppI edit1_Cons elim!: relcomppE)

lemma steps_Suc: "edit1 a b \<Longrightarrow> edit_steps n b c \<Longrightarrow> edit_steps (Suc n) a c"
  unfolding edit_steps_def by (rule relpowp_Suc_I2)

lemma edit1_ends [intro]: "edit1 a (c # a)" "edit1 (c # a) a" "edit1 (c # a) (d # a)"
  using insert_char [of "[]" a c] delete_char [of "[]" c a] replace_char [of "[]" c a d] by simp_all

lemma edist_steps: "edit_steps (edist a b) a b"
proof (induction a b rule: edist.induct)
  case (1 ys)
  show ?case
  proof (induction ys)
    case (Cons y ys)
    from steps_Cons [OF Cons, of y] have "edit_steps (length ys) [y] (y # ys)" by simp
    then show ?case using steps_Suc [OF edit1_ends(1) [of "[]" y]] by simp
  qed (simp add: edit_steps_def)
next
  case (2 x xs)
  show ?case
  proof (induction xs arbitrary: x)
    case Nil
    show ?case using steps_Suc [OF edit1_ends(2) [of x "[]"], of 0 "[]"] by (simp add: edit_steps_def)
  next
    case (Cons y ys)
    show ?case using steps_Suc [OF edit1_ends(2) Cons] by simp
  qed
next
  case (3 x xs y ys)
  have del: "edit_steps (edist xs (y # ys) + 1) (x # xs) (y # ys)"
    using steps_Suc [OF edit1_ends(2) 3(1)] by simp
  have ins: "edit_steps (edist (x # xs) ys + 1) (x # xs) (y # ys)"
    using steps_Suc [OF edit1_ends(1) steps_Cons [OF 3(2), of y]] by simp
  have rep: "edit_steps (edist xs ys + (if x \<noteq> y then 1 else 0)) (x # xs) (y # ys)"
    using steps_Suc [OF edit1_ends(3) [of x xs y] steps_Cons [OF 3(3), of y]] steps_Cons [OF 3(3), of y] by simp
  from del ins rep show ?case by (auto simp: min_def)
qed

lemma edist_insert2: "edist v (d # ds) \<le> edist v ds + 1"
  by (cases v) auto

lemma edist_insert1: "edist v c \<le> edist (x # v) c + 1"
proof (induction c)
  case (Cons d ds)
  have "edist v (d # ds) \<le> edist v ds + 1" by (rule edist_insert2)
  with Cons show ?case by auto
qed simp

lemma edist_replace1: "edist (x # v) c \<le> edist (y # v) c + 1"
  by (induction c) (auto simp: min_def)

lemma edist_lift: "(\<And>c. edist a c \<le> edist b c + 1) \<Longrightarrow> edist (z # a) c \<le> edist (z # b) c + 1"
proof (induction c)
  case Nil
  from Nil [of "[]"] show ?case by simp
next
  case (Cons d ds)
  from Cons.prems [of "d # ds"] Cons.prems [of ds] Cons.IH [OF Cons.prems] show ?case
    by (auto simp: min_def)
qed

lemma edist_edit1: "edit1 a b \<Longrightarrow> edist a c \<le> edist b c + 1"
proof (induction arbitrary: c rule: edit1.induct)
  case (insert_char u v x)
  show ?case by (induction u arbitrary: c) (simp_all only: append.simps edist_insert1 edist_lift)
next
  case (delete_char u x v)
  have "edist (x # v) c \<le> edist v c + 1" for c by (cases c) auto
  then show ?case by (induction u arbitrary: c) (simp_all only: append.simps edist_lift)
next
  case (replace_char u x v y)
  show ?case by (induction u arbitrary: c) (simp_all only: append.simps edist_replace1 edist_lift)
qed

lemma edist_self [simp]: "edist a a = 0"
  by (induction a) auto

lemma edist_least: "edit_steps n a b \<Longrightarrow> edist a b \<le> n"
proof (induction n arbitrary: a)
  case (Suc n)
  then obtain a' where "edit1 a a'" "edit_steps n a' b"
    unfolding edit_steps_def by (metis relpowp_Suc_D2)
  with Suc.IH [of a'] edist_edit1 [of a a' b] show ?case by simp
qed (simp add: edit_steps_def)

lemma edit1_rev: "edit1 a b \<Longrightarrow> edit1 (rev a) (rev b)"
  by (induction rule: edit1.induct) (auto simp: edit1.intros)

lemma edit1_sym: "edit1 a b \<Longrightarrow> edit1 b a"
  by (induction rule: edit1.induct) (auto simp: edit1.intros)

lemma steps_rev: "edit_steps n a b \<Longrightarrow> edit_steps n (rev a) (rev b)"
  unfolding edit_steps_def
  by (induction n arbitrary: b) (auto intro!: relcomppI edit1_rev elim!: relcomppE)

lemma steps_sym: "edit_steps n a b \<Longrightarrow> edit_steps n b a"
proof (induction n arbitrary: a)
  case (Suc n)
  then obtain a' where "edit1 a a'" "edit_steps n a' b"
    unfolding edit_steps_def by (metis relpowp_Suc_D2)
  with Suc.IH edit1_sym show ?case unfolding edit_steps_def by (metis relpowp_Suc_I)
qed (simp add: edit_steps_def)

lemma edist_rev: "edist (rev a) (rev b) = edist a b"
  using edist_least [OF steps_rev [OF edist_steps [of a b]]]
    edist_least [OF steps_rev [OF edist_steps [of "rev a" "rev b"]]] by simp

lemma edist_sym: "edist a b = edist b a"
  using edist_least [OF steps_sym [OF edist_steps [of a b]]]
    edist_least [OF steps_sym [OF edist_steps [of b a]]] by simp

section \<open>The loop computes the reference\<close>

text \<open>The row of distances from \<open>ra\<close> to every prefix of \<open>rb\<close> (both reversed) extended by \<open>bs\<close>.\<close>

fun dist_row :: "string \<Rightarrow> string \<Rightarrow> string \<Rightarrow> nat list" where
  "dist_row ra rb [] = [edist ra rb]"
| "dist_row ra rb (c # cs) = edist ra rb # dist_row ra (c # rb) cs"

lemma dist_row_Cons: "\<exists>ps. dist_row ra rb bs = edist ra rb # ps"
  by (cases bs) auto

lemma lev_inner_row:
  "edist (ca # ra) rb # lev_inner ca bs (dist_row ra rb bs) (edist (ca # ra) rb) = dist_row (ca # ra) rb bs"
proof (induction bs arbitrary: rb)
  case (Cons cb bs)
  obtain ps where ps: "dist_row ra (cb # rb) bs = edist ra (cb # rb) # ps" using dist_row_Cons by blast
  with Cons.IH [of "cb # rb"] show ?case by (simp add: Let_def)
qed simp

lemma lev_rows_row: "lev_rows b (length ra) as (dist_row ra [] b) = dist_row (rev as @ ra) [] b"
proof (induction as arbitrary: ra)
  case (Cons ca as)
  have "Suc (length ra) # lev_inner ca b (dist_row ra [] b) (Suc (length ra)) = dist_row (ca # ra) [] b"
    using lev_inner_row [of ca ra "[]" b] by simp
  with Cons.IH [of "ca # ra"] show ?case by simp
qed simp

lemma dist_row_first: "dist_row [] rb bs = [length rb..<length rb + length bs + 1]"
proof (induction bs arbitrary: rb)
  case (Cons c cs)
  then have "dist_row [] (c # rb) cs = [Suc (length rb)..<length rb + length (c # cs) + 1]" by simp
  then show ?case by (subst upt_conv_Cons) (simp_all del: upt_Suc)
qed simp

lemma dist_row_last: "last (dist_row ra rb bs) = edist ra (rev bs @ rb)"
proof (induction bs arbitrary: rb)
  case (Cons c cs)
  then show ?case using dist_row_Cons [of ra "c # rb" cs] by auto
qed simp

lemma levenshtein_edist: "levenshtein a b = edist a b"
proof (induction a b rule: levenshtein.induct)
  case (1 a b)
  have "last (lev_rows b 0 a [0..<length b + 1]) = edist (rev a) (rev b)"
    using lev_rows_row [of b "[]" a] dist_row_first [of "[]" b] dist_row_last [of "rev a" "[]" b] by simp
  with 1 edist_sym [of a b] show ?case
    by (subst levenshtein.simps) (auto simp: edist_rev)
qed

lemma levenshtein_zero: "levenshtein a b = 0 \<longleftrightarrow> a = b"
proof
  assume "levenshtein a b = 0"
  then have "edit_steps 0 a b" using edist_steps [of a b] by (simp add: levenshtein_edist)
  then show "a = b" by (simp add: edit_steps_def)
qed (simp add: levenshtein_edist)

section \<open>Properties\<close>

text \<open>
  C32: The row loop returns the edit distance: the two names are connected by that many
  single-character insertions, deletions and replacements, and by no fewer.
\<close>

theorem levenshtein_is_edit_distance:
  "levenshtein a b = (LEAST n. edit_steps n a b)"
proof -
  have "(LEAST n. edit_steps n a b) = edist a b"
    by (rule Least_equality) (auto intro: edist_steps edist_least)
  then show ?thesis by (simp add: levenshtein_edist)
qed

end
