(* ===== verification/SupplyChain.thy ===== *)
theory SupplyChain
  imports Engine EditDistance
begin

text \<open>
  T11: tool allowlist, typosquat detection and registry signatures
  (\<open>mcp_armor/engines/supply_chain.py\<close>).  Unicode normalisation, the Ed25519 library and the
  float text are the fields of \<open>supply_lib\<close>, with keys of an abstract type.
\<close>

section \<open>Library, tools and names\<close>

record 'k supply_lib =
  sl_nfkc :: "string \<Rightarrow> string"
  sl_load_pem :: "string \<Rightarrow> 'k option option"   \<comment> \<open>raises, not an Ed25519 key, the key\<close>
  sl_load_raw :: "string \<Rightarrow> 'k option"          \<comment> \<open>base64 decode and \<open>from_public_bytes\<close>\<close>
  sl_verify :: "'k \<Rightarrow> bytes \<Rightarrow> bytes \<Rightarrow> bool"    \<comment> \<open>key, signature, message\<close>
  sl_unhex :: "string \<Rightarrow> bytes option"
  sl_fr :: "pyfloat \<Rightarrow> string"
  sl_str :: "json \<Rightarrow> string"

definition supply_error :: "string \<Rightarrow> exn" where
  "supply_error site = Cosai SupplyChainError site"

text \<open>\<open>list(resp.result["tools"])\<close> and \<open>tool.get(...)\<close> on its elements.\<close>

definition tool_list :: "json \<Rightarrow> json list result" where
  "tool_list v = (case v of
     JArr ts \<Rightarrow> Inr ts
   | JObj kvs \<Rightarrow> Inr (map (\<lambda>p. JStr (fst p)) kvs)
   | JStr s \<Rightarrow> Inr (map (\<lambda>c. JStr [c]) s)
   | _ \<Rightarrow> Inl (PyExc TypeError ''not iterable''))"

definition tool_dict :: "json \<Rightarrow> (string, json) dict result" where
  "tool_dict t = (case t of JObj d \<Rightarrow> Inr d | _ \<Rightarrow> Inl (PyExc AttributeError ''get''))"

definition dict_get_str :: "(string, json) dict \<Rightarrow> string \<Rightarrow> json" where
  "dict_get_str d k = (case dget d k of None \<Rightarrow> JStr [] | Some v \<Rightarrow> v)"

text \<open>The name of a manifest entry, when it is a non-empty string.\<close>

definition tool_name :: "(string, json) dict \<Rightarrow> string option" where
  "tool_name d = (case dict_get_str d ''name'' of JStr s \<Rightarrow> if s = [] then None else Some s | _ \<Rightarrow> None)"

section \<open>The engine\<close>

record 'k supply_engine =
  sc_allowlist :: "string list option"   \<comment> \<open>the normalised names\<close>
  sc_require_sig :: bool
  sc_threshold :: nat
  sc_pub_key :: "'k option"

definition load_ed25519_public_key :: "'k supply_lib \<Rightarrow> string \<Rightarrow> 'k result" where
  "load_ed25519_public_key lib text0 = (let s = strip text0 in
     if starts_with ''-----'' s then
       (case sl_load_pem lib s of
          None \<Rightarrow> Inl (PyExc ValueError ''load_pem_public_key'')
        | Some None \<Rightarrow> Inl (supply_error ''registry public key is not Ed25519'')
        | Some (Some k) \<Rightarrow> Inr k)
     else case sl_load_raw lib s of
            None \<Rightarrow> Inl (supply_error ''cannot load registry public key'') | Some k \<Rightarrow> Inr k)"

definition new_supply_engine :: "'k supply_lib \<Rightarrow> string list option \<Rightarrow> bool \<Rightarrow> nat \<Rightarrow> string
    \<Rightarrow> 'k supply_engine result" where
  "new_supply_engine lib allowlist require_sig threshold key =
     bindR (if key = [] then Inr None else bindR (load_ed25519_public_key lib key) (\<lambda>k. Inr (Some k))) (\<lambda>pk.
     Inr \<lparr>sc_allowlist = map_option (\<lambda>ns. remdups (map (sl_nfkc lib) ns)) allowlist,
          sc_require_sig = require_sig, sc_threshold = threshold, sc_pub_key = pk\<rparr>)"

definition supply_on_startup :: "'k supply_engine \<Rightarrow> unit result" where
  "supply_on_startup e = require (\<not> (sc_require_sig e \<and> sc_pub_key e = None)) (supply_error ''no registry_public_key'')"

definition check_allowlist :: "'k supply_lib \<Rightarrow> 'k supply_engine \<Rightarrow> string \<Rightarrow> unit result" where
  "check_allowlist lib e name = (case sc_allowlist e of
     None \<Rightarrow> Inr ()
   | Some names \<Rightarrow> require (sl_nfkc lib name \<in> set names) (supply_error ''not on the allowlist (T11-001)''))"

fun near_miss :: "nat \<Rightarrow> string \<Rightarrow> string list \<Rightarrow> bool" where
  "near_miss threshold nm [] = False"
| "near_miss threshold nm (allowed # names) =
     (let dist = levenshtein nm allowed in
      if 0 < dist \<and> dist \<le> threshold then True else near_miss threshold nm names)"

definition check_typosquat :: "'k supply_lib \<Rightarrow> 'k supply_engine \<Rightarrow> string \<Rightarrow> unit result" where
  "check_typosquat lib e name = (case sc_allowlist e of
     None \<Rightarrow> Inr ()
   | Some names \<Rightarrow>
       (let nm = sl_nfkc lib name in
        if nm \<in> set names then Inr ()
        else require (\<not> near_miss (sc_threshold e) nm names) (supply_error ''typosquatting (T11-002)'')))"

definition signed_body :: "'k supply_lib \<Rightarrow> (string, json) dict \<Rightarrow> bytes" where
  "signed_body lib tool = utf8 (dumps_canon (sl_fr lib) (JObj (filter (\<lambda>p. fst p \<noteq> ''_sig'') tool)))"

definition verify_signature :: "'k supply_lib \<Rightarrow> 'k supply_engine \<Rightarrow> (string, json) dict \<Rightarrow> string
    \<Rightarrow> unit result" where
  "verify_signature lib e tool signature_hex = (case sc_pub_key e of
     None \<Rightarrow> Inl (supply_error ''no public key configured'')
   | Some key \<Rightarrow>
       if \<not> is_ascii signature_hex then Inl (PyExc ValueError ''unhexlify'')
       else case sl_unhex lib signature_hex of
              None \<Rightarrow> Inl (supply_error ''signature invalid (T11-003)'')
            | Some sig \<Rightarrow> require (sl_verify lib key sig (signed_body lib tool))
                 (supply_error ''signature invalid (T11-003)''))"

definition validate_tool :: "'k supply_lib \<Rightarrow> 'k supply_engine \<Rightarrow> json \<Rightarrow> unit result" where
  "validate_tool lib e t = bindR (tool_dict t) (\<lambda>tool. case tool_name tool of
     None \<Rightarrow> Inl (supply_error ''missing name'')
   | Some name \<Rightarrow>
       bindR (check_typosquat lib e name) (\<lambda>_.
       bindR (check_allowlist lib e name) (\<lambda>_.
       if sc_require_sig e then
         (let sig = dict_get_str tool ''_sig'' in
          if \<not> truthy sig then Inl (supply_error ''no registry signature (T11-003)'')
          else verify_signature lib e tool (str_of (sl_str lib) sig))
       else Inr ())))"

fun validate_tools :: "'k supply_lib \<Rightarrow> 'k supply_engine \<Rightarrow> json list \<Rightarrow> unit result" where
  "validate_tools lib e [] = Inr ()"
| "validate_tools lib e (t # ts) = bindR (validate_tool lib e t) (\<lambda>_. validate_tools lib e ts)"

definition supply_on_request :: "'k supply_lib \<Rightarrow> 'k supply_engine request_hook_fn" where
  "supply_on_request lib c req e =
     (if rq_method req = ''tools/call'' then
        (case dict_get_str (rq_params req) ''name'' of
           JStr name \<Rightarrow>
             if name = [] then (Inr c, e)
             else (bindR (check_typosquat lib e name) (\<lambda>_.
                   bindR (check_allowlist lib e name) (\<lambda>_. Inr c)), e)
         | _ \<Rightarrow> (Inr c, e))
      else (Inr c, e))"

definition supply_on_response :: "'k supply_lib \<Rightarrow> 'k supply_engine response_hook_fn" where
  "supply_on_response lib c resp e = (case rs_result resp of
     None \<Rightarrow> (Inr c, e)
   | Some result \<Rightarrow> (case dget result ''tools'' of
       None \<Rightarrow> (Inr c, e)
     | Some v \<Rightarrow> (bindR (tool_list v) (\<lambda>ts. bindR (validate_tools lib e ts) (\<lambda>_. Inr c)), e)))"

section \<open>Lemmas\<close>

lemma near_miss_iff:
  "near_miss n nm names \<longleftrightarrow> (\<exists>a \<in> set names. 0 < levenshtein nm a \<and> levenshtein nm a \<le> n)"
  by (induction names) (auto simp: Let_def)

lemma name_checks_ok:
  "bindR (check_typosquat lib e name) (\<lambda>_. check_allowlist lib e name) = Inr () \<longleftrightarrow>
     (\<forall>names. sc_allowlist e = Some names \<longrightarrow> sl_nfkc lib name \<in> set names)"
  by (auto simp: check_typosquat_def check_allowlist_def Let_def bindR_eq_Inr split: option.splits)

lemma name_checks_ok':
  "check_typosquat lib e name = Inr () \<and> check_allowlist lib e name = Inr () \<longleftrightarrow>
     (\<forall>names. sc_allowlist e = Some names \<longrightarrow> sl_nfkc lib name \<in> set names)"
  using name_checks_ok [of lib e name] by (simp add: bindR_eq_Inr)

definition signature_ok :: "'k supply_lib \<Rightarrow> 'k supply_engine \<Rightarrow> (string, json) dict \<Rightarrow> bool" where
  "signature_ok lib e tool \<longleftrightarrow> (\<exists>key sig. sc_pub_key e = Some key \<and> truthy (dict_get_str tool ''_sig'')
     \<and> is_ascii (str_of (sl_str lib) (dict_get_str tool ''_sig''))
     \<and> sl_unhex lib (str_of (sl_str lib) (dict_get_str tool ''_sig'')) = Some sig
     \<and> sl_verify lib key sig (signed_body lib tool))"

lemma validate_tool_ok:
  "validate_tool lib e t = Inr () \<longleftrightarrow> (\<exists>tool name. t = JObj tool \<and> tool_name tool = Some name
     \<and> (\<forall>names. sc_allowlist e = Some names \<longrightarrow> sl_nfkc lib name \<in> set names)
     \<and> (sc_require_sig e \<longrightarrow> signature_ok lib e tool))"
proof (cases t)
  case (JObj tool)
  have "(if sc_require_sig e then
         (let sig = dict_get_str tool ''_sig'' in
          if \<not> truthy sig then Inl (supply_error ''no registry signature (T11-003)'')
          else verify_signature lib e tool (str_of (sl_str lib) sig))
       else Inr ()) = Inr () \<longleftrightarrow> (sc_require_sig e \<longrightarrow> signature_ok lib e tool)"
    by (auto simp: Let_def signature_ok_def verify_signature_def split: option.splits)
  with JObj show ?thesis
    by (auto simp: validate_tool_def tool_dict_def bindR_eq_Inr name_checks_ok' [symmetric] split: option.splits)
qed (simp_all add: validate_tool_def tool_dict_def)

lemma validate_tools_ok: "validate_tools lib e ts = Inr () \<longleftrightarrow> (\<forall>t \<in> set ts. validate_tool lib e t = Inr ())"
  by (induction ts) (auto simp: bindR_eq_Inr)

interpretation supply_rq: request_hook "supply_on_request lib" for lib
  by unfold_locales (auto simp: supply_on_request_def bindR_eq_Inr split: if_splits json.splits)

interpretation supply_rs: response_hook "supply_on_response lib" for lib
  by unfold_locales (auto simp: supply_on_response_def bindR_eq_Inr split: option.splits)

section \<open>Properties\<close>

text \<open>
  A tools listing reaches the client only if every entry is an object with a non-empty
  name that is on the allowlist after NFKC (when there is one) and, when signatures are
  required, carries a registry signature that verifies over the whole entry but \<open>_sig\<close>.
\<close>

theorem manifest_accepted_iff:
  assumes "rs_result resp = Some result" and "dget result ''tools'' = Some (JArr ts)"
  shows "fst (supply_on_response lib c resp e) = Inr c \<longleftrightarrow>
    (\<forall>t \<in> set ts. \<exists>tool name. t = JObj tool \<and> tool_name tool = Some name
       \<and> (\<forall>names. sc_allowlist e = Some names \<longrightarrow> sl_nfkc lib name \<in> set names)
       \<and> (sc_require_sig e \<longrightarrow> signature_ok lib e tool))"
  using assms
  by (auto simp: supply_on_response_def tool_list_def bindR_eq_Inr validate_tools_ok validate_tool_ok)

definition demo_supply :: "nat supply_lib" where
  "demo_supply = \<lparr>sl_nfkc = (\<lambda>s. s), sl_load_pem = (\<lambda>_. None), sl_load_raw = (\<lambda>_. Some 7),
     sl_verify = (\<lambda>k s m. s = [1]), sl_unhex = (\<lambda>s. if s = ''01'' then Some [1] else None),
     sl_fr = ratio_text, sl_str = (\<lambda>_. [])\<rparr>"

definition demo_supply_engine :: "nat supply_engine" where
  "demo_supply_engine = \<lparr>sc_allowlist = Some [''search''], sc_require_sig = True, sc_threshold = 1,
     sc_pub_key = Some 7\<rparr>"

definition demo_listing :: mcp_response where
  "demo_listing = \<lparr>rs_result = Some [(''tools'', JArr [JObj [(''name'', JStr ''search''), (''_sig'', JStr ''01'')]])],
     rs_error = None, rs_raw_body = [], rs_scan_body = []\<rparr>"

theorem manifest_accepted_iff_witness:
  "fst (supply_on_response demo_supply (new_context 0 ''s'' ''http'') demo_listing demo_supply_engine)
     = Inr (new_context 0 ''s'' ''http'')"
proof -
  let ?ts = "[JObj [(''name'', JStr ''search''), (''_sig'', JStr ''01'')]]"
  have l: "rs_result demo_listing = Some [(''tools'', JArr ?ts)]" by (simp add: demo_listing_def)
  have t: "dget [(''tools'', JArr ?ts)] ''tools'' = Some (JArr ?ts)" by simp
  show ?thesis
    unfolding manifest_accepted_iff [OF l t]
    by (simp add: tool_name_def dict_get_str_def demo_supply_engine_def demo_supply_def signature_ok_def
        str_of_def is_ascii_def ord_of_def)
qed

text \<open>
  A call of a tool whose normalised name is not on the allowlist is refused, and reported
  as typosquatting exactly when an allowlisted name lies within the edit-distance threshold.
\<close>

theorem unlisted_call_refused:
  assumes "rq_method req = ''tools/call''" and "dget (rq_params req) ''name'' = Some (JStr name)" and "name \<noteq> []"
    and "sc_allowlist e = Some names" and "sl_nfkc lib name \<notin> set names"
  shows "fst (supply_on_request lib c req e) = Inl (supply_error
    (if \<exists>a \<in> set names. levenshtein (sl_nfkc lib name) a \<le> sc_threshold e
     then ''typosquatting (T11-002)'' else ''not on the allowlist (T11-001)''))"
proof -
  have pos: "0 < levenshtein (sl_nfkc lib name) a" if "a \<in> set names" for a
    using assms(5) that levenshtein_zero [of "sl_nfkc lib name" a] by auto
  show ?thesis
    using assms pos
    by (auto simp: supply_on_request_def dict_get_str_def check_typosquat_def check_allowlist_def Let_def
        near_miss_iff require_def)
qed

theorem unlisted_call_refused_witness:
  "fst (supply_on_request demo_supply (new_context 0 ''s'' ''http'')
     \<lparr>rq_method = ''tools/call'', rq_params = [(''name'', JStr ''serch'')], rq_session_id = ''s'',
       rq_headers = [], rq_query = [], rq_transport = ''http'', rq_header_pairs = []\<rparr> demo_supply_engine)
   = Inl (supply_error ''typosquatting (T11-002)'')"
proof -
  have "levenshtein ''serch'' ''search'' = 1" by code_simp
  then show ?thesis
    by (subst unlisted_call_refused [where name = "''serch''" and names = "[''search'']"])
       (simp_all add: demo_supply_engine_def demo_supply_def)
qed

end
