(* ===== verification/Integrity.thy ===== *)
theory Integrity
  imports SupplyChain
begin

text \<open>
  T6: manifest integrity (\<open>mcp_armor/engines/integrity.py\<close>): the manifest hash, typosquat and
  shadowing scans, and drift detection against the session's baseline.  The engine carries its
  own copy of the Levenshtein routine, the same code as in the supply-chain engine, so it is
  \<open>levenshtein\<close> here too.  \<open>sort_other\<close> is what \<open>sorted\<close> does with names that are not all
  strings (\<open>None\<close>: it raises).
\<close>

record integrity_lib =
  il_nfkc :: "string \<Rightarrow> string"
  il_sha :: "bytes \<Rightarrow> string"
  il_fr :: "pyfloat \<Rightarrow> string"
  il_sort_other :: "json list \<Rightarrow> json list option"

record integrity_engine =
  in_fail_on_drift :: bool
  in_allowlist :: "string list option"
  in_distance :: nat

definition integrity_error :: "string \<Rightarrow> exn" where
  "integrity_error site = Cosai IntegrityError site"

definition new_integrity_engine :: "integrity_lib \<Rightarrow> bool \<Rightarrow> string list option \<Rightarrow> nat \<Rightarrow> integrity_engine" where
  "new_integrity_engine lib fail_on_drift allowlist limit = \<lparr>in_fail_on_drift = fail_on_drift,
     in_allowlist = map_option (\<lambda>ns. remdups (map (il_nfkc lib) ns)) allowlist, in_distance = limit\<rparr>"

section \<open>The manifest hash\<close>

fun name_key :: "json \<Rightarrow> string" where
  "name_key (JObj d) = (case dict_get_str d ''name'' of JStr s \<Rightarrow> s | _ \<Rightarrow> [])"
| "name_key _ = []"

definition has_string_name :: "json \<Rightarrow> bool" where
  "has_string_name t = (case t of JObj d \<Rightarrow> is_str (dict_get_str d ''name'') | _ \<Rightarrow> False)"

definition sort_tools :: "integrity_lib \<Rightarrow> json list \<Rightarrow> json list result" where
  "sort_tools lib tools =
     (if list_ex (\<lambda>t. \<not> is_obj t) tools then Inl (PyExc AttributeError ''get'')
      else if list_all has_string_name tools then Inr (sort_key name_key tools)
      else if length tools \<le> 1 then Inr tools
      else case il_sort_other lib tools of
             None \<Rightarrow> Inl (PyExc TypeError ''sorted'') | Some ts \<Rightarrow> Inr ts)"

definition manifest_hash :: "integrity_lib \<Rightarrow> json list \<Rightarrow> string result" where
  "manifest_hash lib tools = bindR (sort_tools lib tools) (\<lambda>ts.
     Inr (il_sha lib (utf8 (jprint (il_fr lib) '' '' (canon (JArr ts))))))"

section \<open>The scans\<close>

fun squat_scan :: "nat \<Rightarrow> string \<Rightarrow> string list \<Rightarrow> unit result" where
  "squat_scan limit nm [] = Inr ()"
| "squat_scan limit nm (allowed # names) =
     (let dist = levenshtein nm allowed in
      if dist = 0 then squat_scan limit nm names
      else if dist \<le> 1 then Inl (integrity_error ''distance 1 (T6-002)'')
      else if dist \<le> limit then Inl (integrity_error ''within typosquat distance (T6-002)'')
      else squat_scan limit nm names)"

definition integrity_check_typosquat :: "integrity_lib \<Rightarrow> integrity_engine \<Rightarrow> string \<Rightarrow> unit result" where
  "integrity_check_typosquat lib e name = (case in_allowlist e of
     None \<Rightarrow> Inr ()
   | Some names \<Rightarrow> (let nm = il_nfkc lib name in
       if nm \<in> set names then Inr () else squat_scan (in_distance e) nm names))"

fun check_shadowing :: "integrity_lib \<Rightarrow> (string, string) dict \<Rightarrow> json list \<Rightarrow> unit result" where
  "check_shadowing lib seen [] = Inr ()"
| "check_shadowing lib seen (t # ts) = bindR (tool_dict t) (\<lambda>tool. case tool_name tool of
     None \<Rightarrow> Inl (integrity_error ''missing name'')
   | Some name \<Rightarrow> (let nm = il_nfkc lib name in
       if dhas seen nm then Inl (integrity_error ''tool shadowing (T6-003)'')
       else check_shadowing lib (AList.update nm name seen) ts))"

fun scan_names :: "integrity_lib \<Rightarrow> integrity_engine \<Rightarrow> json list \<Rightarrow> unit result" where
  "scan_names lib e [] = Inr ()"
| "scan_names lib e (t # ts) = bindR (tool_dict t) (\<lambda>tool. case tool_name tool of
     None \<Rightarrow> Inl (integrity_error ''missing name'')
   | Some name \<Rightarrow> bindR (integrity_check_typosquat lib e name) (\<lambda>_. scan_names lib e ts))"

definition scan_tool_manifest :: "integrity_lib \<Rightarrow> integrity_engine \<Rightarrow> json list \<Rightarrow> unit result" where
  "scan_tool_manifest lib e tools = bindR (check_shadowing lib [] tools) (\<lambda>_. scan_names lib e tools)"

definition drift_finding :: finding where
  "drift_finding = \<lparr>f_threat = T6, f_severity = HIGH, f_code = ''T6-001'', f_location = ''tools/list (mid-session)''\<rparr>"

definition check_drift :: "integrity_lib \<Rightarrow> integrity_engine \<Rightarrow> ctx \<Rightarrow> json list \<Rightarrow> ctx result" where
  "check_drift lib e c tools = bindR (manifest_hash lib tools) (\<lambda>h.
     if tool_manifest_hash c \<noteq> [] \<and> h \<noteq> tool_manifest_hash c then
       (if in_fail_on_drift e then Inl (integrity_error ''manifest changed (T6-001)'')
        else Inr (with_finding c drift_finding))
     else Inr c)"

definition integrity_on_response :: "integrity_lib \<Rightarrow> integrity_engine response_hook_fn" where
  "integrity_on_response lib c resp e = (case rs_result resp of
     None \<Rightarrow> (Inr c, e)
   | Some result \<Rightarrow> (case dget result ''tools'' of
       None \<Rightarrow> (Inr c, e)
     | Some v \<Rightarrow>
         (bindR (tool_list v) (\<lambda>tools. bindR (manifest_hash lib tools) (\<lambda>new_hash.
            if tool_manifest_hash c = []
            then bindR (scan_tool_manifest lib e tools) (\<lambda>_. Inr (with_manifest_hash c new_hash))
            else check_drift lib e c tools)), e)))"

section \<open>Lemmas\<close>

lemma squat_scan_ok: "squat_scan limit nm names = Inr () \<longleftrightarrow>
    (\<forall>a \<in> set names. a = nm \<or> levenshtein nm a > max 1 limit)"
proof (induction names)
  case (Cons a names)
  have "levenshtein nm a = 0 \<longleftrightarrow> a = nm" using levenshtein_zero [of nm a] by auto
  with Cons show ?case by (auto simp: Let_def)
qed simp

definition manifest_names :: "json list \<Rightarrow> string list option" where
  "manifest_names tools = those (map (\<lambda>t. case t of JObj d \<Rightarrow> tool_name d | _ \<Rightarrow> None) tools)"

lemma names_strings: "manifest_names ts = Some names \<Longrightarrow> list_all has_string_name ts"
proof (induction ts arbitrary: names)
  case (Cons t ts)
  then show ?case
    by (cases t) (auto simp: manifest_names_def has_string_name_def tool_name_def split: option.splits json.splits)
qed simp

lemma check_shadowing_ok:
  "check_shadowing lib seen tools = Inr () \<longleftrightarrow> (\<exists>names. manifest_names tools = Some names
     \<and> distinct (map (il_nfkc lib) names) \<and> fst ` set seen \<inter> set (map (il_nfkc lib) names) = {})"
proof (induction tools arbitrary: seen)
  case Nil
  then show ?case by (simp add: manifest_names_def)
next
  case (Cons t ts)
  show ?case
  proof (cases t)
    case (JObj d)
    show ?thesis
    proof (cases "tool_name d")
      case (Some name)
      let ?n = "il_nfkc lib name"
      show ?thesis
        using JObj Some Cons [of "AList.update ?n name seen"]
        by (auto simp: manifest_names_def tool_dict_def Let_def keys_update)
    qed (simp add: JObj tool_dict_def manifest_names_def)
  qed (simp_all add: tool_dict_def manifest_names_def)
qed

lemma scan_names_ok:
  "manifest_names tools = Some names \<Longrightarrow> scan_names lib e tools = Inr () \<longleftrightarrow>
     (\<forall>n \<in> set names. integrity_check_typosquat lib e n = Inr ())"
proof (induction tools arbitrary: names)
  case (Cons t ts)
  then show ?case
    by (cases t) (auto simp: manifest_names_def tool_dict_def bindR_eq_Inr split: option.splits)
qed (simp add: manifest_names_def)

definition il_collision :: "integrity_lib \<Rightarrow> bool" where
  "il_collision lib \<longleftrightarrow> (\<exists>m m'. m \<noteq> m' \<and> il_sha lib m = il_sha lib m')"

lemma manifest_hash_inj:
  assumes "float_repr_ok (il_fr lib)" and "manifest_hash lib ts = Inr h" and "manifest_hash lib ts' = Inr h"
    and "\<not> il_collision lib"
  shows "\<exists>s s'. sort_tools lib ts = Inr s \<and> sort_tools lib ts' = Inr s' \<and> map canon s = map canon s'"
proof -
  from assms(2,3) obtain s s' where s: "sort_tools lib ts = Inr s" "sort_tools lib ts' = Inr s'"
    and h: "il_sha lib (utf8 (jprint (il_fr lib) '' '' (canon (JArr s))))
          = il_sha lib (utf8 (jprint (il_fr lib) '' '' (canon (JArr s'))))"
    by (auto simp: manifest_hash_def bindR_eq_Inr)
  from h assms(4) have "utf8 (jprint (il_fr lib) '' '' (canon (JArr s)))
      = utf8 (jprint (il_fr lib) '' '' (canon (JArr s')))" unfolding il_collision_def by blast
  then have "canon (JArr s) = canon (JArr s')" unfolding utf8_inj jprint_inj [OF assms(1)] .
  with s show ?thesis by auto
qed

lemma has_string_name_obj: "has_string_name t \<Longrightarrow> is_obj t"
  by (cases t) (simp_all add: has_string_name_def)

lemma sort_tools_strings: "list_all has_string_name ts \<Longrightarrow> sort_tools lib ts = Inr (sort_key name_key ts)"
  using has_string_name_obj by (auto simp: sort_tools_def list_ex_iff list_all_iff)

lemma sort_tools_mset: "list_all has_string_name ts \<Longrightarrow> sort_tools lib ts = Inr s \<Longrightarrow> mset s = mset ts"
  by (simp add: sort_tools_strings) (metis mset_sort)

interpretation integrity_rs: response_hook "integrity_on_response lib" for lib
  by unfold_locales
     (auto simp: integrity_on_response_def check_drift_def bindR_eq_Inr split: option.splits if_splits)

section \<open>Properties\<close>

definition demo_integrity :: integrity_lib where
  "demo_integrity = \<lparr>il_nfkc = (\<lambda>s. s), il_sha = (\<lambda>m. replicate (length m) (CHR ''h'')), il_fr = ratio_text,
     il_sort_other = (\<lambda>_. None)\<rparr>"

definition demo_integrity_engine :: integrity_engine where
  "demo_integrity_engine = new_integrity_engine demo_integrity True (Some [''search'']) 2"

definition demo_tools :: "json list" where
  "demo_tools = [JObj [(''name'', JStr ''search'')], JObj [(''name'', JStr ''delete_all'')]]"

definition listing :: "json list \<Rightarrow> mcp_response" where
  "listing ts = \<lparr>rs_result = Some [(''tools'', JArr ts)], rs_error = None, rs_raw_body = [], rs_scan_body = []\<rparr>"


text \<open>
  After the first listing of a session, a later listing is let through (with
  \<open>fail_on_drift\<close>) only if it contains the same tools, each the same up to key order, in
  whatever order; anything else is an \<open>IntegrityError\<close> or a SHA-256 collision.
\<close>

theorem drift_detected:
  assumes "float_repr_ok (il_fr lib)" and "in_fail_on_drift e" and "tool_manifest_hash c = []"
    and "rs_result r1 = Some d1" and "dget d1 ''tools'' = Some (JArr ts1)"
    and "rs_result r2 = Some d2" and "dget d2 ''tools'' = Some (JArr ts2)"
    and "integrity_on_response lib c r1 e = (Inr c1, e)" and "tool_manifest_hash c1 \<noteq> []"
    and "integrity_on_response lib c1 r2 e = (Inr c2, e)"
    and "list_all has_string_name ts2"
  shows "mset (map canon ts2) = mset (map canon ts1) \<or> il_collision lib"
proof (cases "il_collision lib")
  case False
  from assms(3-5,8) obtain h where h1: "manifest_hash lib ts1 = Inr h" and sc: "scan_tool_manifest lib e ts1 = Inr ()"
    and c1: "c1 = with_manifest_hash c h"
    by (auto simp: integrity_on_response_def tool_list_def bindR_eq_Inr)
  from assms(2,6,7,9,10) have h2: "manifest_hash lib ts2 = Inr (tool_manifest_hash c1)"
    by (auto simp: integrity_on_response_def tool_list_def bindR_eq_Inr check_drift_def split: if_splits)
  have "tool_manifest_hash c1 = h" using c1 by (simp add: with_manifest_hash_def)
  with manifest_hash_inj [OF assms(1) h2 _ False] h1 obtain s s' where
    s: "sort_tools lib ts2 = Inr s" "sort_tools lib ts1 = Inr s'" "map canon s = map canon s'" by blast
  from sc obtain names where "manifest_names ts1 = Some names"
    by (auto simp: scan_tool_manifest_def bindR_eq_Inr check_shadowing_ok)
  then have "list_all has_string_name ts1" by (rule names_strings)
  with sort_tools_mset [OF _ s(2)] have "mset s' = mset ts1" by blast
  moreover from sort_tools_mset [OF assms(11) s(1)] have "mset s = mset ts2" .
  ultimately show ?thesis using s(3) by (metis mset_map)
qed simp

theorem drift_detected_witness:
  "\<exists>c1. integrity_on_response demo_integrity (new_context 0 ''s'' ''http'') (listing demo_tools) demo_integrity_engine
        = (Inr c1, demo_integrity_engine)
     \<and> (mset (map canon (rev demo_tools)) = mset (map canon demo_tools) \<or> il_collision demo_integrity)"
proof -
  let ?c = "new_context 0 ''s'' ''http''" and ?e = demo_integrity_engine
  let ?r = "\<lambda>c ts. integrity_on_response demo_integrity c (listing ts) ?e"
  have ok: "is_ok (fst (?r ?c demo_tools))" "is_ok (fst (?r (projr (fst (?r ?c demo_tools))) (rev demo_tools)))"
    "tool_manifest_hash (projr (fst (?r ?c demo_tools))) \<noteq> []"
    by code_simp+
  have st: "snd (?r c ts) = ?e" for c ts
    by (simp add: integrity_on_response_def listing_def)
  obtain c1 where r1: "?r ?c demo_tools = (Inr c1, ?e)"
    using ok(1) st by (metis is_ok_iff prod.collapse)
  then obtain c2 where r2: "?r c1 (rev demo_tools) = (Inr c2, ?e)"
    using ok(2) st by (metis is_ok_iff prod.collapse fst_conv sum.sel(2))
  have h1: "tool_manifest_hash c1 \<noteq> []" using ok(3) r1 by simp
  have rl: "rs_result (listing ts) = Some [(''tools'', JArr ts)]"
    and tl: "dget [(''tools'', JArr ts)] ''tools'' = Some (JArr ts)" for ts
    by (simp_all add: listing_def)
  have "mset (map canon (rev demo_tools)) = mset (map canon demo_tools) \<or> il_collision demo_integrity"
    by (rule drift_detected [OF _ _ _ rl tl rl tl r1 h1 r2])
      (simp_all add: demo_integrity_def ratio_text_ok demo_integrity_engine_def new_integrity_engine_def
        new_context_def demo_tools_def has_string_name_def dict_get_str_def)
  with r1 show ?thesis by blast
qed

text \<open>
  The first listing is accepted exactly when every entry has a non-empty string name, no
  two names agree after NFKC, and no name that is off the allowlist is within
  \<open>max 1 typosquat_distance\<close> edits of a listed one.
\<close>

theorem first_listing_accepted_iff:
  assumes "tool_manifest_hash c = []" and "rs_result r = Some d" and "dget d ''tools'' = Some (JArr ts)"
  shows "is_ok (fst (integrity_on_response lib c r e)) \<longleftrightarrow>
    (\<exists>names. manifest_names ts = Some names \<and> distinct (map (il_nfkc lib) names)
      \<and> (\<forall>n \<in> set names. \<forall>as. in_allowlist e = Some as \<and> il_nfkc lib n \<notin> set as \<longrightarrow>
           (\<forall>a \<in> set as. levenshtein (il_nfkc lib n) a > max 1 (in_distance e))))"
proof -
  have squat: "integrity_check_typosquat lib e n = Inr () \<longleftrightarrow>
      (\<forall>as. in_allowlist e = Some as \<and> il_nfkc lib n \<notin> set as \<longrightarrow>
           (\<forall>a \<in> set as. levenshtein (il_nfkc lib n) a > max 1 (in_distance e)))" for n
    by (auto simp: integrity_check_typosquat_def Let_def squat_scan_ok split: option.splits)
  have hash: "\<exists>h. manifest_hash lib ts = Inr h" if "manifest_names ts = Some names" for names
    by (simp add: manifest_hash_def sort_tools_strings [OF names_strings [OF that]])
  have scan: "scan_tool_manifest lib e ts = Inr () \<longleftrightarrow> (\<exists>names. manifest_names ts = Some names
      \<and> distinct (map (il_nfkc lib) names) \<and> (\<forall>n \<in> set names. integrity_check_typosquat lib e n = Inr ()))"
    using scan_names_ok [of ts _ lib e] by (auto simp: scan_tool_manifest_def bindR_eq_Inr check_shadowing_ok)
  have "is_ok (fst (integrity_on_response lib c r e)) \<longleftrightarrow>
      (\<exists>h. manifest_hash lib ts = Inr h) \<and> scan_tool_manifest lib e ts = Inr ()"
    using assms by (auto simp: integrity_on_response_def tool_list_def is_ok_iff bindR_eq_Inr)
  also have "\<dots> \<longleftrightarrow> scan_tool_manifest lib e ts = Inr ()" using hash scan by blast
  finally show ?thesis unfolding scan squat .
qed

theorem first_listing_accepted_iff_witness:
  "\<not> is_ok (fst (integrity_on_response demo_integrity (new_context 0 ''s'' ''http'')
       (listing [JObj [(''name'', JStr ''serch'')]]) demo_integrity_engine))"
proof -
  have d: "levenshtein ''serch'' ''search'' = 1" by code_simp
  let ?ts = "[JObj [(''name'', JStr ''serch'')]]"
  have h: "tool_manifest_hash (new_context 0 ''s'' ''http'') = []" by (simp add: new_context_def)
  have r: "rs_result (listing ?ts) = Some [(''tools'', JArr ?ts)]" by (simp add: listing_def)
  have t: "dget [(''tools'', JArr ?ts)] ''tools'' = Some (JArr ?ts)" by simp
  have m: "manifest_names ?ts = Some [''serch'']"
    by (simp add: manifest_names_def tool_name_def dict_get_str_def)
  show ?thesis
    unfolding first_listing_accepted_iff [OF h r t] m
    using d by (auto simp: demo_integrity_engine_def new_integrity_engine_def demo_integrity_def)
qed

end
