(* ===== verification/Counters.thy ===== *)
theory Counters
  imports Prelude
begin

text \<open>
  Dictionaries of counters kept beside a dictionary of records, as the explicit-state
  primitives do (\<open>_decrement\<close> and the \<open>counts[k] = counts.get(k, 0) + 1\<close> updates of
  \<open>mcp_armor/explicit_state.py\<close>).  \<open>counted\<close> is the invariant that lets the code read a count
  instead of scanning the records.
\<close>

definition count_of :: "('k, nat) dict \<Rightarrow> 'k \<Rightarrow> nat" where
  "count_of counts k = (case dget counts k of None \<Rightarrow> 0 | Some n \<Rightarrow> n)"

definition decrement :: "('k, nat) dict \<Rightarrow> 'k \<Rightarrow> ('k, nat) dict" where
  "decrement counts k = (let left = (case dget counts k of None \<Rightarrow> 1 | Some n \<Rightarrow> n) - 1 in
     if left > 0 then AList.update k left counts else AList.delete k counts)"

definition bump :: "('k, nat) dict \<Rightarrow> 'k \<Rightarrow> ('k, nat) dict" where
  "bump counts k = AList.update k (count_of counts k + 1) counts"

lemma count_of_Nil [simp]: "count_of [] k = 0"
  by (simp add: count_of_def)

lemma count_of_bump [simp]: "count_of (bump counts k) j = count_of counts j + (if j = k then 1 else 0)"
  by (simp add: count_of_def bump_def update_conv')

lemma count_of_decrement [simp]:
  "count_of (decrement counts k) j = count_of counts j - (if j = k then 1 else 0)"
  by (auto simp: count_of_def decrement_def Let_def update_conv' delete_conv' split: option.splits)

definition counted :: "('k, nat) dict \<Rightarrow> ('v \<Rightarrow> 'k) \<Rightarrow> ('h, 'v) dict \<Rightarrow> bool" where
  "counted counts f d \<longleftrightarrow> (\<forall>k. count_of counts k = length (filter (\<lambda>p. f (snd p) = k) d))"

lemma counted_Nil [simp]: "counted [] f []"
  by (simp add: counted_def)

lemma counted_delete:
  assumes "counted counts f d" and "wf_dict d" and "dget d h = Some r"
  shows "counted (decrement counts (f r)) f (AList.delete h d)"
  unfolding counted_def
proof
  fix k
  from length_filter_delete [OF assms(2), of "\<lambda>p. f (snd p) = k" h] assms(1,3)
  show "count_of (decrement counts (f r)) k = length (filter (\<lambda>p. f (snd p) = k) (AList.delete h d))"
    by (auto simp: counted_def)
qed

lemma counted_add:
  assumes "counted counts f d" and "\<not> dhas d h"
  shows "counted (bump counts (f r)) f (AList.update h r d)"
  using assms by (auto simp: counted_def wf_dict_update_new)

end
