(* ===== verification/RequestState.thy ===== *)
theory RequestState
  imports Replay Counters
begin

text \<open>
  T7 client-held state (\<open>RequestStateSealer\<close> and \<open>request_fingerprint\<close> in
  \<open>mcp_armor/explicit_state.py\<close>): sealing with AES-GCM, opening with every check, and the
  in-process cache that makes a state single-use.  AES-GCM, SHA-256, \<open>json.loads\<close> and the
  random values are parameters; what is used of GCM is that decryption inverts encryption and
  that only an encryption decrypts.
\<close>

section \<open>Library and constants\<close>

record seal_lib =
  se_encrypt :: "bytes \<Rightarrow> bytes \<Rightarrow> bytes \<Rightarrow> bytes \<Rightarrow> bytes"   \<comment> \<open>key, nonce, body, associated data\<close>
  se_decrypt :: "bytes \<Rightarrow> bytes \<Rightarrow> bytes \<Rightarrow> bytes \<Rightarrow> bytes option"
  se_sha :: "bytes \<Rightarrow> bytes"
  se_sha_hex :: "bytes \<Rightarrow> string"
  se_loads :: "bytes \<Rightarrow> json option"
  se_fr :: "pyfloat \<Rightarrow> string"

definition max_state_chars :: nat where "max_state_chars = 64 * 1024"
definition max_ttl_seconds :: int where "max_ttl_seconds = 3600"
definition max_seals_per_key :: nat where "max_seals_per_key = 2 ^ 31"
definition max_spent_entries :: nat where "max_spent_entries = 1000000"
definition max_spent_per_owner :: nat where "max_spent_per_owner = 10000"
definition max_spent_per_tenant :: nat where "max_spent_per_tenant = max_spent_entries div 4"
definition owner_floor :: nat where "owner_floor = 8"

definition state_error :: exn where
  "state_error = Cosai StateVerificationError ''invalid or expired requestState''"

text \<open>\<open>^[A-Za-z0-9_-]{1,32}$\<close> with \<open>re.match\<close>: the dollar also matches before a final newline.\<close>

definition kid_char :: "char \<Rightarrow> bool" where
  "kid_char c = (is_alpha c \<or> is_digit c \<or> c = CHR ''_'' \<or> c = CHR ''-'')"

definition kid_ok :: "string \<Rightarrow> bool" where
  "kid_ok kid = (let k = (if kid \<noteq> [] \<and> last kid = CHR 10 then butlast kid else kid) in
     1 \<le> length k \<and> length k \<le> 32 \<and> list_all kid_char k)"

definition is_weak_key :: "bytes \<Rightarrow> bool" where
  "is_weak_key key = (length (remdups key) < 16 \<or> list_all (\<lambda>b. 32 \<le> unat b \<and> unat b \<le> 126) key)"

section \<open>Fingerprints\<close>

function has_nan :: "json \<Rightarrow> bool" where
  "has_nan (JFloat x) = (case x of Fin _ \<Rightarrow> False | _ \<Rightarrow> True)"
| "has_nan (JArr xs) = list_ex has_nan xs"
| "has_nan (JObj kvs) = list_ex (\<lambda>p. has_nan (snd p)) kvs"
| "has_nan JNull = False"
| "has_nan (JBool b) = False"
| "has_nan (JInt i) = False"
| "has_nan (JStr s) = False"
  by pat_completeness auto
termination
proof (relation "measure size")
  fix kvs and p :: "string \<times> json"
  assume "p \<in> set kvs"
  then have "size_prod (\<lambda>_. 0) size p \<le> size_list (size_prod (\<lambda>_. 0) size) kvs"
    by (rule size_list_estimation') simp
  then show "(snd p, JObj kvs) \<in> measure size" by (cases p) simp
next
  fix xs :: "json list" and x
  assume "x \<in> set xs"
  then have "size x \<le> size_list size xs" by (rule size_list_estimation') simp
  then show "(x, JArr xs) \<in> measure size" by simp
qed simp

definition salient :: "(string, json) dict \<Rightarrow> (string, json) dict" where
  "salient params = filter (\<lambda>p. fst p \<notin> {''requestState'', ''inputResponses'', ''_meta''}) params"

definition request_fingerprint :: "seal_lib \<Rightarrow> string \<Rightarrow> (string, json) dict \<Rightarrow> string result" where
  "request_fingerprint lib method params =
     (if has_nan (JObj (salient params)) then Inl (PyExc ValueError ''Out of range float values'')
      else Inr (method @ CHR '':'' # se_sha_hex lib (utf8 (dumps_canon (se_fr lib) (JObj (salient params))))))"

section \<open>The single-use cache\<close>

type_synonym owner = "string \<times> string"   \<comment> \<open>principal, tenant\<close>

record spent_cache =
  sp_spent :: "(string, owner) dict"
  sp_heap :: "(pyfloat \<times> string) list"      \<comment> \<open>the heap in pop order\<close>
  sp_per_owner :: "(owner, nat) dict"
  sp_per_tenant :: "(string, nat) dict"

definition new_spent_cache :: spent_cache where
  "new_spent_cache = \<lparr>sp_spent = [], sp_heap = [], sp_per_owner = [], sp_per_tenant = []\<rparr>"

definition heap_less :: "pyfloat \<times> string \<Rightarrow> pyfloat \<times> string \<Rightarrow> bool" where
  "heap_less a b = (pf_lt (fst a) (fst b) \<or> (fst a = fst b \<and> fst a \<noteq> NaN \<and> snd a < snd b))"

fun heap_push :: "pyfloat \<times> string \<Rightarrow> (pyfloat \<times> string) list \<Rightarrow> (pyfloat \<times> string) list" where
  "heap_push x [] = [x]"
| "heap_push x (y # ys) = (if heap_less y x then y # heap_push x ys else x # y # ys)"

definition forget_spent :: "string \<Rightarrow> spent_cache \<Rightarrow> spent_cache" where
  "forget_spent old st = (case dget (sp_spent st) old of
     None \<Rightarrow> st
   | Some ow \<Rightarrow> st\<lparr>sp_spent := AList.delete old (sp_spent st),
       sp_per_owner := decrement (sp_per_owner st) ow,
       sp_per_tenant := decrement (sp_per_tenant st) (snd ow)\<rparr>)"

fun purge_heap :: "time \<Rightarrow> (pyfloat \<times> string) list \<Rightarrow> spent_cache \<Rightarrow> spent_cache" where
  "purge_heap now [] st = st\<lparr>sp_heap := []\<rparr>"
| "purge_heap now ((ex, old) # h) st =
     (if pf_le ex (Fin now) then purge_heap now h (forget_spent old st)
      else st\<lparr>sp_heap := (ex, old) # h\<rparr>)"

definition cache_full :: "owner \<Rightarrow> spent_cache \<Rightarrow> bool" where
  "cache_full ow st =
     (let mine = count_of (sp_per_owner st) ow;
          total = length (sp_spent st);
          in_tenant = count_of (sp_per_tenant st) (snd ow)
      in mine \<ge> max_spent_per_owner
         \<or> (in_tenant \<ge> max_spent_per_tenant \<and> (mine \<ge> owner_floor \<or> in_tenant \<ge> 2 * max_spent_per_tenant))
         \<or> (total \<ge> max_spent_entries \<and> (mine \<ge> owner_floor \<or> total \<ge> 2 * max_spent_entries)))"

text \<open>The locked block of \<open>open\<close>; the answer says whether the identifier was fresh and admitted.\<close>

definition spend :: "time \<Rightarrow> string \<times> owner \<Rightarrow> pyfloat result \<Rightarrow> spent_cache \<Rightarrow> bool result \<times> spent_cache" where
  "spend now key ex st0 = (case key of (jti, ow) \<Rightarrow>
     let st = purge_heap now (sp_heap st0) st0 in
     if dhas (sp_spent st) jti then (Inr False, st)
     else if cache_full ow st then (Inr False, st)
     else
       let st1 = st\<lparr>sp_spent := AList.update jti ow (sp_spent st),
                    sp_per_owner := bump (sp_per_owner st) ow,
                    sp_per_tenant := bump (sp_per_tenant st) (snd ow)\<rparr>
       in case ex of
            Inl x \<Rightarrow> (Inl x, st1)
          | Inr v \<Rightarrow> (Inr True, st1\<lparr>sp_heap := heap_push (v, jti) (sp_heap st)\<rparr>))"

section \<open>The sealer\<close>

record sealer =
  sl_keys :: "(string, bytes) dict"
  sl_active :: string
  sl_ttl :: int
  sl_single_use :: bool
  sl_audience :: string
  sl_shared :: bool            \<comment> \<open>is a shared \<open>spent_store\<close> configured\<close>
  sl_seals :: "(string, nat) dict"
  sl_spent :: spent_cache

fun check_keys :: "(string, bytes) dict \<Rightarrow> unit result" where
  "check_keys [] = Inr ()"
| "check_keys ((kid, key) # ks) =
     (if \<not> kid_ok kid then Inl (PyExc ValueError ''invalid key id'')
      else if length key \<noteq> 32 then Inl (PyExc ValueError ''sealing keys must be exactly 32 bytes'')
      else if is_weak_key key then Inl (PyExc ValueError ''sealing key looks non-random'')
      else check_keys ks)"

definition new_sealer :: "(string, bytes) dict \<Rightarrow> string \<Rightarrow> string \<Rightarrow> int \<Rightarrow> bool \<Rightarrow> bool \<Rightarrow> sealer result" where
  "new_sealer keys active audience ttl single_use shared =
     (if keys = [] then Inl (PyExc ValueError ''at least one sealing key is required'')
      else bindR (check_keys keys) (\<lambda>_.
        if audience = [] then Inl (PyExc ValueError ''audience is required'')
        else if \<not> dhas keys active then Inl (PyExc ValueError ''active_kid must be one of the keys'')
        else if \<not> (0 < ttl \<and> ttl \<le> max_ttl_seconds) then Inl (PyExc ValueError ''default_ttl_seconds'')
        else Inr \<lparr>sl_keys = keys, sl_active = active, sl_ttl = ttl, sl_single_use = single_use,
          sl_audience = audience, sl_shared = shared, sl_seals = map (\<lambda>p. (fst p, 0)) keys,
          sl_spent = new_spent_cache\<rparr>))"

definition seal_aad :: "seal_lib \<Rightarrow> sealer \<Rightarrow> string \<Rightarrow> bytes" where
  "seal_aad lib s kid = utf8 (''cosai-requestState|v1|'' @ kid @ ''|'') @ se_sha lib (utf8 (sl_audience s))"

definition seal_body :: "time \<Rightarrow> string \<Rightarrow> (string, json) dict \<Rightarrow> string \<Rightarrow> string \<Rightarrow> string \<Rightarrow> int
    \<Rightarrow> (string, json) dict" where
  "seal_body now jti payload prin ten rid ttl =
     [(''p'', JStr prin), (''t'', JStr ten), (''r'', JStr rid), (''exp'', JFloat (Fin (now + of_int ttl))),
      (''jti'', JStr jti), (''d'', JObj payload)]"

record caller =
  ca_principal :: string
  ca_tenant :: string
  ca_request :: string

definition seal :: "seal_lib \<Rightarrow> time \<Rightarrow> string \<Rightarrow> bytes \<Rightarrow> (string, json) dict \<Rightarrow> caller \<Rightarrow> int option
    \<Rightarrow> sealer \<Rightarrow> string result \<times> sealer" where
  "seal lib now jti nonce payload ca ttl_seconds s =
     (let ttl = (case ttl_seconds of None \<Rightarrow> sl_ttl s | Some t \<Rightarrow> t) in
      if ca_principal ca = [] \<or> ca_request ca = [] then (Inl (PyExc ValueError ''principal and request_id''), s)
      else if ca_tenant ca = [] then (Inl (PyExc ValueError ''tenant is required''), s)
      else if \<not> (0 < ttl \<and> ttl \<le> max_ttl_seconds) then (Inl (PyExc ValueError ''ttl_seconds''), s)
      else
        let body = utf8 (dumps_compact (se_fr lib) (JObj
              (seal_body now jti payload (ca_principal ca) (ca_tenant ca) (ca_request ca) ttl)));
            used = count_of (sl_seals s) (sl_active s)
        in if used \<ge> max_seals_per_key then (Inl (PyExc RuntimeError ''key usage limit''), s)
           else
             let s1 = s\<lparr>sl_seals := AList.update (sl_active s) (used + 1) (sl_seals s)\<rparr>;
                 key = the (dget (sl_keys s) (sl_active s));
                 ct = se_encrypt lib key nonce body (seal_aad lib s (sl_active s));
                 token = ''v1.'' @ sl_active s @ CHR ''.'' # b64_url (nonce @ ct)
             in (if length token > max_state_chars then Inl (PyExc ValueError ''exceeds the maximum size'')
                 else Inr token, s1))"

text \<open>\<open>token.split(".", 2)\<close>, then the format, key, base64 and length checks, and the GCM tag.\<close>

definition split3 :: "string \<Rightarrow> (string \<times> string \<times> string) option" where
  "split3 t = (case split_on1 (CHR ''.'') t of
     [a, r] \<Rightarrow> (case split_on1 (CHR ''.'') r of [b, c] \<Rightarrow> Some (a, b, c) | _ \<Rightarrow> None)
   | _ \<Rightarrow> None)"

definition unseal :: "seal_lib \<Rightarrow> sealer \<Rightarrow> json \<Rightarrow> json result" where
  "unseal lib s tok = (case tok of
     JStr token \<Rightarrow>
       if length token > max_state_chars then Inl state_error
       else (case split3 token of
          None \<Rightarrow> Inl state_error
        | Some (fmt, kid, blob) \<Rightarrow>
            if fmt \<noteq> ''v1'' then Inl state_error
            else (case dget (sl_keys s) kid of
               None \<Rightarrow> Inl state_error
             | Some key \<Rightarrow> (case unb64 blob of
                 None \<Rightarrow> Inl state_error
               | Some raw \<Rightarrow>
                   if length raw \<le> 12 then Inl state_error
                   else (case se_decrypt lib key (take 12 raw) (drop 12 raw) (seal_aad lib s kid) of
                      None \<Rightarrow> Inl state_error
                    | Some body \<Rightarrow> (case se_loads lib body of
                        None \<Rightarrow> Inl state_error | Some claims \<Rightarrow> Inr claims)))))
   | _ \<Rightarrow> Inl state_error)"

definition claim_is :: "(string, json) dict \<Rightarrow> string \<Rightarrow> string \<Rightarrow> bool" where
  "claim_is d k v = (case get_or_null d k of JStr s \<Rightarrow> utf8 s = utf8 v | _ \<Rightarrow> False)"

definition check_state_claims :: "time \<Rightarrow> caller \<Rightarrow> json \<Rightarrow> ((string, json) dict \<times> (string, json) dict) option" where
  "check_state_claims now ca claims = (case claims of
     JObj d \<Rightarrow>
       (case num_val (get_or_null d ''exp'') of
          None \<Rightarrow> None
        | Some ex \<Rightarrow>
            if pf_le ex (Fin now) \<or> \<not> claim_is d ''p'' (ca_principal ca) \<or> \<not> claim_is d ''t'' (ca_tenant ca)
               \<or> \<not> claim_is d ''r'' (ca_request ca) then None
            else (case get_or_null d ''d'' of JObj payload \<Rightarrow> Some (d, payload) | _ \<Rightarrow> None))
   | _ \<Rightarrow> None)"

text \<open>
  \<open>shared\<close> is \<open>add_if_absent\<close> of the configured store (\<open>None\<close> when the call raises); it is used
  only when the sealer has one.
\<close>

definition open_state :: "seal_lib \<Rightarrow> (string \<Rightarrow> pyfloat \<Rightarrow> bool option) \<Rightarrow> time \<Rightarrow> json \<Rightarrow> caller \<Rightarrow> sealer
    \<Rightarrow> (string, json) dict result \<times> sealer" where
  "open_state lib shared now token ca s = (case unseal lib s token of
     Inl x \<Rightarrow> (Inl x, s)
   | Inr claims \<Rightarrow> (case check_state_claims now ca claims of
       None \<Rightarrow> (Inl state_error, s)
     | Some (d, payload) \<Rightarrow>
         if \<not> sl_single_use s then (Inr payload, s)
         else (case get_or_null d ''jti'' of
            JStr jti \<Rightarrow>
              if jti = [] then (Inl state_error, s)
              else if sl_shared s then
                (case to_float (get_or_null d ''exp'') of
                   Inl x \<Rightarrow> (Inl state_error, s)
                 | Inr ex \<Rightarrow> (case shared jti ex of
                     None \<Rightarrow> (Inl state_error, s)
                   | Some ok \<Rightarrow> (if ok then Inr payload else Inl state_error, s)))
              else (case spend now (jti, (ca_principal ca, ca_tenant ca)) (to_float (get_or_null d ''exp'')) (sl_spent s) of
                 (Inl x, st) \<Rightarrow> (Inl x, s\<lparr>sl_spent := st\<rparr>)
               | (Inr ok, st) \<Rightarrow> (if ok then Inr payload else Inl state_error, s\<lparr>sl_spent := st\<rparr>))
          | _ \<Rightarrow> (Inl state_error, s))))"

section \<open>The spent cache keeps its counters, its bounds and its entries\<close>

definition spent_inv :: "spent_cache \<Rightarrow> bool" where
  "spent_inv st \<longleftrightarrow> wf_dict (sp_spent st) \<and> counted (sp_per_owner st) (\<lambda>ow. ow) (sp_spent st)
     \<and> counted (sp_per_tenant st) snd (sp_spent st)
     \<and> distinct (map snd (sp_heap st)) \<and> snd ` set (sp_heap st) \<subseteq> fst ` set (sp_spent st)"

definition spent_caps :: "spent_cache \<Rightarrow> bool" where
  "spent_caps st \<longleftrightarrow> length (sp_spent st) \<le> 2 * max_spent_entries
     \<and> (\<forall>ow. count_of (sp_per_owner st) ow \<le> max_spent_per_owner)
     \<and> (\<forall>t. count_of (sp_per_tenant st) t \<le> 2 * max_spent_per_tenant)"

text \<open>
  The expiry held for a spent identifier; an entry whose expiry could not become a float has no
  place in the heap and stays for ever.
\<close>

definition spent_live :: "spent_cache \<Rightarrow> string \<Rightarrow> pyfloat result option" where
  "spent_live st j = (if dhas (sp_spent st) j
     then Some (case dget (map (\<lambda>p. (snd p, fst p)) (sp_heap st)) j of
       None \<Rightarrow> Inl (PyExc OtherError ''no expiry'') | Some v \<Rightarrow> Inr v)
     else None)"

definition spent_expired :: "pyfloat result \<Rightarrow> time \<Rightarrow> bool" where
  "spent_expired u now = (case u of Inl _ \<Rightarrow> False | Inr v \<Rightarrow> pf_le v (Fin now))"

lemma spent_inv_new: "spent_inv new_spent_cache" "spent_caps new_spent_cache"
  by (simp_all add: spent_inv_def spent_caps_def new_spent_cache_def)

lemma forget_spent_inv:
  assumes "spent_inv (st\<lparr>sp_heap := (ex, old) # h\<rparr>)"
  shows "spent_inv ((forget_spent old st)\<lparr>sp_heap := h\<rparr>)"
proof -
  obtain ow where ow: "dget (sp_spent st) old = Some ow"
    using assms by (cases "dget (sp_spent st) old") (auto simp: spent_inv_def map_of_eq_None_iff)
  moreover have "snd ` set h \<subseteq> fst ` set (AList.delete old (sp_spent st))"
    using assms by (force simp: spent_inv_def delete_keys dest: set_mp)
  ultimately show ?thesis
    using assms counted_delete [of "sp_per_owner st" "\<lambda>ow. ow" "sp_spent st" old ow]
      counted_delete [of "sp_per_tenant st" snd "sp_spent st" old ow]
    by (simp add: spent_inv_def forget_spent_def wf_dict_delete)
qed

lemma forget_spent_caps:
  assumes "spent_caps (st\<lparr>sp_heap := h'\<rparr>)"
  shows "spent_caps ((forget_spent old st)\<lparr>sp_heap := h\<rparr>)"
proof (cases "dget (sp_spent st) old")
  case (Some ow)
  have "length (AList.delete old (sp_spent st)) \<le> 2 * max_spent_entries"
    using assms length_delete_le [of old "sp_spent st"] by (auto simp: spent_caps_def)
  with Some assms show ?thesis
    by (simp add: spent_caps_def forget_spent_def le_diff_conv trans_le_add1)
qed (use assms in \<open>simp add: spent_caps_def forget_spent_def\<close>)

lemma purge_heap_inv:
  "spent_inv (st\<lparr>sp_heap := h\<rparr>) \<Longrightarrow> spent_inv (purge_heap now h st)"
  by (induction now h st rule: purge_heap.induct) (auto dest: forget_spent_inv)

lemma purge_heap_caps:
  "spent_caps (st\<lparr>sp_heap := h\<rparr>) \<Longrightarrow> spent_caps (purge_heap now h st)"
  by (induction now h st rule: purge_heap.induct) (auto dest: forget_spent_caps)

lemma forget_spent_live:
  assumes "spent_live (st\<lparr>sp_heap := (ex, old) # h\<rparr>) j = Some u" and "\<not> spent_expired u now"
    and "pf_le ex (Fin now)"
  shows "spent_live ((forget_spent old st)\<lparr>sp_heap := h\<rparr>) j = Some u"
proof -
  have "j \<noteq> old" using assms by (auto simp: spent_live_def spent_expired_def split: if_splits)
  with assms(1) show ?thesis
    by (simp add: spent_live_def forget_spent_def split: option.splits if_splits)
qed

lemma purge_heap_live:
  "spent_live (st\<lparr>sp_heap := h\<rparr>) j = Some u \<Longrightarrow> \<not> spent_expired u now \<Longrightarrow>
     spent_live (purge_heap now h st) j = Some u"
  by (induction now h st rule: purge_heap.induct) (auto dest: forget_spent_live)

lemma heap_push_set: "set (heap_push x h) = insert x (set h)"
  by (induction x h rule: heap_push.induct) auto

lemma heap_push_distinct:
  "snd x \<notin> snd ` set h \<Longrightarrow> distinct (map snd h) \<Longrightarrow> distinct (map snd (heap_push x h))"
  by (induction x h rule: heap_push.induct) (auto simp: heap_push_set)

lemma dget_swap_iff:
  "distinct (map snd h) \<Longrightarrow> dget (map (\<lambda>p. (snd p, fst p)) h) j = Some v \<longleftrightarrow> (v, j) \<in> set h"
  by (subst map_of_eq_Some_iff) (force simp: comp_def image_iff)+

lemma spend_inv: "spent_inv st \<Longrightarrow> spent_inv (snd (spend now key ex st))"
proof -
  assume "spent_inv st"
  then have inv: "spent_inv (purge_heap now (sp_heap st) st)" by (intro purge_heap_inv) simp
  obtain jti ow where key: "key = (jti, ow)" by (cases key)
  show ?thesis
  proof (cases "dhas (sp_spent (purge_heap now (sp_heap st) st)) jti")
    case False
    then have new: "jti \<notin> snd ` set (sp_heap (purge_heap now (sp_heap st) st))"
      using inv by (auto simp: spent_inv_def)
    from False inv counted_add [of _ "\<lambda>ow. ow" "sp_spent (purge_heap now (sp_heap st) st)" jti ow]
      counted_add [of _ snd "sp_spent (purge_heap now (sp_heap st) st)" jti ow]
    show ?thesis using new
      by (auto simp: key spend_def Let_def spent_inv_def heap_push_set heap_push_distinct keys_update
          split: sum.splits)
  qed (use inv in \<open>simp add: key spend_def\<close>)
qed

lemma cache_not_full:
  "\<not> cache_full ow st \<Longrightarrow> count_of (sp_per_owner st) ow < max_spent_per_owner
     \<and> count_of (sp_per_tenant st) (snd ow) < 2 * max_spent_per_tenant
     \<and> length (sp_spent st) < 2 * max_spent_entries"
  by (auto simp: cache_full_def Let_def)

lemma spend_caps: "spent_caps st \<Longrightarrow> spent_caps (snd (spend now key ex st))"
proof -
  assume "spent_caps st"
  then have caps: "spent_caps (purge_heap now (sp_heap st) st)" by (intro purge_heap_caps) simp
  obtain jti ow where key: "key = (jti, ow)" by (cases key)
  show ?thesis
  proof (cases "cache_full ow (purge_heap now (sp_heap st) st)")
    case False
    from cache_not_full [OF this] caps length_update_le [of jti ow "sp_spent (purge_heap now (sp_heap st) st)"]
    show ?thesis
      by (auto simp: key spend_def Let_def spent_caps_def split: sum.splits)
  qed (use caps in \<open>simp add: key spend_def Let_def\<close>)
qed

lemma spend_fresh:
  assumes "spent_inv st" and "spend now key (Inr ex) st = (Inr True, st')"
  shows "spent_live st' (fst key) = Some (Inr ex)"
    and "spent_live st (fst key) = Some u \<Longrightarrow> spent_expired u now"
proof -
  let ?p = "purge_heap now (sp_heap st) st"
  obtain jti ow where key: "key = (jti, ow)" by (cases key)
  have inv: "spent_inv ?p" using assms(1) by (intro purge_heap_inv) simp
  from assms(2) have new: "\<not> dhas (sp_spent ?p) jti"
    and st': "sp_spent st' = AList.update jti ow (sp_spent ?p)" "sp_heap st' = heap_push (ex, jti) (sp_heap ?p)"
    by (auto simp: key spend_def Let_def split: if_splits)
  have "jti \<notin> snd ` set (sp_heap ?p)" using inv new by (auto simp: spent_inv_def)
  then have "distinct (map snd (sp_heap st'))"
    using inv by (simp add: st' heap_push_distinct spent_inv_def)
  then have "dget (map (\<lambda>p. (snd p, fst p)) (sp_heap st')) jti = Some ex"
    by (subst dget_swap_iff) (simp_all add: st' heap_push_set)
  then show "spent_live st' (fst key) = Some (Inr ex)"
    by (simp add: key spent_live_def st'(1))
  show "spent_expired u now" if "spent_live st (fst key) = Some u"
  proof (rule ccontr)
    assume "\<not> spent_expired u now"
    with that purge_heap_live [of "sp_heap st" st jti u now]
    have "spent_live ?p jti = Some u" by (simp add: key)
    with new show False by (simp add: spent_live_def)
  qed
qed

lemma spend_keeps:
  assumes "spent_inv st" and "spent_live st j = Some u" and "\<not> spent_expired u now"
  shows "spent_live (snd (spend now key ex st)) j = Some u"
proof -
  let ?p = "purge_heap now (sp_heap st) st"
  obtain jti ow where key: "key = (jti, ow)" by (cases key)
  have inv: "spent_inv ?p" using assms(1) by (intro purge_heap_inv) simp
  have live: "spent_live ?p j = Some u" using purge_heap_live [of "sp_heap st" st j u now] assms by simp
  then have there: "dhas (sp_spent ?p) j" by (simp add: spent_live_def split: if_splits)
  show ?thesis
  proof (cases "dhas (sp_spent ?p) jti")
    case False
    then have ne: "jti \<noteq> j" using there by blast
    have "dget (map (\<lambda>p. (snd p, fst p)) (heap_push (v, jti) h)) j = dget (map (\<lambda>p. (snd p, fst p)) h) j" for v h
      using ne by (induction "(v, jti)" h rule: heap_push.induct) auto
    with live there ne show ?thesis
      by (auto simp: key spend_def Let_def spent_live_def split: sum.splits)
  qed (use live in \<open>simp add: key spend_def\<close>)
qed

interpretation spent: replay_store spend "\<lambda>key. Inr (fst key)" spent_live spent_inv spent_expired
proof
  fix st st' now and key :: "string \<times> owner" and ex k
  assume i: "spent_inv st" and s: "spend now key ex st = (Inr True, st')"
    and k: "Inr (fst key) = (Inr k :: string result)"
  have "\<exists>v. ex = Inr v" using s by (cases key) (auto simp: spend_def Let_def split: if_splits sum.splits)
  then obtain v where "ex = Inr v" by blast
  with s spend_fresh [OF i, of now key v st'] k
  show "spent_live st' k = Some ex \<and> (\<forall>u. spent_live st k = Some u \<longrightarrow> spent_expired u now)" by simp
qed (simp_all add: spend_inv spend_keeps)

section \<open>What an opened state guarantees\<close>

lemma to_float_num: "to_float v = Inr x \<Longrightarrow> num_val v = Some x"
  by (cases v) (auto simp: to_float_def split: if_splits)

lemma open_state_cases:
  assumes "open_state lib shared now tok ca s = (Inr payload, s')"
  obtains claims d where "unseal lib s tok = Inr claims"
    and "check_state_claims now ca claims = Some (d, payload)"
  using assms by (auto simp: open_state_def
      split: sum.splits option.splits if_splits json.splits prod.splits)

lemma open_state_spends:
  assumes "open_state lib shared now tok ca s = (Inr payload, s')"
    and "sl_single_use s" and "\<not> sl_shared s"
  obtains claims d jti ex st where "unseal lib s tok = Inr claims"
    and "check_state_claims now ca claims = Some (d, payload)" and "get_or_null d ''jti'' = JStr jti"
    and "to_float (get_or_null d ''exp'') = Inr ex"
    and "spend now (jti, (ca_principal ca, ca_tenant ca)) (Inr ex) (sl_spent s) = (Inr True, st)"
    and "s' = s\<lparr>sl_spent := st\<rparr>"
proof -
  obtain claims d where u: "unseal lib s tok = Inr claims"
    and c: "check_state_claims now ca claims = Some (d, payload)"
    by (rule open_state_cases [OF assms(1)])
  from assms u c obtain jti where j: "get_or_null d ''jti'' = JStr jti"
    by (simp add: open_state_def split: json.splits)
  let ?r = "spend now (jti, (ca_principal ca, ca_tenant ca)) (to_float (get_or_null d ''exp'')) (sl_spent s)"
  from assms u c j obtain st where st: "?r = (Inr True, st)" "s' = s\<lparr>sl_spent := st\<rparr>"
    by (cases ?r) (auto simp: open_state_def split: if_splits sum.splits)
  then obtain ex where "to_float (get_or_null d ''exp'') = Inr ex"
    by (auto simp: spend_def Let_def split: if_splits sum.splits)
  with that u c j st show ?thesis by simp
qed

lemma check_state_claimsD:
  assumes "check_state_claims now ca claims = Some (d, payload)"
  shows "claims = JObj d" and "get_or_null d ''d'' = JObj payload"
    and "get_or_null d ''p'' = JStr (ca_principal ca)" and "get_or_null d ''t'' = JStr (ca_tenant ca)"
    and "get_or_null d ''r'' = JStr (ca_request ca)"
    and "num_val (get_or_null d ''exp'') = Some ex \<Longrightarrow> \<not> pf_le ex (Fin now)"
  using assms by (auto simp: check_state_claims_def claim_is_def utf8_inj split: json.splits option.splits if_splits)

section \<open>Runs of a sealer\<close>

datatype sealer_op =
    OpSeal string bytes "(string, json) dict" caller "int option"
  | OpOpen json caller

fun sealer_step :: "seal_lib \<Rightarrow> (string \<Rightarrow> pyfloat \<Rightarrow> bool option) \<Rightarrow> time \<Rightarrow> sealer_op \<Rightarrow> sealer \<Rightarrow> sealer" where
  "sealer_step lib shared now (OpSeal jti nonce payload ca ttl) s = snd (seal lib now jti nonce payload ca ttl s)"
| "sealer_step lib shared now (OpOpen tok ca) s = snd (open_state lib shared now tok ca s)"

fun sealer_run :: "seal_lib \<Rightarrow> (string \<Rightarrow> pyfloat \<Rightarrow> bool option) \<Rightarrow> (time \<times> sealer_op) list \<Rightarrow> sealer \<Rightarrow> sealer" where
  "sealer_run lib shared [] s = s"
| "sealer_run lib shared ((now, x) # ops) s = sealer_run lib shared ops (sealer_step lib shared now x s)"

definition same_sealer :: "sealer \<Rightarrow> sealer \<Rightarrow> bool" where
  "same_sealer s s' \<longleftrightarrow> sl_keys s' = sl_keys s \<and> sl_active s' = sl_active s \<and> sl_single_use s' = sl_single_use s
     \<and> sl_audience s' = sl_audience s \<and> sl_shared s' = sl_shared s \<and> sl_ttl s' = sl_ttl s"

lemma seal_keeps: "same_sealer s (snd (seal lib now jti nonce payload ca ttl s))"
    "sl_spent (snd (seal lib now jti nonce payload ca ttl s)) = sl_spent s"
  by (simp_all add: seal_def Let_def same_sealer_def)

lemma open_keeps: "same_sealer s (snd (open_state lib shared now tok ca s))"
  by (auto simp: open_state_def same_sealer_def split: sum.splits option.splits json.splits prod.splits)

lemma open_spent:
  "\<exists>sops. sl_spent (snd (open_state lib shared now tok ca s)) = spent.evolve sops (sl_spent s)
     \<and> fst ` set sops \<subseteq> {now}"
proof -
  have nil: "\<exists>sops. sl_spent s = spent.evolve sops (sl_spent s) \<and> fst ` set sops \<subseteq> {now}"
    by (rule exI [of _ "[]"]) simp
  have one: "\<exists>sops. snd (spend now key ex (sl_spent s)) = spent.evolve sops (sl_spent s) \<and> fst ` set sops \<subseteq> {now}"
    for key ex by (rule exI [of _ "[(now, key, ex)]"]) simp
  show ?thesis
    using nil one by (auto simp: open_state_def split: sum.splits option.splits json.splits prod.splits)
       (metis snd_conv)+
qed

lemma sealer_step_keeps: "same_sealer s (sealer_step lib shared now x s)"
  by (cases x) (simp_all add: seal_keeps open_keeps)

lemma sealer_step_spent:
  "\<exists>sops. sl_spent (sealer_step lib shared now x s) = spent.evolve sops (sl_spent s) \<and> fst ` set sops \<subseteq> {now}"
proof (cases x)
  case (OpSeal jti nonce payload ca ttl)
  then show ?thesis by (intro exI [of _ "[]"]) (simp add: seal_keeps)
qed (simp add: open_spent)

lemma same_sealer_trans: "same_sealer a b \<Longrightarrow> same_sealer b c \<Longrightarrow> same_sealer a c"
  by (simp add: same_sealer_def)

lemma sealer_run_keeps: "same_sealer s (sealer_run lib shared ops s)"
proof (induction lib shared ops s rule: sealer_run.induct)
  case (2 lib shared now x ops s)
  then show ?case by (simp add: same_sealer_trans [OF sealer_step_keeps])
qed (simp add: same_sealer_def)

lemma evolve_append: "spent.evolve (a @ b) s = spent.evolve b (spent.evolve a s)"
  by (induction a s rule: spent.evolve.induct) simp_all

lemma sealer_run_spent:
  "\<exists>sops. sl_spent (sealer_run lib shared ops s) = spent.evolve sops (sl_spent s)
     \<and> fst ` set sops \<subseteq> fst ` set ops"
proof (induction lib shared ops s rule: sealer_run.induct)
  case (2 lib shared now x ops s)
  obtain a where a: "sl_spent (sealer_step lib shared now x s) = spent.evolve a (sl_spent s)" "fst ` set a \<subseteq> {now}"
    using sealer_step_spent by blast
  obtain b where "sl_spent (sealer_run lib shared ops (sealer_step lib shared now x s))
      = spent.evolve b (sl_spent (sealer_step lib shared now x s))" "fst ` set b \<subseteq> fst ` set ops"
    using 2 by blast
  with a show ?case by (intro exI [of _ "a @ b"]) (auto simp: evolve_append)
qed (rule exI [of _ "[]"], simp)

lemma unseal_same:
  assumes "same_sealer s s'"
  shows "unseal lib s' tok = unseal lib s tok"
proof -
  have k: "sl_keys s' = sl_keys s" and a: "seal_aad lib s' = seal_aad lib s"
    using assms by (auto simp: same_sealer_def seal_aad_def)
  show ?thesis unfolding unseal_def k a ..
qed

section \<open>Properties of sealed state\<close>

lemma new_sealer_parts:
  assumes "new_sealer keys active aud ttl su shared = Inr s"
  shows "check_keys keys = Inr ()" and "dhas keys active" and "sl_keys s = keys" and "sl_active s = active"
    and "sl_spent s = new_spent_cache" and "sl_single_use s = su" and "sl_shared s = shared"
    and "sl_audience s = aud" and "sl_ttl s = ttl" and "0 < ttl" and "ttl \<le> max_ttl_seconds"
  using assms by (auto simp: new_sealer_def bindR_eq_Inr split: if_splits)

lemma sealer_run_new:
  assumes "new_sealer keys active aud ttl su shared = Inr s"
  shows "spent_inv (sl_spent (sealer_run lib sh ops s))" and "spent_caps (sl_spent (sealer_run lib sh ops s))"
proof -
  obtain sops where e: "sl_spent (sealer_run lib sh ops s) = spent.evolve sops new_spent_cache"
    using sealer_run_spent [of lib sh ops s] new_sealer_parts (5) [OF assms] by auto
  show "spent_inv (sl_spent (sealer_run lib sh ops s))"
    unfolding e by (rule spent.evolve_inv) (rule spent_inv_new)
  have "spent_caps (spent.evolve sops c)" if "spent_caps c" for c
    using that by (induction sops c rule: spent.evolve.induct) (simp_all add: spend_caps)
  then show "spent_caps (sl_spent (sealer_run lib sh ops s))"
    unfolding e by (simp add: spent_inv_new)
qed

definition demo_state_caller :: caller where
  "demo_state_caller = \<lparr>ca_principal = ''ann'', ca_tenant = ''t'', ca_request = ''r''\<rparr>"

definition demo_state_body :: "(string, json) dict" where
  "demo_state_body = seal_body 10 ''j1'' [(''step'', JInt 2)] ''ann'' ''t'' ''r'' 300"

definition demo_seal_lib :: seal_lib where
  "demo_seal_lib = \<lparr>se_encrypt = (\<lambda>k n b a. b @ [7]),
     se_decrypt = (\<lambda>k n c a. if c \<noteq> [] \<and> last c = 7 then Some (butlast c) else None),
     se_sha = (\<lambda>b. b), se_sha_hex = (\<lambda>b. replicate 64 (CHR ''a'')),
     se_loads = (\<lambda>b. Some (JObj demo_state_body)), se_fr = ratio_text\<rparr>"

definition demo_token :: string where
  "demo_token = ''v1.k.'' @ b64_url (replicate 12 0 @ [7])"

definition demo_keys :: "(string, bytes) dict" where
  "demo_keys = [(''k'', map word_of_nat [0..<32])]"

lemma split3_eq:
  assumes "split3 t = Some (a, b, c)"
  shows "t = a @ CHR ''.'' # b @ CHR ''.'' # c"
proof -
  from assms obtain r where "split_on1 (CHR ''.'') t = [a, r]" "split_on1 (CHR ''.'') r = [b, c]"
    by (auto simp: split3_def split: list.splits)
  then show ?thesis by (auto dest: split_on1_pair(1))
qed

lemma split3_at: "CHR ''.'' \<notin> set a \<Longrightarrow> CHR ''.'' \<notin> set b \<Longrightarrow>
    split3 (a @ CHR ''.'' # b @ CHR ''.'' # c) = Some (a, b, c)"
  by (simp add: split3_def split_on1_at)

lemma unseal_parts:
  assumes "unseal lib s tok = Inr claims"
  obtains kid blob key raw body where "tok = JStr (''v1.'' @ kid @ CHR ''.'' # blob)"
    and "dget (sl_keys s) kid = Some key" and "unb64 blob = Some raw" and "12 < length raw"
    and "se_decrypt lib key (take 12 raw) (drop 12 raw) (seal_aad lib s kid) = Some body"
    and "se_loads lib body = Some claims"
proof -
  from assms obtain token kid blob where 1: "tok = JStr token" "split3 token = Some (''v1'', kid, blob)"
    by (auto simp: unseal_def split: json.splits option.splits if_splits)
  then have "tok = JStr (''v1.'' @ kid @ CHR ''.'' # blob)"
    by (auto dest: split3_eq)
  with that assms 1 show ?thesis
    by (auto simp: unseal_def split: option.splits if_splits)
qed

definition demo_sealer :: sealer where
  "demo_sealer = \<lparr>sl_keys = demo_keys, sl_active = ''k'', sl_ttl = 300, sl_single_use = True,
     sl_audience = ''srv'', sl_shared = False, sl_seals = [(''k'', 0)], sl_spent = new_spent_cache\<rparr>"

lemma demo_sealer_new: "new_sealer demo_keys ''k'' ''srv'' 300 True False = Inr demo_sealer"
  by code_simp

definition no_shared :: "string \<Rightarrow> pyfloat \<Rightarrow> bool option" where
  "no_shared j x = None"

lemma state_limits:
  "max_state_chars = 65536" "max_spent_entries = 1000000" "max_spent_per_owner = 10000"
  "max_spent_per_tenant = 250000" "max_ttl_seconds = 3600" "max_seals_per_key = 2147483648" "owner_floor = 8"
  by (simp_all add: max_state_chars_def max_spent_entries_def max_spent_per_owner_def
      max_spent_per_tenant_def max_ttl_seconds_def max_seals_per_key_def owner_floor_def)

lemma demo_unseal: "unseal demo_seal_lib demo_sealer (JStr demo_token) = Inr (JObj demo_state_body)"
proof -
  have "split3 demo_token = Some (''v1'', ''k'', b64_url (replicate 12 0 @ [7]))"
    using split3_at [of "''v1''" "''k''"] by (simp add: demo_token_def)
  moreover have "length demo_token \<le> max_state_chars"
    by (simp add: demo_token_def length_b64_url state_limits)
  ultimately show ?thesis
    by (simp add: unseal_def unb64_b64_url demo_sealer_def demo_keys_def demo_seal_lib_def)
qed

lemma demo_claims: "t < 310 \<Longrightarrow>
    check_state_claims t demo_state_caller (JObj demo_state_body) = Some (demo_state_body, [(''step'', JInt 2)])"
  by (simp add: check_state_claims_def demo_state_body_def seal_body_def get_or_null_def claim_is_def demo_state_caller_def)

lemma demo_open: "open_state demo_seal_lib no_shared 20 (JStr demo_token) demo_state_caller demo_sealer
    = (Inr [(''step'', JInt 2)], demo_sealer\<lparr>sl_spent := \<lparr>sp_spent = [(''j1'', ''ann'', ''t'')],
        sp_heap = [(Fin 310, ''j1'')], sp_per_owner = [((''ann'', ''t''), 1)], sp_per_tenant = [(''t'', 1)]\<rparr>\<rparr>)"
proof -
  have "get_or_null demo_state_body ''jti'' = JStr ''j1''" "get_or_null demo_state_body ''exp'' = JFloat (Fin 310)"
    by (simp_all add: demo_state_body_def seal_body_def get_or_null_def)
  then show ?thesis
    by (simp add: open_state_def demo_unseal demo_claims, simp add: demo_sealer_def new_spent_cache_def spend_def
        cache_full_def state_limits to_float_def demo_state_caller_def bump_def)
qed

text \<open>
  C5: A sealed state opens at most once.  Take any life of a sealer that was built by the
  constructor with single use and no shared store: if a token opens, then whatever is sealed
  and opened afterwards by anybody, the same token presented again, by the same or another
  caller, is refused, as long as no reading of the clock in between is later than the reading
  of the second presentation.
\<close>

theorem state_single_use:
  assumes "new_sealer keys active aud ttl True False = Inr s0"
    and "open_state lib sh t1 tok ca1 (sealer_run lib sh before s0) = (Inr payload, s1)"
    and "\<forall>op \<in> set between. fst op \<le> t2"
  shows "fst (open_state lib sh t2 tok ca2 (sealer_run lib sh between s1)) = Inl state_error"
proof (rule ccontr)
  let ?s = "sealer_run lib sh before s0" and ?e = "sealer_run lib sh between s1"
  assume no: "fst (open_state lib sh t2 tok ca2 ?e) \<noteq> Inl state_error"
  have k0: "same_sealer s0 ?s" by (rule sealer_run_keeps)
  then have su: "sl_single_use ?s" "\<not> sl_shared ?s"
    using new_sealer_parts (6,7) [OF assms(1)] by (auto simp: same_sealer_def)
  obtain claims d jti ex st where 1: "unseal lib ?s tok = Inr claims"
      "check_state_claims t1 ca1 claims = Some (d, payload)" "get_or_null d ''jti'' = JStr jti"
      "to_float (get_or_null d ''exp'') = Inr ex"
      "spend t1 (jti, (ca_principal ca1, ca_tenant ca1)) (Inr ex) (sl_spent ?s) = (Inr True, st)"
      "s1 = ?s\<lparr>sl_spent := st\<rparr>"
    by (rule open_state_spends [OF assms(2) su])
  have "same_sealer ?s s1"
    using open_keeps [where s = ?s and lib = lib and shared = sh and now = t1 and tok = tok and ca = ca1] assms(2)
    by simp
  then have same: "same_sealer ?s ?e" by (rule same_sealer_trans) (rule sealer_run_keeps)
  then have su2: "sl_single_use ?e" "\<not> sl_shared ?e" using su by (auto simp: same_sealer_def)
  have un: "unseal lib ?e tok = Inr claims" using unseal_same [OF same] 1(1) by simp
  have "claims = JObj d" by (rule check_state_claimsD [OF 1(2)])
  then obtain p2 where cl: "check_state_claims t2 ca2 claims = Some (d, p2)" "\<not> pf_le ex (Fin t2)"
    using no un to_float_num [OF 1(4)]
    by (auto simp: open_state_def check_state_claims_def split: option.splits if_splits json.splits)
  obtain sops where e: "sl_spent ?e = spent.evolve sops st" "fst ` set sops \<subseteq> fst ` set between"
    using sealer_run_spent [of lib sh between s1] 1(6) by auto
  have "fst (spend t2 (jti, (ca_principal ca2, ca_tenant ca2)) (Inr ex) (sl_spent ?e)) = Inr True"
    using no un cl(1) 1(3,4) su2 by (auto simp: open_state_def spend_def Let_def split: if_splits)
  with spent.replay_needs_expiry [OF sealer_run_new(1) [OF assms(1)] 1(5)] e
  have "\<exists>now \<in> insert t2 (fst ` set between). spent_expired (Inr ex) now" by fastforce
  with assms(3) pf_le_trans_Fin cl(2) show False by (auto simp: spent_expired_def)
qed

theorem state_single_use_witness:
  "fst (open_state demo_seal_lib no_shared 30 (JStr demo_token) demo_state_caller
     (snd (open_state demo_seal_lib no_shared 20 (JStr demo_token) demo_state_caller demo_sealer))) = Inl state_error"
  using state_single_use [OF demo_sealer_new, of demo_seal_lib no_shared 20 "JStr demo_token" demo_state_caller "[]"
      "[(''step'', JInt 2)]" _ "[]" 30 demo_state_caller]
  by (simp add: demo_open)

text \<open>
  C15: An opened state was sealed under this server's key and audience, for exactly this
  caller, and is not expired: the token names a configured key, its ciphertext is the GCM
  encryption of the claims under that key and the associated data of this audience (with GCM's
  authenticity as the hypothesis), the claims carry the caller's principal, tenant and request
  and an expiry in the future.  So one token never opens for two different callers.
\<close>

theorem opened_state_is_bound:
  assumes "open_state lib sh t1 tok ca1 s = (Inr payload, s1)"
    and "\<forall>k n c a b. se_decrypt lib k n c a = Some b \<longrightarrow> c = se_encrypt lib k n b a"
  shows "(\<exists>kid blob key nonce body d ex. tok = JStr (''v1.'' @ kid @ CHR ''.'' # blob)
        \<and> dget (sl_keys s) kid = Some key \<and> length nonce = 12
        \<and> unb64 blob = Some (nonce @ se_encrypt lib key nonce body (seal_aad lib s kid))
        \<and> se_loads lib body = Some (JObj d) \<and> get_or_null d ''d'' = JObj payload
        \<and> get_or_null d ''p'' = JStr (ca_principal ca1) \<and> get_or_null d ''t'' = JStr (ca_tenant ca1)
        \<and> get_or_null d ''r'' = JStr (ca_request ca1)
        \<and> num_val (get_or_null d ''exp'') = Some ex \<and> \<not> pf_le ex (Fin t1))
     \<and> (\<forall>ops t2 ca2. is_ok (fst (open_state lib sh t2 tok ca2 (sealer_run lib sh ops s1))) \<longrightarrow> ca2 = ca1)"
proof -
  obtain claims d where u: "unseal lib s tok = Inr claims"
    and c: "check_state_claims t1 ca1 claims = Some (d, payload)"
    by (rule open_state_cases [OF assms(1)])
  have d: "claims = JObj d" by (rule check_state_claimsD [OF c])
  obtain kid blob key raw body where p: "tok = JStr (''v1.'' @ kid @ CHR ''.'' # blob)"
      "dget (sl_keys s) kid = Some key" "unb64 blob = Some raw" "12 < length raw"
      "se_decrypt lib key (take 12 raw) (drop 12 raw) (seal_aad lib s kid) = Some body"
      "se_loads lib body = Some claims"
    by (rule unseal_parts [OF u])
  from c obtain ex where ex: "num_val (get_or_null d ''exp'') = Some ex"
    by (auto simp: check_state_claims_def split: json.splits option.splits if_splits)
  have "drop 12 raw = se_encrypt lib key (take 12 raw) body (seal_aad lib s kid)"
    using assms(2) p(5) by blast
  then have "unb64 blob = Some (take 12 raw @ se_encrypt lib key (take 12 raw) body (seal_aad lib s kid))"
    using p(3) by (metis append_take_drop_id)
  moreover have "length (take 12 raw) = 12" using p(4) by simp
  ultimately have 1: "\<exists>kid blob key nonce body d ex. tok = JStr (''v1.'' @ kid @ CHR ''.'' # blob)
      \<and> dget (sl_keys s) kid = Some key \<and> length nonce = 12
      \<and> unb64 blob = Some (nonce @ se_encrypt lib key nonce body (seal_aad lib s kid))
      \<and> se_loads lib body = Some (JObj d) \<and> get_or_null d ''d'' = JObj payload
      \<and> get_or_null d ''p'' = JStr (ca_principal ca1) \<and> get_or_null d ''t'' = JStr (ca_tenant ca1)
      \<and> get_or_null d ''r'' = JStr (ca_request ca1)
      \<and> num_val (get_or_null d ''exp'') = Some ex \<and> \<not> pf_le ex (Fin t1)"
    using p(1,2,6) d check_state_claimsD [OF c] ex by blast
  have "ca2 = ca1" if o: "is_ok (fst (open_state lib sh t2 tok ca2 (sealer_run lib sh ops s1)))" for ops t2 ca2
  proof -
    have "same_sealer s s1"
      using open_keeps [where s = s and lib = lib and shared = sh and now = t1 and tok = tok and ca = ca1] assms(1)
      by simp
    then have same: "same_sealer s (sealer_run lib sh ops s1)"
      by (rule same_sealer_trans) (rule sealer_run_keeps)
    obtain p2 s2 where "open_state lib sh t2 tok ca2 (sealer_run lib sh ops s1) = (Inr p2, s2)"
      using o by (cases "open_state lib sh t2 tok ca2 (sealer_run lib sh ops s1)") (auto simp: is_ok_iff)
    from open_state_cases [OF this] obtain claims2 d2 where
      "unseal lib (sealer_run lib sh ops s1) tok = Inr claims2"
      and c2: "check_state_claims t2 ca2 claims2 = Some (d2, p2)" by blast
    then have "claims2 = claims" using u unseal_same [OF same] by simp
    with check_state_claimsD(1) [OF c2] d have "d2 = d" by simp
    with check_state_claimsD(3-5) [OF c2] check_state_claimsD(3-5) [OF c] show ?thesis by simp
  qed
  with 1 show ?thesis by blast
qed

theorem opened_state_is_bound_witness:
  "\<not> is_ok (fst (open_state demo_seal_lib no_shared 30 (JStr demo_token) (demo_state_caller\<lparr>ca_principal := ''bob''\<rparr>)
     (snd (open_state demo_seal_lib no_shared 20 (JStr demo_token) demo_state_caller demo_sealer))))"
proof -
  have "\<forall>k n c a b. se_decrypt demo_seal_lib k n c a = Some b \<longrightarrow> c = se_encrypt demo_seal_lib k n b a"
    by (auto simp: demo_seal_lib_def split: if_splits) (metis append_butlast_last_id)
  from opened_state_is_bound [OF demo_open this, THEN conjunct2, rule_format,
      of 30 "demo_state_caller\<lparr>ca_principal := ''bob''\<rparr>" "[]"]
  show ?thesis by (simp add: demo_open) (auto simp: demo_state_caller_def)
qed

lemma kid_no_dot:
  assumes "kid_ok kid"
  shows "CHR ''.'' \<notin> set kid"
proof
  assume dot: "CHR ''.'' \<in> set kid"
  let ?k = "if kid \<noteq> [] \<and> last kid = CHR 10 then butlast kid else kid"
  have "set kid \<subseteq> insert (CHR 10) (set ?k)" by (cases kid rule: rev_cases) auto
  with dot have "CHR ''.'' \<in> set ?k" by blast
  moreover have "list_all kid_char ?k" using assms by (simp add: kid_ok_def Let_def)
  ultimately have "kid_char CHR ''.''" by (simp only: list_all_iff)
  then show False by (simp add: kid_char_def is_alpha_def is_digit_def ord_of_def)
qed

lemma check_keys_kid: "check_keys keys = Inr () \<Longrightarrow> dhas keys kid \<Longrightarrow> kid_ok kid"
  by (induction keys rule: check_keys.induct) (auto split: if_splits)

lemma purge_heap_subset: "dhas (sp_spent (purge_heap now h st)) j \<Longrightarrow> dhas (sp_spent st) j"
proof (induction now h st rule: purge_heap.induct)
  case (2 now ex old h st)
  show ?case
  proof (cases "pf_le ex (Fin now)")
    case True
    with 2 have "dhas (sp_spent (forget_spent old st)) j" by simp
    then show ?thesis by (simp add: forget_spent_def split: option.splits)
  qed (use 2 in simp)
qed simp

lemma spend_ok:
  assumes "\<not> dhas (sp_spent st) jti" and "\<not> cache_full ow (purge_heap now (sp_heap st) st)"
  shows "fst (spend now (jti, ow) (Inr ex) st) = Inr True"
  using assms purge_heap_subset [where now = now and h = "sp_heap st" and st = st and j = jti] by (auto simp: spend_def Let_def)

text \<open>
  C33: What a server seals it opens: a token sealed at any point of a sealer's life opens for
  the caller it was sealed for and returns the sealed payload, at any later reading of the
  clock before the expiry, if its random identifier is new and the replay cache is not full.
  The hypotheses about GCM and \<open>json.loads\<close> are that they invert encryption and \<open>json.dumps\<close>.
\<close>

theorem seal_open_roundtrip:
  assumes "new_sealer keys active aud dflt su False = Inr s0" and "s = sealer_run lib sh before s0"
    and "seal lib t1 jti nonce payload ca ttl s = (Inr tok, s1)"
    and "length nonce = 12" and "jti \<noteq> []" and "\<not> dhas (sp_spent (sl_spent s)) jti"
    and "\<forall>k n b a. se_encrypt lib k n b a \<noteq> [] \<and> se_decrypt lib k n (se_encrypt lib k n b a) a = Some b"
    and "life = (case ttl of None \<Rightarrow> dflt | Some x \<Rightarrow> x)"
    and "body = seal_body t1 jti payload (ca_principal ca) (ca_tenant ca) (ca_request ca) life"
    and "se_loads lib (utf8 (dumps_compact (se_fr lib) (JObj body))) = Some (JObj body)"
    and "t2 < t1 + of_int life"
    and "\<not> cache_full (ca_principal ca, ca_tenant ca) (purge_heap t2 (sp_heap (sl_spent s)) (sl_spent s))"
  shows "fst (open_state lib sh t2 (JStr tok) ca s1) = Inr payload"
proof -
  note parts = new_sealer_parts [OF assms(1)]
  have same: "same_sealer s0 s" unfolding assms(2) by (rule sealer_run_keeps)
  then have keys: "sl_keys s = keys" "sl_active s = active" "sl_ttl s = dflt" "sl_shared s = False"
    using parts by (simp_all add: same_sealer_def)
  obtain key where key: "dget keys active = Some key"
    using parts(2) by (auto simp: dhas_conv_dget)
  let ?raw = "nonce @ se_encrypt lib key nonce (utf8 (dumps_compact (se_fr lib) (JObj body))) (seal_aad lib s active)"
  have tok: "tok = ''v1'' @ CHR ''.'' # active @ CHR ''.'' # b64_url ?raw" and len: "length tok \<le> max_state_chars"
    using assms(3,8,9) keys key by (auto simp: seal_def Let_def split: if_splits option.splits)
  have kid: "CHR ''.'' \<notin> set active" using check_keys_kid [OF parts(1,2)] by (rule kid_no_dot)
  have "split3 tok = Some (''v1'', active, b64_url ?raw)"
    unfolding tok by (rule split3_at) (simp_all add: kid)
  moreover have s1: "same_sealer s s1" "sl_spent s1 = sl_spent s"
    using seal_keeps [where s = s and lib = lib and now = t1 and jti = jti and nonce = nonce
      and payload = payload and ca = ca and ttl = ttl] assms(3) by simp_all
  ultimately have un: "unseal lib s1 (JStr tok) = Inr (JObj body)"
    unfolding unseal_same [OF s1(1)] using assms(4,7,10) keys key len
    by (simp add: unseal_def unb64_b64_url)
  have cl: "check_state_claims t2 ca (JObj body) = Some (body, payload)"
    using assms(11) by (simp add: check_state_claims_def assms(9) seal_body_def get_or_null_def claim_is_def)
  have ex: "get_or_null body ''jti'' = JStr jti" "to_float (get_or_null body ''exp'') = Inr (Fin (t1 + of_int life))"
    by (simp_all add: assms(9) seal_body_def get_or_null_def to_float_def)
  have sh: "\<not> sl_shared s1" using s1(1) keys(4) by (simp add: same_sealer_def)
  obtain st where "spend t2 (jti, ca_principal ca, ca_tenant ca) (Inr (Fin (t1 + of_int life))) (sl_spent s) = (Inr True, st)"
    using spend_ok [OF assms(6,12)] by (metis prod.collapse)
  then show ?thesis
    using un cl ex sh assms(5) by (simp add: open_state_def s1(2))
qed

definition demo_sealed :: string where
  "demo_sealed = ''v1.k.'' @ b64_url (replicate 12 0
     @ utf8 (dumps_compact ratio_text (JObj demo_state_body)) @ [7])"

lemma demo_body_short: "length (utf8 (dumps_compact ratio_text (JObj demo_state_body))) \<le> 200"
  by code_simp

theorem seal_open_roundtrip_witness:
  "fst (open_state demo_seal_lib no_shared 20 (JStr demo_sealed) demo_state_caller
     (demo_sealer\<lparr>sl_seals := [(''k'', 1)]\<rparr>)) = Inr [(''step'', JInt 2)]"
proof (rule seal_open_roundtrip [where before = "[]" and nonce = "replicate 12 0" and jti = "''j1''" and ?t1.0 = 10
      and ttl = None and body = demo_state_body and life = 300 and s = demo_sealer])
  show "new_sealer demo_keys ''k'' ''srv'' 300 True False = Inr demo_sealer" by (rule demo_sealer_new)
  show "seal demo_seal_lib 10 ''j1'' (replicate 12 0) [(''step'', JInt 2)] demo_state_caller None demo_sealer
      = (Inr demo_sealed, demo_sealer\<lparr>sl_seals := [(''k'', 1)]\<rparr>)"
    using demo_body_short by (simp add: seal_def Let_def state_limits count_of_def demo_sealer_def demo_state_caller_def
        demo_sealed_def length_b64_url demo_state_body_def demo_seal_lib_def demo_keys_def)
  show "\<not> cache_full (ca_principal demo_state_caller, ca_tenant demo_state_caller)
      (purge_heap 20 (sp_heap (sl_spent demo_sealer)) (sl_spent demo_sealer))"
    by (simp add: cache_full_def demo_sealer_def new_spent_cache_def state_limits)
qed (simp_all add: demo_state_body_def demo_state_caller_def demo_seal_lib_def demo_sealer_def new_spent_cache_def)

text \<open>
  The replay cache stays within its limits whatever is sealed and opened: at most twice
  the global and twice the per-tenant limit, never more than the per-owner limit; and the
  counters it reads are the numbers of entries they stand for.
\<close>

theorem replay_cache_bounded:
  assumes "new_sealer keys active aud ttl su shared = Inr s0" and "st = sl_spent (sealer_run lib sh ops s0)"
  shows "length (sp_spent st) \<le> 2 * max_spent_entries
     \<and> length (filter (\<lambda>p. snd p = ow) (sp_spent st)) \<le> max_spent_per_owner
     \<and> length (filter (\<lambda>p. snd (snd p) = t) (sp_spent st)) \<le> 2 * max_spent_per_tenant
     \<and> length (sp_heap st) \<le> length (sp_spent st)"
proof -
  have inv: "spent_inv st" and caps: "spent_caps st" using sealer_run_new [OF assms(1)] assms(2) by auto
  have "length (sp_heap st) = card (snd ` set (sp_heap st))"
    using inv distinct_card [of "map snd (sp_heap st)"] by (simp add: spent_inv_def)
  also have "\<dots> \<le> card (fst ` set (sp_spent st))"
    using inv by (intro card_mono) (auto simp: spent_inv_def)
  also have "\<dots> \<le> length (sp_spent st)"
    using card_length [of "map fst (sp_spent st)"] by simp
  finally show ?thesis
    using inv caps by (cases ow) (simp add: spent_inv_def spent_caps_def counted_def)
qed

theorem replay_cache_bounded_witness:
  "length (sp_heap (sl_spent (sealer_run demo_seal_lib no_shared [(20, OpOpen (JStr demo_token) demo_state_caller)] demo_sealer)))
     \<le> length (sp_spent (sl_spent (sealer_run demo_seal_lib no_shared
          [(20, OpOpen (JStr demo_token) demo_state_caller)] demo_sealer)))"
  using replay_cache_bounded [OF demo_sealer_new refl] by blast

text \<open>
  The request fingerprint a state is bound to determines the request: two requests with
  the same fingerprint have the same method and the same salient parameters, up to the order
  of dictionary keys, or their bodies are a collision of SHA-256.
\<close>

theorem fingerprint_binds_request:
  assumes "request_fingerprint lib m p = Inr f" and "request_fingerprint lib m' p' = Inr f"
    and "\<forall>b. length (se_sha_hex lib b) = 64" and "float_repr_ok (se_fr lib)"
  shows "m = m' \<and> (canon (JObj (salient p)) = canon (JObj (salient p'))
     \<or> (\<exists>a b. a \<noteq> b \<and> se_sha_hex lib a = se_sha_hex lib b))"
proof -
  let ?b = "\<lambda>p. utf8 (dumps_canon (se_fr lib) (JObj (salient p)))"
  have "m @ CHR '':'' # se_sha_hex lib (?b p) = m' @ CHR '':'' # se_sha_hex lib (?b p')"
    using assms(1,2) by (auto simp: request_fingerprint_def split: if_splits)
  then have "m = m'" and h: "se_sha_hex lib (?b p) = se_sha_hex lib (?b p')"
    using assms(3) by (auto simp: append_eq_append_conv)
  moreover have "canon (JObj (salient p)) = canon (JObj (salient p'))" if "?b p = ?b p'"
    using that by (simp only: utf8_inj dumps_canon_inj [OF assms(4)])
  ultimately show ?thesis by blast
qed

theorem fingerprint_binds_request_witness:
  "canon (JObj (salient [(''a'', JInt 1), (''b'', JNull)])) = canon (JObj (salient [(''b'', JNull), (''a'', JInt 1)]))
   \<or> (\<exists>a b. a \<noteq> b \<and> se_sha_hex demo_seal_lib a = se_sha_hex demo_seal_lib b)"
proof -
  have 1: "request_fingerprint demo_seal_lib ''m'' [(''a'', JInt 1), (''b'', JNull)]
      = Inr (''m:'' @ replicate 64 (CHR ''a''))" by code_simp
  have 2: "request_fingerprint demo_seal_lib ''m'' [(''b'', JNull), (''a'', JInt 1)]
      = Inr (''m:'' @ replicate 64 (CHR ''a''))" by code_simp
  show ?thesis
    using fingerprint_binds_request [OF 1 2] by (simp add: demo_seal_lib_def ratio_text_ok)
qed

end
