(* ===== verification/Handles.thy ===== *)
theory Handles
  imports Counters Bytes Types
begin

text \<open>
  T2 server-held references (\<open>HandleRegistry\<close> in \<open>mcp_armor/explicit_state.py\<close>): minting,
  resolving, revoking and listing opaque handles.  The random handle and the reading of the
  clock are arguments; \<open>on_revoke\<close> is an argument that says whether the callback returns, and
  \<open>rg_notified\<close> is the sequence of records it has been called with.  The lemmas show the
  counters and limits, who can resolve a handle, and that a revoked handle stays revoked.
\<close>

section \<open>Records and state\<close>

record handle_record =
  hr_handle :: string
  hr_principal :: string
  hr_tenant :: string
  hr_kind :: string
  hr_created :: time
  hr_expires :: time

record registry =
  rg_records :: "(string, handle_record) dict"
  rg_max :: int
  rg_max_per_principal :: int
  rg_counts :: "(string \<times> string, nat) dict"
  rg_max_per_tenant :: int
  rg_tenant_counts :: "(string, nat) dict"
  rg_next_purge :: time
  rg_max_ttl :: int
  rg_notified :: "handle_record list"

definition handle_floor :: nat where "handle_floor = 8"

definition handle_error :: exn where
  "handle_error = Cosai HandleError ''unknown or unauthorized handle''"

definition new_registry :: "int \<Rightarrow> int \<Rightarrow> int option \<Rightarrow> int \<Rightarrow> registry" where
  "new_registry max_handles per_principal per_tenant max_ttl =
     \<lparr>rg_records = [], rg_max = max_handles, rg_max_per_principal = per_principal, rg_counts = [],
      rg_max_per_tenant = (case per_tenant of Some n \<Rightarrow> n | None \<Rightarrow> max 1 (max_handles div 4)),
      rg_tenant_counts = [], rg_next_purge = 0, rg_max_ttl = max_ttl, rg_notified = []\<rparr>"

definition owner_of :: "handle_record \<Rightarrow> string \<times> string" where
  "owner_of r = (hr_principal r, hr_tenant r)"

section \<open>Operations\<close>

definition drop_handle :: "string \<Rightarrow> registry \<Rightarrow> handle_record option \<times> registry" where
  "drop_handle h g = (case dget (rg_records g) h of
     None \<Rightarrow> (None, g)
   | Some r \<Rightarrow> (Some r, g\<lparr>rg_records := AList.delete h (rg_records g),
       rg_counts := decrement (rg_counts g) (owner_of r),
       rg_tenant_counts := decrement (rg_tenant_counts g) (hr_tenant r)\<rparr>))"

fun drop_all :: "string list \<Rightarrow> registry \<Rightarrow> registry" where
  "drop_all [] g = g"
| "drop_all (h # hs) g = drop_all hs (snd (drop_handle h g))"

definition purge_registry :: "time \<Rightarrow> bool \<Rightarrow> registry \<Rightarrow> registry" where
  "purge_registry now force g =
     (if \<not> force \<and> now < rg_next_purge g then g
      else drop_all (map fst (filter (\<lambda>p. hr_expires (snd p) \<le> now) (rg_records g)))
             (g\<lparr>rg_next_purge := now + 1\<rparr>))"

definition notify :: "(handle_record \<Rightarrow> bool) option \<Rightarrow> handle_record list \<Rightarrow> registry \<Rightarrow> unit result \<times> registry" where
  "notify on_revoke rs g = (case on_revoke of
     None \<Rightarrow> (Inr (), g)
   | Some cb \<Rightarrow> (if list_all cb rs then Inr () else Inl (PyExc RuntimeError ''on_revoke failed''),
                g\<lparr>rg_notified := rg_notified g @ rs\<rparr>))"

text \<open>The checks of \<open>mint\<close> under the lock, in order, each on the registry the last left.\<close>

definition mint_room :: "time \<Rightarrow> string \<times> string \<Rightarrow> registry \<Rightarrow> unit result \<times> registry" where
  "mint_room now ow g0 =
     (let g1 = purge_registry now False g0;
          g2 = (if int (length (rg_records g1)) \<ge> rg_max g1 then purge_registry now True g1 else g1)
      in if int (length (rg_records g2)) \<ge> rg_max g2
            \<and> (count_of (rg_counts g2) ow \<ge> handle_floor \<or> int (length (rg_records g2)) \<ge> 2 * rg_max g2)
         then (Inl (PyExc RuntimeError ''handle registry is full''), g2)
         else
           let over = int (count_of (rg_counts g2) ow) \<ge> rg_max_per_principal g2;
               g3 = (if over then purge_registry now True g2 else g2)
           in if over \<and> int (count_of (rg_counts g3) ow) \<ge> rg_max_per_principal g3
              then (Inl (PyExc RuntimeError ''handle limit reached for this principal''), g3)
              else
                let tover = int (count_of (rg_tenant_counts g3) (snd ow)) \<ge> rg_max_per_tenant g3;
                    g4 = (if tover then purge_registry now True g3 else g3);
                    in_tenant = int (count_of (rg_tenant_counts g4) (snd ow))
                in if tover \<and> in_tenant \<ge> rg_max_per_tenant g4
                      \<and> (count_of (rg_counts g4) ow \<ge> handle_floor \<or> in_tenant \<ge> 2 * rg_max_per_tenant g4)
                   then (Inl (PyExc RuntimeError ''handle limit reached for this tenant''), g4)
                   else (Inr (), g4))"

definition mint_handle :: "time \<Rightarrow> string \<Rightarrow> string \<Rightarrow> string \<Rightarrow> string \<Rightarrow> int \<Rightarrow> registry \<Rightarrow> string result \<times> registry" where
  "mint_handle now handle prin ten kind ttl g0 =
     (if prin = [] \<or> ten = [] then (Inl (PyExc ValueError ''principal and tenant are required''), g0)
      else if \<not> (0 < ttl \<and> ttl \<le> rg_max_ttl g0) then (Inl (PyExc ValueError ''ttl_seconds''), g0)
      else case mint_room now (prin, ten) g0 of
        (Inl x, g) \<Rightarrow> (Inl x, g)
      | (Inr _, g) \<Rightarrow> (Inr handle,
          g\<lparr>rg_counts := bump (rg_counts g) (prin, ten),
            rg_tenant_counts := bump (rg_tenant_counts g) ten,
            rg_records := AList.update handle \<lparr>hr_handle = handle, hr_principal = prin, hr_tenant = ten,
              hr_kind = kind, hr_created = now, hr_expires = now + of_int ttl\<rparr> (rg_records g)\<rparr>))"

definition resolve_handle :: "time \<Rightarrow> json \<Rightarrow> string \<Rightarrow> string \<Rightarrow> string option \<Rightarrow> registry
    \<Rightarrow> handle_record result \<times> registry" where
  "resolve_handle now handle prin ten kind g = (case handle of
     JStr h \<Rightarrow>
       if length h > 256 then (Inl handle_error, g)
       else (let (found, g') = (case dget (rg_records g) h of
                 None \<Rightarrow> (None, g)
               | Some r \<Rightarrow> if hr_expires r \<le> now then (None, snd (drop_handle h g)) else (Some r, g))
             in case found of
                  None \<Rightarrow> (Inl handle_error, g')
                | Some r \<Rightarrow>
                    if utf8 prin \<noteq> utf8 (hr_principal r) \<or> utf8 ten \<noteq> utf8 (hr_tenant r)
                       \<or> (case kind of None \<Rightarrow> False | Some k \<Rightarrow> hr_kind r \<noteq> k)
                    then (Inl handle_error, g') else (Inr r, g'))
   | _ \<Rightarrow> (Inl handle_error, g))"

definition admin_revoke :: "(handle_record \<Rightarrow> bool) option \<Rightarrow> json \<Rightarrow> registry \<Rightarrow> bool result \<times> registry" where
  "admin_revoke on_revoke handle g = (case handle of
     JStr h \<Rightarrow> (case drop_handle h g of
         (None, g1) \<Rightarrow> (Inr False, g1)
       | (Some r, g1) \<Rightarrow> (case notify on_revoke [r] g1 of
             (Inl x, g2) \<Rightarrow> (Inl x, g2) | (Inr _, g2) \<Rightarrow> (Inr True, g2)))
   | _ \<Rightarrow> (Inr False, g))"

definition revoke_handle :: "(handle_record \<Rightarrow> bool) option \<Rightarrow> time \<Rightarrow> json \<Rightarrow> string \<Rightarrow> string \<Rightarrow> registry
    \<Rightarrow> bool result \<times> registry" where
  "revoke_handle on_revoke now handle prin ten g = (case resolve_handle now handle prin ten None g of
     (Inl x, g1) \<Rightarrow> (Inl x, g1)
   | (Inr r, g1) \<Rightarrow> admin_revoke on_revoke (JStr (hr_handle r)) g1)"

definition of_principal :: "string \<Rightarrow> string option \<Rightarrow> handle_record \<Rightarrow> bool" where
  "of_principal prin ten r = (hr_principal r = prin \<and> (ten = None \<or> ten = Some (hr_tenant r)))"

definition revoke_principal :: "(handle_record \<Rightarrow> bool) option \<Rightarrow> string \<Rightarrow> string option \<Rightarrow> registry
    \<Rightarrow> handle_record list result \<times> registry" where
  "revoke_principal on_revoke prin ten g =
     (let doomed = filter (of_principal prin ten) (map snd (rg_records g))
      in case notify on_revoke doomed (drop_all (map hr_handle doomed) g) of
           (Inl x, g2) \<Rightarrow> (Inl x, g2) | (Inr _, g2) \<Rightarrow> (Inr doomed, g2))"

definition list_for_principal :: "time \<Rightarrow> string \<Rightarrow> string option \<Rightarrow> registry \<Rightarrow> handle_record list \<times> registry" where
  "list_for_principal now prin ten g =
     (let g1 = purge_registry now True g in (filter (of_principal prin ten) (map snd (rg_records g1)), g1))"

section \<open>The counters count the records\<close>

definition registry_inv :: "registry \<Rightarrow> bool" where
  "registry_inv g \<longleftrightarrow> wf_dict (rg_records g) \<and> (\<forall>p \<in> set (rg_records g). hr_handle (snd p) = fst p)
     \<and> counted (rg_counts g) owner_of (rg_records g) \<and> counted (rg_tenant_counts g) hr_tenant (rg_records g)"

definition registry_caps :: "registry \<Rightarrow> bool" where
  "registry_caps g \<longleftrightarrow> length (rg_records g) \<le> nat (2 * rg_max g)
     \<and> (\<forall>ow. length (filter (\<lambda>p. owner_of (snd p) = ow) (rg_records g)) \<le> nat (rg_max_per_principal g))
     \<and> (\<forall>t. length (filter (\<lambda>p. hr_tenant (snd p) = t) (rg_records g)) \<le> nat (2 * rg_max_per_tenant g))"

text \<open>\<open>shrinks\<close>: same limits, and the records are some of the old ones in the old order.\<close>

definition shrinks :: "registry \<Rightarrow> registry \<Rightarrow> bool" where
  "shrinks g g' \<longleftrightarrow> (rg_max g', rg_max_per_principal g', rg_max_per_tenant g', rg_max_ttl g')
        = (rg_max g, rg_max_per_principal g, rg_max_per_tenant g, rg_max_ttl g)
     \<and> (\<exists>P. rg_records g' = filter P (rg_records g))"

lemma shrinks_refl [simp, intro]: "shrinks g g"
  by (auto simp: shrinks_def intro: exI [of _ "\<lambda>_. True"])

lemma shrinks_trans: "shrinks a b \<Longrightarrow> shrinks b c \<Longrightarrow> shrinks a c"
  by (auto simp: shrinks_def filter_filter)

lemma shrinks_caps:
  assumes "shrinks g g'" and "registry_caps g"
  shows "registry_caps g'"
proof -
  obtain P where P: "rg_records g' = filter P (rg_records g)" using assms(1) by (auto simp: shrinks_def)
  have le: "length (filter Q (rg_records g')) \<le> length (filter Q (rg_records g))" for Q
    unfolding P by (rule length_filter_filter)
  have "length (rg_records g') \<le> length (rg_records g)" by (simp add: P)
  moreover have "rg_max g' = rg_max g" "rg_max_per_principal g' = rg_max_per_principal g"
      "rg_max_per_tenant g' = rg_max_per_tenant g"
    using assms(1) by (simp_all add: shrinks_def)
  ultimately show ?thesis
    using assms(2) le by (simp add: registry_caps_def) (meson order.trans)
qed

lemma drop_handle_records [simp]: "rg_records (snd (drop_handle h g)) = filter (\<lambda>p. fst p \<noteq> h) (rg_records g)"
  by (auto simp: drop_handle_def AList.delete_eq map_of_eq_None_iff filter_id_conv split_def
      split: option.splits intro!: filter_cong [symmetric] sym [OF filter_True])

lemma drop_handle_shrinks: "shrinks g (snd (drop_handle h g))"
  unfolding shrinks_def drop_handle_records
  by (auto simp: drop_handle_def split: option.splits)

lemma drop_handle_inv: "registry_inv g \<Longrightarrow> registry_inv (snd (drop_handle h g))"
  using counted_delete [of "rg_counts g" owner_of "rg_records g" h]
    counted_delete [of "rg_tenant_counts g" hr_tenant "rg_records g" h]
  by (auto simp: registry_inv_def drop_handle_def AList.delete_eq split: option.splits)

lemma drop_all_records [simp]: "rg_records (drop_all hs g) = filter (\<lambda>p. fst p \<notin> set hs) (rg_records g)"
  by (induction hs g rule: drop_all.induct) (auto simp: conj_commute intro: filter_cong)

lemma drop_all_shrinks: "shrinks g (drop_all hs g)"
  by (induction hs g rule: drop_all.induct) (auto intro: shrinks_trans drop_handle_shrinks)

lemma drop_all_inv: "registry_inv g \<Longrightarrow> registry_inv (drop_all hs g)"
  by (induction hs g rule: drop_all.induct) (auto simp: drop_handle_inv)

lemma registry_inv_upd [simp]:
  "registry_inv (g\<lparr>rg_next_purge := t\<rparr>) = registry_inv g" "registry_inv (g\<lparr>rg_notified := l\<rparr>) = registry_inv g"
  "registry_caps (g\<lparr>rg_next_purge := t\<rparr>) = registry_caps g" "registry_caps (g\<lparr>rg_notified := l\<rparr>) = registry_caps g"
  by (simp_all add: registry_inv_def registry_caps_def)

lemma shrinks_upd [simp]:
  "shrinks (g\<lparr>rg_next_purge := t\<rparr>) g' = shrinks g g'" "shrinks g (g'\<lparr>rg_next_purge := t\<rparr>) = shrinks g g'"
  "shrinks g (g'\<lparr>rg_notified := l\<rparr>) = shrinks g g'"
  by (simp_all add: shrinks_def)

lemma purge_registry_inv: "registry_inv g \<Longrightarrow> registry_inv (purge_registry now force g)"
  by (simp add: purge_registry_def drop_all_inv)

lemma purge_registry_shrinks: "shrinks g (purge_registry now force g)"
  using drop_all_shrinks [of "g\<lparr>rg_next_purge := now + 1\<rparr>"] by (simp add: purge_registry_def)

lemma notify_records [simp]:
  "rg_records (snd (notify cb rs g)) = rg_records g"
  "registry_inv (snd (notify cb rs g)) = registry_inv g"
  "shrinks g' (snd (notify cb rs g)) = shrinks g' g"
  by (auto simp: notify_def split: option.splits)

lemma mint_room_stages:
  obtains g2 g3 g4 where "shrinks g g2" and "shrinks g2 g3" and "shrinks g3 g4"
    and "registry_inv g \<Longrightarrow> registry_inv g2 \<and> registry_inv g3 \<and> registry_inv g4"
    and "snd (mint_room now ow g) \<in> {g2, g3, g4}"
    and "is_ok (fst (mint_room now ow g)) \<longleftrightarrow>
        \<not> (int (length (rg_records g2)) \<ge> rg_max g2
            \<and> (count_of (rg_counts g2) ow \<ge> handle_floor \<or> int (length (rg_records g2)) \<ge> 2 * rg_max g2))
        \<and> \<not> int (count_of (rg_counts g3) ow) \<ge> rg_max_per_principal g3
        \<and> \<not> (int (count_of (rg_tenant_counts g4) (snd ow)) \<ge> rg_max_per_tenant g4
            \<and> (count_of (rg_counts g4) ow \<ge> handle_floor
               \<or> int (count_of (rg_tenant_counts g4) (snd ow)) \<ge> 2 * rg_max_per_tenant g4))"
    and "is_ok (fst (mint_room now ow g)) \<Longrightarrow> snd (mint_room now ow g) = g4"
proof -
  define g1 where "g1 = purge_registry now False g"
  define g2 where "g2 = (if int (length (rg_records g1)) \<ge> rg_max g1 then purge_registry now True g1 else g1)"
  define g3 where "g3 = (if int (count_of (rg_counts g2) ow) \<ge> rg_max_per_principal g2
     then purge_registry now True g2 else g2)"
  define g4 where "g4 = (if int (count_of (rg_tenant_counts g3) (snd ow)) \<ge> rg_max_per_tenant g3
     then purge_registry now True g3 else g3)"
  have 1: "shrinks g g1" and 2: "shrinks g1 g2" and 3: "shrinks g2 g3" and 4: "shrinks g3 g4"
    by (simp_all add: g1_def g2_def g3_def g4_def purge_registry_shrinks)
  have inv: "registry_inv g \<Longrightarrow> registry_inv g2 \<and> registry_inv g3 \<and> registry_inv g4"
    by (simp add: g1_def g2_def g3_def g4_def purge_registry_inv)
  note m = mint_room_def [of now ow g, folded g1_def, unfolded Let_def, folded g2_def, folded g3_def, folded g4_def]
  show ?thesis
  proof (rule that [OF shrinks_trans [OF 1 2] 3 4])
    show "snd (mint_room now ow g) \<in> {g2, g3, g4}" by (simp add: m)
    show "snd (mint_room now ow g) = g4" if "is_ok (fst (mint_room now ow g))"
      using that by (auto simp: m split: if_splits)
    show "is_ok (fst (mint_room now ow g)) \<longleftrightarrow>
        \<not> (int (length (rg_records g2)) \<ge> rg_max g2
            \<and> (count_of (rg_counts g2) ow \<ge> handle_floor \<or> int (length (rg_records g2)) \<ge> 2 * rg_max g2))
        \<and> \<not> int (count_of (rg_counts g3) ow) \<ge> rg_max_per_principal g3
        \<and> \<not> (int (count_of (rg_tenant_counts g4) (snd ow)) \<ge> rg_max_per_tenant g4
            \<and> (count_of (rg_counts g4) ow \<ge> handle_floor
               \<or> int (count_of (rg_tenant_counts g4) (snd ow)) \<ge> 2 * rg_max_per_tenant g4))"
      by (auto simp: m g3_def g4_def)
  qed (rule inv)
qed

lemma mint_room_shrinks: "shrinks g (snd (mint_room now ow g))"
  by (rule mint_room_stages [of g now ow]) (auto intro: shrinks_trans)

lemma mint_room_inv: "registry_inv g \<Longrightarrow> registry_inv (snd (mint_room now ow g))"
  by (rule mint_room_stages [of g now ow]) auto

lemma registry_countsD:
  assumes "registry_inv g"
  shows "count_of (rg_counts g) ow = length (filter (\<lambda>p. owner_of (snd p) = ow) (rg_records g))"
    and "count_of (rg_tenant_counts g) t = length (filter (\<lambda>p. hr_tenant (snd p) = t) (rg_records g))"
  using assms by (simp_all add: registry_inv_def counted_def del: split_paired_All)

lemma shrinks_counts:
  assumes "shrinks g g'" and "registry_inv g" and "registry_inv g'"
  shows "count_of (rg_counts g') ow \<le> count_of (rg_counts g) ow"
    and "count_of (rg_tenant_counts g') t \<le> count_of (rg_tenant_counts g) t"
    and "length (rg_records g') \<le> length (rg_records g)"
    and "rg_max g' = rg_max g" and "rg_max_per_principal g' = rg_max_per_principal g"
    and "rg_max_per_tenant g' = rg_max_per_tenant g"
  using assms by (auto simp: registry_countsD shrinks_def length_filter_filter simp del: filter_filter)

lemma mint_handle_cases:
  obtains x g' where "mint_handle now h prin ten kind ttl g = (Inl x, g')" and "shrinks g g'"
    and "registry_inv g \<Longrightarrow> registry_inv g'"
  | g' where "mint_room now (prin, ten) g = (Inr (), g')"
    and "mint_handle now h prin ten kind ttl g = (Inr h, g'\<lparr>rg_counts := bump (rg_counts g') (prin, ten),
        rg_tenant_counts := bump (rg_tenant_counts g') ten,
        rg_records := AList.update h \<lparr>hr_handle = h, hr_principal = prin, hr_tenant = ten, hr_kind = kind,
            hr_created = now, hr_expires = now + of_int ttl\<rparr> (rg_records g')\<rparr>)"
proof (cases "prin = [] \<or> ten = [] \<or> \<not> (0 < ttl \<and> ttl \<le> rg_max_ttl g)")
  case True
  then have "\<exists>x. mint_handle now h prin ten kind ttl g = (Inl x, g)" by (auto simp: mint_handle_def)
  then show ?thesis using that(1) by blast
next
  case False
  obtain r g' where m: "mint_room now (prin, ten) g = (r, g')" by (cases "mint_room now (prin, ten) g")
  show ?thesis
  proof (cases r)
    case (Inl x)
    have "shrinks g g'" "registry_inv g \<Longrightarrow> registry_inv g'"
      using mint_room_shrinks [of g now "(prin, ten)"] mint_room_inv [of g now "(prin, ten)"] m by simp_all
    with that(1) [of x g'] show ?thesis using False m Inl by (auto simp: mint_handle_def)
  next
    case (Inr u)
    with that(2) [of g'] show ?thesis using False m by (auto simp: mint_handle_def)
  qed
qed

lemma mint_handle_keeps:
  assumes "registry_inv g" and "registry_caps g" and "\<not> dhas (rg_records g) h"
  shows "registry_inv (snd (mint_handle now h prin ten kind ttl g))
    \<and> registry_caps (snd (mint_handle now h prin ten kind ttl g))"
proof (cases rule: mint_handle_cases [of now h prin ten kind ttl g])
  case (1 x g')
  with assms shrinks_caps [of g g'] show ?thesis by simp
next
  case (2 g')
  let ?ow = "(prin, ten)"
  let ?r = "\<lparr>hr_handle = h, hr_principal = prin, hr_tenant = ten, hr_kind = kind, hr_created = now,
    hr_expires = now + of_int ttl\<rparr>"
  obtain g2 g3 g4 where st: "shrinks g g2" "shrinks g2 g3" "shrinks g3 g4"
    and inv: "registry_inv g2 \<and> registry_inv g3 \<and> registry_inv g4"
    and room: "\<not> (int (length (rg_records g2)) \<ge> rg_max g2
            \<and> (count_of (rg_counts g2) ?ow \<ge> handle_floor \<or> int (length (rg_records g2)) \<ge> 2 * rg_max g2))"
        "\<not> int (count_of (rg_counts g3) ?ow) \<ge> rg_max_per_principal g3"
        "\<not> (int (count_of (rg_tenant_counts g4) ten) \<ge> rg_max_per_tenant g4
            \<and> (count_of (rg_counts g4) ?ow \<ge> handle_floor
               \<or> int (count_of (rg_tenant_counts g4) ten) \<ge> 2 * rg_max_per_tenant g4))"
    and g4: "g' = g4"
    by (rule mint_room_stages [of g now ?ow]) (use 2 assms(1) in auto)
  have "shrinks g g4" using st by (blast intro: shrinks_trans)
  then have caps: "registry_caps g4" and fresh: "\<not> dhas (rg_records g4) h"
    using shrinks_caps assms by (auto simp: shrinks_def)
  note c43 = shrinks_counts [OF st(3)] note c32 = shrinks_counts [OF st(2)]
  have "int (length (rg_records g4)) < max (rg_max g4) (2 * rg_max g4)"
    using room(1) c43(3,4) c32(3,4) inv by linarith
  moreover have "int (count_of (rg_counts g4) ?ow) < rg_max_per_principal g4"
    using room(2) c43(1) [of ?ow] c43(5) inv by linarith
  moreover have "int (count_of (rg_tenant_counts g4) ten) < max (rg_max_per_tenant g4) (2 * rg_max_per_tenant g4)"
    using room(3) by linarith
  ultimately have "registry_caps (snd (mint_handle now h prin ten kind ttl g))"
    using caps fresh inv 2 g4 by (auto simp: registry_caps_def registry_countsD wf_dict_update_new owner_of_def)
  moreover have "registry_inv (snd (mint_handle now h prin ten kind ttl g))"
    using inv fresh 2 g4 counted_add [of "rg_counts g4" owner_of "rg_records g4" h ?r]
      counted_add [of "rg_tenant_counts g4" hr_tenant "rg_records g4" h ?r]
    by (auto simp: registry_inv_def wf_dict_update_new owner_of_def wf_dict_def)
  ultimately show ?thesis by simp
qed

lemma resolve_handle_keeps:
  "shrinks g (snd (resolve_handle now handle prin ten kind g))"
  "registry_inv g \<Longrightarrow> registry_inv (snd (resolve_handle now handle prin ten kind g))"
  by (auto simp: resolve_handle_def drop_handle_shrinks drop_handle_inv Let_def split: json.splits option.splits)

lemma admin_revoke_keeps:
  "shrinks g (snd (admin_revoke cb handle g))"
  "registry_inv g \<Longrightarrow> registry_inv (snd (admin_revoke cb handle g))"
proof -
  have "shrinks g (snd (admin_revoke cb handle g))
      \<and> (registry_inv g \<longrightarrow> registry_inv (snd (admin_revoke cb handle g)))"
  proof (cases handle)
    case (JStr h)
    obtain o1 g1 where d: "drop_handle h g = (o1, g1)" by (cases "drop_handle h g")
    have g1: "shrinks g g1" "registry_inv g \<Longrightarrow> registry_inv g1"
      using drop_handle_shrinks [of g h] drop_handle_inv [of g h] d by simp_all
    show ?thesis
    proof (cases o1)
      case (Some r)
      obtain u g2 where n: "notify cb [r] g1 = (u, g2)" by (cases "notify cb [r] g1")
      with notify_records(2) [of cb "[r]" g1] notify_records(3) [of g cb "[r]" g1] g1 d JStr Some
      show ?thesis by (auto simp: admin_revoke_def split: sum.splits)
    qed (use g1 d JStr in \<open>simp add: admin_revoke_def\<close>)
  qed (simp_all add: admin_revoke_def)
  then show "shrinks g (snd (admin_revoke cb handle g))"
    and "registry_inv g \<Longrightarrow> registry_inv (snd (admin_revoke cb handle g))" by simp_all
qed

lemma revoke_handle_keeps:
  "shrinks g (snd (revoke_handle cb now handle prin ten g))"
  "registry_inv g \<Longrightarrow> registry_inv (snd (revoke_handle cb now handle prin ten g))"
  using resolve_handle_keeps [of g now handle prin ten None]
    admin_revoke_keeps [of "snd (resolve_handle now handle prin ten None g)" cb]
  by (auto simp: revoke_handle_def split: prod.splits sum.splits intro: shrinks_trans)

lemma revoke_principal_state:
  "snd (revoke_principal cb prin ten g)
     = snd (notify cb (filter (of_principal prin ten) (map snd (rg_records g)))
         (drop_all (map hr_handle (filter (of_principal prin ten) (map snd (rg_records g)))) g))"
  by (simp add: revoke_principal_def Let_def split: prod.splits sum.splits)

lemma revoke_principal_keeps:
  "shrinks g (snd (revoke_principal cb prin ten g))"
  "registry_inv g \<Longrightarrow> registry_inv (snd (revoke_principal cb prin ten g))"
  by (simp_all add: revoke_principal_state drop_all_shrinks drop_all_inv)

section \<open>Runs of the registry\<close>

datatype handle_op =
    Mint string string string string int
  | Resolve json string string "string option"
  | Revoke json string string
  | AdminRevoke json
  | RevokePrincipal string "string option"
  | ListFor string "string option"

fun handle_step :: "(handle_record \<Rightarrow> bool) option \<Rightarrow> time \<Rightarrow> handle_op \<Rightarrow> registry \<Rightarrow> registry" where
  "handle_step cb now (Mint h prin ten kind ttl) g = snd (mint_handle now h prin ten kind ttl g)"
| "handle_step cb now (Resolve handle prin ten kind) g = snd (resolve_handle now handle prin ten kind g)"
| "handle_step cb now (Revoke handle prin ten) g = snd (revoke_handle cb now handle prin ten g)"
| "handle_step cb now (AdminRevoke handle) g = snd (admin_revoke cb handle g)"
| "handle_step cb now (RevokePrincipal prin ten) g = snd (revoke_principal cb prin ten g)"
| "handle_step cb now (ListFor prin ten) g = snd (list_for_principal now prin ten g)"

fun mints :: "handle_op \<Rightarrow> string option" where
  "mints (Mint h prin ten kind ttl) = Some h"
| "mints _ = None"

text \<open>Handles come from a CSPRNG: a minted handle is never one that is in the registry.\<close>

inductive registry_run :: "(handle_record \<Rightarrow> bool) option \<Rightarrow> registry \<Rightarrow> (time \<times> handle_op) list \<Rightarrow> registry \<Rightarrow> bool"
  for cb where
  run_nil: "registry_run cb g [] g"
| run_step: "(\<forall>h. mints x = Some h \<longrightarrow> \<not> dhas (rg_records g) h) \<Longrightarrow>
    registry_run cb (handle_step cb now x g) ops g' \<Longrightarrow> registry_run cb g ((now, x) # ops) g'"

inductive_cases registry_run_ConsE: "registry_run cb g (x # ops) g'"
inductive_simps registry_run_Nil [simp]: "registry_run cb g [] g'"

lemma handle_step_other:
  assumes "mints x = None"
  shows "shrinks g (handle_step cb now x g)" and "registry_inv g \<Longrightarrow> registry_inv (handle_step cb now x g)"
  using assms
  by (cases x, simp_all add: resolve_handle_keeps revoke_handle_keeps admin_revoke_keeps revoke_principal_keeps
      list_for_principal_def purge_registry_shrinks purge_registry_inv Let_def)+

lemma handle_step_keeps:
  assumes "registry_inv g" and "registry_caps g" and "\<forall>h. mints x = Some h \<longrightarrow> \<not> dhas (rg_records g) h"
  shows "registry_inv (handle_step cb now x g) \<and> registry_caps (handle_step cb now x g)"
proof (cases "mints x")
  case None
  then show ?thesis using handle_step_other [OF None] shrinks_caps assms by blast
next
  case (Some h)
  then obtain prin ten kind ttl where "x = Mint h prin ten kind ttl" by (cases x) auto
  with assms mint_handle_keeps show ?thesis by simp
qed

lemma registry_run_keeps:
  "registry_run cb g ops g' \<Longrightarrow> registry_inv g \<Longrightarrow> registry_caps g \<Longrightarrow> registry_inv g' \<and> registry_caps g'"
  by (induction rule: registry_run.induct) (blast dest: handle_step_keeps)+

lemma mint_handle_limits:
  "(rg_max (snd (mint_handle now h prin ten kind ttl g)), rg_max_per_principal (snd (mint_handle now h prin ten kind ttl g)),
    rg_max_per_tenant (snd (mint_handle now h prin ten kind ttl g)), rg_max_ttl (snd (mint_handle now h prin ten kind ttl g)))
   = (rg_max g, rg_max_per_principal g, rg_max_per_tenant g, rg_max_ttl g)"
  using mint_room_shrinks [of g now "(prin, ten)"]
  by (cases rule: mint_handle_cases [of now h prin ten kind ttl g]) (auto simp: shrinks_def)

lemma mint_handle_adds:
  "dhas (rg_records (snd (mint_handle now h prin ten kind ttl g))) j \<Longrightarrow> j = h \<or> dhas (rg_records g) j"
  using mint_room_shrinks [of g now "(prin, ten)"]
  by (cases rule: mint_handle_cases [of now h prin ten kind ttl g]) (auto simp: shrinks_def keys_update)

lemma handle_step_limits:
  "(rg_max (handle_step cb now x g), rg_max_per_principal (handle_step cb now x g),
    rg_max_per_tenant (handle_step cb now x g), rg_max_ttl (handle_step cb now x g))
   = (rg_max g, rg_max_per_principal g, rg_max_per_tenant g, rg_max_ttl g)"
proof (cases "mints x")
  case None
  then show ?thesis using handle_step_other(1) [of x g cb now] by (simp add: shrinks_def)
next
  case (Some h)
  then obtain prin ten kind ttl where "x = Mint h prin ten kind ttl" by (cases x) auto
  then show ?thesis by (simp only: handle_step.simps mint_handle_limits)
qed

lemma registry_run_limits:
  "registry_run cb g ops g' \<Longrightarrow> rg_max g' = rg_max g \<and> rg_max_per_principal g' = rg_max_per_principal g
     \<and> rg_max_per_tenant g' = rg_max_per_tenant g \<and> rg_max_ttl g' = rg_max_ttl g"
  by (induction rule: registry_run.induct) (use handle_step_limits in auto)

lemma handle_step_absent:
  assumes "\<not> dhas (rg_records g) h" and "mints x \<noteq> Some h"
  shows "\<not> dhas (rg_records (handle_step cb now x g)) h"
proof (cases "mints x")
  case None
  then show ?thesis using handle_step_other(1) [of x g cb now] assms(1) by (auto simp: shrinks_def)
next
  case (Some j)
  then obtain prin ten kind ttl where "x = Mint j prin ten kind ttl" by (cases x) auto
  with assms Some mint_handle_adds [where now = now and h = j and prin = prin and ten = ten and kind = kind and ttl = ttl and g = g and j = h] show ?thesis by auto
qed

lemma registry_run_absent:
  "registry_run cb g ops g' \<Longrightarrow> \<not> dhas (rg_records g) h \<Longrightarrow> \<forall>op \<in> set ops. mints (snd op) \<noteq> Some h \<Longrightarrow>
     \<not> dhas (rg_records g') h"
proof (induction rule: registry_run.induct)
  case (run_step x g now ops g')
  then show ?case using handle_step_absent [where g = g and h = h and x = x] by simp
qed simp

lemma resolve_handle_iff:
  "fst (resolve_handle now handle prin ten kind g) = Inr r \<longleftrightarrow>
      (\<exists>h. handle = JStr h \<and> length h \<le> 256 \<and> dget (rg_records g) h = Some r
        \<and> now < hr_expires r \<and> hr_principal r = prin \<and> hr_tenant r = ten
        \<and> (kind = None \<or> kind = Some (hr_kind r)))"
  by (auto simp: resolve_handle_def utf8_inj split: json.splits option.splits if_splits)

lemma admin_revoke_gone: "\<not> dhas (rg_records (snd (admin_revoke cb (JStr h) g))) h"
proof -
  obtain o1 g1 where d: "drop_handle h g = (o1, g1)" by (cases "drop_handle h g")
  then have g1: "\<not> dhas (rg_records g1) h" using drop_handle_records [of h g] by auto
  show ?thesis
  proof (cases o1)
    case (Some r)
    obtain u g2 where n: "notify cb [r] g1 = (u, g2)" by (cases "notify cb [r] g1")
    with notify_records(1) [of cb "[r]" g1] g1 d Some
    show ?thesis by (auto simp: admin_revoke_def split: sum.splits)
  qed (use g1 d in \<open>simp add: admin_revoke_def\<close>)
qed

section \<open>Properties of the registry\<close>

lemma new_registry_ok: "registry_inv (new_registry n p t ttl)" "registry_caps (new_registry n p t ttl)"
  by (simp_all add: registry_inv_def registry_caps_def new_registry_def)

definition demo_registry :: registry where
  "demo_registry = snd (mint_handle 5 ''h1'' ''ann'' ''t'' ''task'' 100 (new_registry 4 3 None 3600))"

lemma demo_registry_run: "registry_run cb (new_registry 4 3 None 3600) [(5, Mint ''h1'' ''ann'' ''t'' ''task'' 100)] demo_registry"
  by (rule run_step) (simp_all add: demo_registry_def new_registry_def)

lemma demo_registry_eq: "rg_records demo_registry = [(''h1'', \<lparr>hr_handle = ''h1'', hr_principal = ''ann'',
    hr_tenant = ''t'', hr_kind = ''task'', hr_created = 5, hr_expires = 105\<rparr>)]"
  by code_simp



text \<open>
  Possession of a handle is not authority: in every state of the registry a handle
  resolves, or is revoked by a caller, only if its record belongs to exactly that principal and
  tenant (and kind, when one is asked for) and has not expired.
\<close>

theorem resolve_is_authorized:
  assumes "registry_run cb (new_registry n per_principal per_tenant ttl) ops g"
  shows "(fst (resolve_handle now handle prin ten kind g) = Inr r \<longleftrightarrow>
      (\<exists>h. handle = JStr h \<and> length h \<le> 256 \<and> dget (rg_records g) h = Some r
        \<and> now < hr_expires r \<and> hr_principal r = prin \<and> hr_tenant r = ten
        \<and> (kind = None \<or> kind = Some (hr_kind r))))
    \<and> (fst (revoke_handle on_revoke now handle prin ten g) = Inr True \<longrightarrow>
      (\<exists>r. fst (resolve_handle now handle prin ten None g) = Inr r
        \<and> \<not> dhas (rg_records (snd (revoke_handle on_revoke now handle prin ten g))) (hr_handle r)))"
proof (rule conjI)
  show "fst (resolve_handle now handle prin ten kind g) = Inr r \<longleftrightarrow>
      (\<exists>h. handle = JStr h \<and> length h \<le> 256 \<and> dget (rg_records g) h = Some r
        \<and> now < hr_expires r \<and> hr_principal r = prin \<and> hr_tenant r = ten
        \<and> (kind = None \<or> kind = Some (hr_kind r)))"
    by (rule resolve_handle_iff)
  show "fst (revoke_handle on_revoke now handle prin ten g) = Inr True \<longrightarrow>
      (\<exists>r. fst (resolve_handle now handle prin ten None g) = Inr r
        \<and> \<not> dhas (rg_records (snd (revoke_handle on_revoke now handle prin ten g))) (hr_handle r))"
  proof
    assume ok: "fst (revoke_handle on_revoke now handle prin ten g) = Inr True"
    obtain res g1 where res: "resolve_handle now handle prin ten None g = (res, g1)"
      by (cases "resolve_handle now handle prin ten None g")
    with ok obtain r where r: "res = Inr r" by (cases res) (auto simp: revoke_handle_def)
    with res admin_revoke_gone [where cb = on_revoke and h = "hr_handle r" and g = g1]
    show "\<exists>r. fst (resolve_handle now handle prin ten None g) = Inr r
        \<and> \<not> dhas (rg_records (snd (revoke_handle on_revoke now handle prin ten g))) (hr_handle r)"
      by (intro exI [of _ r]) (simp add: revoke_handle_def)
  qed
qed

theorem resolve_is_authorized_witness:
  "is_ok (fst (resolve_handle 10 (JStr ''h1'') ''ann'' ''t'' None demo_registry))
   \<and> \<not> is_ok (fst (resolve_handle 10 (JStr ''h1'') ''bob'' ''t'' None demo_registry))"
  using resolve_is_authorized [OF demo_registry_run, THEN conjunct1]
  by (auto simp: is_ok_iff demo_registry_eq)

text \<open>
  C19: Revoking a principal is final: every handle it held at that moment is reported to the
  revocation callback, and whatever happens later, as long as the random generator does not
  issue the same handle again, that handle resolves for nobody.
\<close>

theorem revoked_handles_stay_revoked:
  assumes "registry_run cb (new_registry n per_principal per_tenant ttl) before g"
    and "dget (rg_records g) h = Some r" and "of_principal prin ten r"
    and "g1 = snd (revoke_principal cb prin ten g)" and "registry_run cb g1 after g2"
    and "\<forall>op \<in> set after. mints (snd op) \<noteq> Some h"
  shows "(cb \<noteq> None \<longrightarrow> r \<in> set (rg_notified g1))
    \<and> \<not> is_ok (fst (resolve_handle now (JStr h) p2 t2 kind g2))"
proof -
  have inv: "registry_inv g" using registry_run_keeps [OF assms(1) new_registry_ok] by simp
  have r: "(h, r) \<in> set (rg_records g)" using assms(2) by (rule map_of_SomeD)
  then have hr: "hr_handle r = h" using inv by (auto simp: registry_inv_def)
  let ?doomed = "filter (of_principal prin ten) (map snd (rg_records g))"
  have d: "r \<in> set ?doomed" using r assms(3) by force
  have "cb \<noteq> None \<longrightarrow> r \<in> set (rg_notified g1)"
    using r assms(3) by (force simp: assms(4) revoke_principal_state notify_def)
  moreover have "\<not> dhas (rg_records g1) h"
    using d hr by (auto simp: assms(4) revoke_principal_state)
  then have "\<not> dhas (rg_records g2) h" by (rule registry_run_absent [OF assms(5) _ assms(6)])
  then have "\<not> is_ok (fst (resolve_handle now (JStr h) p2 t2 kind g2))"
    by (auto simp: is_ok_iff resolve_handle_iff dhas_conv_dget)
  ultimately show ?thesis by blast
qed

theorem revoked_handles_stay_revoked_witness:
  "\<not> is_ok (fst (resolve_handle 10 (JStr ''h1'') ''ann'' ''t'' None (snd (revoke_principal None ''ann'' None demo_registry))))"
  using revoked_handles_stay_revoked [OF demo_registry_run [of None] _ _ refl run_nil,
      of "''h1''" _ "''ann''" None 10 "''ann''" "''t''" None]
  by (simp add: demo_registry_eq of_principal_def)

text \<open>
  An owner below the floor cannot be locked out by others: while the registry and its
  tenant are below their hard ceilings (twice the limits) and it holds fewer handles than its
  own limit, minting succeeds, however full the registry is otherwise.
\<close>

theorem owner_below_floor_is_admitted:
  assumes "registry_run cb (new_registry n per_principal (Some per_tenant) max_ttl) ops g"
    and "prin \<noteq> []" and "ten \<noteq> []" and "0 < ttl" and "ttl \<le> max_ttl"
    and "count_of (rg_counts g) (prin, ten) < handle_floor"
    and "int (count_of (rg_counts g) (prin, ten)) < per_principal"
    and "int (length (rg_records g)) < 2 * n" and "int (count_of (rg_tenant_counts g) ten) < 2 * per_tenant"
  shows "fst (mint_handle now h prin ten kind ttl g) = Inr h"
proof -
  have inv: "registry_inv g" using registry_run_keeps [OF assms(1) new_registry_ok] by auto
  have lim: "rg_max g = n" "rg_max_per_principal g = per_principal" "rg_max_per_tenant g = per_tenant"
      "rg_max_ttl g = max_ttl"
    using registry_run_limits [OF assms(1)] by (auto simp: new_registry_def)
  obtain g2 g3 g4 where st: "shrinks g g2" "shrinks g2 g3" "shrinks g3 g4"
    and invs: "registry_inv g2 \<and> registry_inv g3 \<and> registry_inv g4"
    and ok: "is_ok (fst (mint_room now (prin, ten) g)) \<longleftrightarrow>
        \<not> (int (length (rg_records g2)) \<ge> rg_max g2
            \<and> (count_of (rg_counts g2) (prin, ten) \<ge> handle_floor \<or> int (length (rg_records g2)) \<ge> 2 * rg_max g2))
        \<and> \<not> int (count_of (rg_counts g3) (prin, ten)) \<ge> rg_max_per_principal g3
        \<and> \<not> (int (count_of (rg_tenant_counts g4) ten) \<ge> rg_max_per_tenant g4
            \<and> (count_of (rg_counts g4) (prin, ten) \<ge> handle_floor
               \<or> int (count_of (rg_tenant_counts g4) ten) \<ge> 2 * rg_max_per_tenant g4))"
    by (rule mint_room_stages [of g now "(prin, ten)"]) (use inv in auto)
  have 3: "shrinks g g3" and 4: "shrinks g g4" using st by (blast intro: shrinks_trans)+
  note c2 = shrinks_counts [OF st(1) inv] and c3 = shrinks_counts [OF 3 inv] and c4 = shrinks_counts [OF 4 inv]
  have "\<not> (count_of (rg_counts g2) (prin, ten) \<ge> handle_floor)" "\<not> int (length (rg_records g2)) \<ge> 2 * rg_max g2"
    using c2(1) [of "(prin, ten)"] c2(3,4) assms(6,8) lim invs by auto
  moreover have "\<not> int (count_of (rg_counts g3) (prin, ten)) \<ge> rg_max_per_principal g3"
    using c3(1) [of "(prin, ten)"] c3(5) assms(7) lim invs by auto
  moreover have "\<not> (count_of (rg_counts g4) (prin, ten) \<ge> handle_floor)"
      "\<not> int (count_of (rg_tenant_counts g4) ten) \<ge> 2 * rg_max_per_tenant g4"
    using c4(1) [of "(prin, ten)"] c4(2) [of ten] c4(6) assms(6,9) lim invs by auto
  ultimately have "is_ok (fst (mint_room now (prin, ten) g))" using ok by blast
  then show ?thesis using assms(2-5) lim by (auto simp: mint_handle_def is_ok_iff split: prod.splits)
qed

theorem owner_below_floor_is_admitted_witness:
  "fst (mint_handle 5 ''h9'' ''bob'' ''t'' ''task'' 60 (new_registry 1 3 (Some 2) 3600)) = Inr ''h9''"
  by (rule owner_below_floor_is_admitted [OF run_nil [of None]])
     (simp_all add: new_registry_def handle_floor_def)

end
