(* ===== verification/Config.thy ===== *)
theory Config
  imports Authz
begin

text \<open>
  The configuration (\<open>mcp_armor/config.py\<close>): the frozen configuration objects and the loader
  that turns the mapping \<open>yaml.safe_load\<close> returns into them.  \<open>int\<close> of a string and \<open>str\<close> of a
  value that is not one are the fields of \<open>config_lib\<close>.  The lemmas show which mappings load
  and that a threat is switched off only explicitly.
\<close>

section \<open>Known keys\<close>

definition known_top_level :: "string list" where
  "known_top_level = [''version'', ''threats'', ''dry_run'']"

definition known_threat_keys :: "string list" where
  "known_threat_keys = [''T1'', ''T2'', ''T3'', ''T4'', ''T5'', ''T6'', ''T7'', ''T8'', ''T9'', ''T10'', ''T11'', ''T12'']"

definition known_by_threat :: "(string, string list) dict" where
  "known_by_threat =
    [(''T1'', [''enabled'', ''require_dpop'', ''require_jti'', ''jti_cache_size'', ''token_expiry_max_secs'',
        ''jwks'', ''issuer'', ''audience'', ''endpoint_uri'', ''dpop_max_age_secs'', ''dpop_future_skew_secs'',
        ''require_cnf_binding'']),
     (''T2'', [''enabled'', ''default_policy'', ''tool_policies'', ''destructive_token_ttl_seconds'',
        ''echo_confirm_token'']),
     (''T3'', [''enabled'', ''max_payload_bytes'', ''strict_schema'', ''prose_field_names'']),
     (''T4'', [''enabled'', ''scan_definitions'', ''scan_responses'', ''scan_call_args'']),
     (''T5'', [''enabled'', ''profile'']),
     (''T6'', [''enabled'', ''baseline_on_initialize'', ''fail_on_drift'', ''tool_allowlist'', ''typosquat_distance'']),
     (''T7'', [''enabled'', ''require_initialized_handshake'', ''enforce_request_envelope'', ''allowed_meta_keys'',
        ''allow_stateless_requests'']),
     (''T8'', [''enabled'', ''allow_public_bind'', ''block_rfc1918'', ''bind_host'', ''bind_port'']),
     (''T9'', [''enabled'', ''max_output_length'', ''strip_injection_patterns'']),
     (''T10'', [''enabled'', ''max_calls_per_session'', ''max_wall_clock_secs'', ''loop_depth_limit'',
        ''heartbeat_interval_secs'']),
     (''T11'', [''enabled'', ''tool_allowlist'', ''require_registry_signature'', ''levenshtein_threshold'',
        ''registry_public_key'']),
     (''T12'', [''enabled'', ''path'', ''log_params_as_digest'', ''chain_verify_on_startup'', ''require_hmac_key''])]"

text \<open>\<open>ConfigError\<close> is a subclass of \<open>ValueError\<close>.\<close>

definition config_error :: "string \<Rightarrow> exn" where
  "config_error site = PyExc ValueError (''ConfigError: '' @ site)"

definition reject_unknown :: "(string, json) dict \<Rightarrow> string list \<Rightarrow> string \<Rightarrow> unit result" where
  "reject_unknown d known site =
     require (list_all (\<lambda>p. fst p \<in> set known) d) (config_error (''Unknown config keys in '' @ site))"

section \<open>Configuration objects\<close>

record t1_config =
  c1_require_dpop :: json
  c1_require_jti :: json
  c1_jti_cache_size :: int
  c1_token_expiry_max_secs :: int
  c1_jwks :: json
  c1_issuer :: json
  c1_audience :: json
  c1_endpoint_uri :: json
  c1_dpop_max_age_secs :: int
  c1_dpop_future_skew_secs :: int
  c1_require_cnf_binding :: bool

record t2_config =
  c2_tool_policies :: "(string, tool_policy) dict"
  c2_default_deny :: bool
  c2_token_ttl :: int
  c2_echo_confirm_token :: bool

record t3_config =
  c3_max_payload_bytes :: int
  c3_strict_schema :: bool
  c3_prose_field_names :: "json list option"

record t4_config =
  c4_scan_definitions :: bool
  c4_scan_responses :: bool
  c4_scan_call_args :: bool

record t5_config =
  c5_profile :: string

record t6_config =
  c6_fail_on_drift :: bool
  c6_tool_allowlist :: "json list option"
  c6_typosquat_distance :: int

record t7_config =
  c7_require_initialized_handshake :: bool
  c7_enforce_request_envelope :: bool
  c7_allowed_meta_keys :: "string list option"
  c7_allow_stateless_requests :: bool

record t8_config =
  c8_allow_public_bind :: bool
  c8_block_rfc1918_ssrf :: bool
  c8_bind_host :: "string option"
  c8_bind_port :: int

record t9_config =
  c9_max_output_length :: int
  c9_strip_injection_patterns :: bool

record t10_config =
  c10_max_calls_per_session :: int
  c10_max_wall_clock_secs :: int
  c10_loop_depth_limit :: int
  c10_heartbeat_interval_secs :: int

record t11_config =
  c11_tool_allowlist :: "json list option"
  c11_require_registry_signature :: bool
  c11_levenshtein_threshold :: int
  c11_registry_public_key :: json

record t12_config =
  c12_path :: string
  c12_chain_verify_on_startup :: bool
  c12_require_hmac_key :: bool

record armor_config =
  ac_version :: int
  ac_t1 :: "t1_config option"
  ac_t2 :: "t2_config option"
  ac_t3 :: "t3_config option"
  ac_t4 :: "t4_config option"
  ac_t5 :: "t5_config option"
  ac_t6 :: "t6_config option"
  ac_t7 :: "t7_config option"
  ac_t8 :: "t8_config option"
  ac_t9 :: "t9_config option"
  ac_t10 :: "t10_config option"
  ac_t11 :: "t11_config option"
  ac_t12 :: "t12_config option"
  ac_dry_run :: bool

section \<open>Readers\<close>

record config_lib =
  cl_int :: "string \<Rightarrow> int option"
  cl_repr :: "json \<Rightarrow> string"

type_synonym block = "(string, json) dict"

text \<open>\<open>d.get(k, default)\<close>, \<open>int(d.get(k, default))\<close>, \<open>bool(d.get(k, default))\<close>.\<close>

definition get_or :: "block \<Rightarrow> string \<Rightarrow> json \<Rightarrow> json" where
  "get_or d k v = (case dget d k of None \<Rightarrow> v | Some w \<Rightarrow> w)"

definition get_int :: "config_lib \<Rightarrow> block \<Rightarrow> string \<Rightarrow> int \<Rightarrow> int result" where
  "get_int lib d k i = py_int (cl_int lib) (get_or d k (JInt i))"

definition get_bool :: "block \<Rightarrow> string \<Rightarrow> bool \<Rightarrow> bool" where
  "get_bool d k b = truthy (get_or d k (JBool b))"

text \<open>\<open>tuple(v) if v is not None else None\<close>.\<close>

definition opt_tuple :: "json \<Rightarrow> json list option result" where
  "opt_tuple v = (if v = JNull then Inr None else bindR (py_iter v) (\<lambda>xs. Inr (Some xs)))"

definition policy_from_value :: "config_lib \<Rightarrow> json \<Rightarrow> tool_policy result" where
  "policy_from_value lib v = (case v of
     JArr xs \<Rightarrow> Inr \<lparr>required_scopes = map (str_of (cl_repr lib)) xs, user_only = False,
       destructive = False, tenant_isolated = False\<rparr>
   | JObj d \<Rightarrow> bindR (py_iter (get_or d ''required_scopes'' (JArr []))) (\<lambda>xs.
       Inr \<lparr>required_scopes = map (str_of (cl_repr lib)) xs, user_only = get_bool d ''user_only'' False,
         destructive = get_bool d ''destructive'' False, tenant_isolated = get_bool d ''tenant_isolated'' False\<rparr>)
   | _ \<Rightarrow> Inl (config_error ''tool_policies entry''))"

fun policies_from :: "config_lib \<Rightarrow> block \<Rightarrow> (string, tool_policy) dict result" where
  "policies_from lib [] = Inr []"
| "policies_from lib ((name, v) # kvs) = bindR (policy_from_value lib v) (\<lambda>p.
     bindR (policies_from lib kvs) (\<lambda>ps. Inr ((name, p) # ps)))"

text \<open>\<open>_t(key)\<close>: the raw block of a threat if it is enabled.\<close>

definition threat_block :: "block \<Rightarrow> string \<Rightarrow> block option result" where
  "threat_block threats key = (case get_or threats key (JObj []) of
     JObj d \<Rightarrow>
       if \<not> truthy (get_or d ''enabled'' (JBool True)) then Inr None
       else bindR (reject_unknown d (the (dget known_by_threat key)) key) (\<lambda>_. Inr (Some d))
   | _ \<Rightarrow> Inl (config_error (key @ '' config must be a mapping'')))"

text \<open>Reads a threat's block with the reader of its configuration object.\<close>

definition read_block :: "block \<Rightarrow> string \<Rightarrow> (block \<Rightarrow> 'c result) \<Rightarrow> 'c option result" where
  "read_block threats key reader = bindR (threat_block threats key) (\<lambda>b. case b of
     None \<Rightarrow> Inr None | Some d \<Rightarrow> bindR (reader d) (\<lambda>c. Inr (Some c)))"

section \<open>One reader per threat\<close>

definition read_t1 :: "config_lib \<Rightarrow> block \<Rightarrow> t1_config result" where
  "read_t1 lib d =
     bindR (get_int lib d ''jti_cache_size'' 10000) (\<lambda>cache.
     bindR (get_int lib d ''token_expiry_max_secs'' 3600) (\<lambda>life.
     bindR (get_int lib d ''dpop_max_age_secs'' 30) (\<lambda>age.
     bindR (get_int lib d ''dpop_future_skew_secs'' 5) (\<lambda>skew.
     Inr \<lparr>c1_require_dpop = get_or d ''require_dpop'' (JBool True), c1_require_jti = get_or d ''require_jti'' (JBool True),
       c1_jti_cache_size = cache, c1_token_expiry_max_secs = life, c1_jwks = get_or_null d ''jwks'',
       c1_issuer = get_or_null d ''issuer'', c1_audience = get_or_null d ''audience'',
       c1_endpoint_uri = get_or_null d ''endpoint_uri'', c1_dpop_max_age_secs = age,
       c1_dpop_future_skew_secs = skew, c1_require_cnf_binding = get_bool d ''require_cnf_binding'' True\<rparr>))))"

definition read_t2 :: "config_lib \<Rightarrow> block \<Rightarrow> t2_config result" where
  "read_t2 lib d = (case or_else (get_or_null d ''tool_policies'') (JObj []) of
     JObj raw \<Rightarrow>
       bindR (policies_from lib raw) (\<lambda>ps.
       bindR (get_int lib d ''destructive_token_ttl_seconds'' 60) (\<lambda>ttl.
       Inr \<lparr>c2_tool_policies = ps, c2_default_deny = (get_or d ''default_policy'' (JStr ''deny'') = JStr ''deny''),
         c2_token_ttl = ttl, c2_echo_confirm_token = get_bool d ''echo_confirm_token'' False\<rparr>))
   | _ \<Rightarrow> Inl (PyExc AttributeError ''items''))"

definition read_t3 :: "config_lib \<Rightarrow> block \<Rightarrow> t3_config result" where
  "read_t3 lib d =
     bindR (get_int lib d ''max_payload_bytes'' 65536) (\<lambda>n.
     bindR (opt_tuple (get_or_null d ''prose_field_names'')) (\<lambda>names.
     Inr \<lparr>c3_max_payload_bytes = n, c3_strict_schema = get_bool d ''strict_schema'' True,
       c3_prose_field_names = names\<rparr>))"

definition read_t4 :: "config_lib \<Rightarrow> block \<Rightarrow> t4_config result" where
  "read_t4 lib d = Inr \<lparr>c4_scan_definitions = get_bool d ''scan_definitions'' True,
     c4_scan_responses = get_bool d ''scan_responses'' True, c4_scan_call_args = get_bool d ''scan_call_args'' True\<rparr>"

definition read_t5 :: "config_lib \<Rightarrow> block \<Rightarrow> t5_config result" where
  "read_t5 lib d = Inr \<lparr>c5_profile = str_of (cl_repr lib) (get_or d ''profile'' (JStr ''pci''))\<rparr>"

definition read_t6 :: "config_lib \<Rightarrow> block \<Rightarrow> t6_config result" where
  "read_t6 lib d =
     bindR (opt_tuple (get_or_null d ''tool_allowlist'')) (\<lambda>al.
     bindR (get_int lib d ''typosquat_distance'' 2) (\<lambda>n.
     Inr \<lparr>c6_fail_on_drift = get_bool d ''fail_on_drift'' True, c6_tool_allowlist = al, c6_typosquat_distance = n\<rparr>))"

definition read_t7 :: "config_lib \<Rightarrow> block \<Rightarrow> t7_config result" where
  "read_t7 lib d =
     bindR (opt_tuple (get_or_null d ''allowed_meta_keys'')) (\<lambda>ks.
     Inr \<lparr>c7_require_initialized_handshake = get_bool d ''require_initialized_handshake'' False,
       c7_enforce_request_envelope = get_bool d ''enforce_request_envelope'' False,
       c7_allowed_meta_keys = map_option (map (str_of (cl_repr lib))) ks,
       c7_allow_stateless_requests = get_bool d ''allow_stateless_requests'' False\<rparr>)"

definition read_t8 :: "config_lib \<Rightarrow> block \<Rightarrow> t8_config result" where
  "read_t8 lib d =
     bindR (get_int lib d ''bind_port'' 0) (\<lambda>port.
     Inr \<lparr>c8_allow_public_bind = get_bool d ''allow_public_bind'' False,
       c8_block_rfc1918_ssrf = get_bool d ''block_rfc1918'' True,
       c8_bind_host = (let h = get_or_null d ''bind_host'' in if h = JNull then None else Some (str_of (cl_repr lib) h)),
       c8_bind_port = port\<rparr>)"

definition read_t9 :: "config_lib \<Rightarrow> block \<Rightarrow> t9_config result" where
  "read_t9 lib d =
     bindR (get_int lib d ''max_output_length'' 32768) (\<lambda>n.
     Inr \<lparr>c9_max_output_length = n, c9_strip_injection_patterns = get_bool d ''strip_injection_patterns'' True\<rparr>)"

definition read_t10 :: "config_lib \<Rightarrow> block \<Rightarrow> t10_config result" where
  "read_t10 lib d =
     bindR (get_int lib d ''max_calls_per_session'' 100) (\<lambda>calls.
     bindR (get_int lib d ''max_wall_clock_secs'' 300) (\<lambda>secs.
     bindR (get_int lib d ''loop_depth_limit'' 10) (\<lambda>dep.
     bindR (get_int lib d ''heartbeat_interval_secs'' 30) (\<lambda>beat.
     Inr \<lparr>c10_max_calls_per_session = calls, c10_max_wall_clock_secs = secs, c10_loop_depth_limit = dep,
       c10_heartbeat_interval_secs = beat\<rparr>))))"

definition read_t11 :: "config_lib \<Rightarrow> block \<Rightarrow> t11_config result" where
  "read_t11 lib d =
     bindR (opt_tuple (get_or_null d ''tool_allowlist'')) (\<lambda>al.
     bindR (get_int lib d ''levenshtein_threshold'' 1) (\<lambda>n.
     Inr \<lparr>c11_tool_allowlist = al, c11_require_registry_signature = get_bool d ''require_registry_signature'' False,
       c11_levenshtein_threshold = n, c11_registry_public_key = get_or_null d ''registry_public_key''\<rparr>))"

definition read_t12 :: "config_lib \<Rightarrow> block \<Rightarrow> t12_config result" where
  "read_t12 lib d = Inr \<lparr>c12_path = str_of (cl_repr lib) (get_or d ''path'' (JStr ''/var/log/mcp-armor/audit.jsonl'')),
     c12_chain_verify_on_startup = get_bool d ''chain_verify_on_startup'' True,
     c12_require_hmac_key = get_bool d ''require_hmac_key'' True\<rparr>"

section \<open>The loader\<close>

text \<open>The two refusals of stateless mode without its protections.\<close>

definition check_stateless :: "block \<Rightarrow> t7_config option \<Rightarrow> unit result" where
  "check_stateless threats t7 = (case t7 of
     None \<Rightarrow> (case get_or threats ''T7'' (JObj []) of
         JObj raw \<Rightarrow> require (\<not> get_bool raw ''allow_stateless_requests'' False)
           (config_error ''T7.allow_stateless_requests is set but T7 is disabled'')
       | _ \<Rightarrow> Inr ())
   | Some c \<Rightarrow> require (c7_allow_stateless_requests c \<longrightarrow> c7_enforce_request_envelope c)
       (config_error ''T7.allow_stateless_requests requires T7.enforce_request_envelope''))"

definition load_config :: "config_lib \<Rightarrow> json \<Rightarrow> armor_config result" where
  "load_config lib yaml = (case yaml of
     JObj raw \<Rightarrow>
       bindR (reject_unknown raw known_top_level ''top-level'') (\<lambda>_.
       bindR (get_int lib raw ''version'' 1) (\<lambda>version.
       case get_or raw ''threats'' (JObj []) of
         JObj threats \<Rightarrow>
           bindR (require (list_all (\<lambda>p. fst p \<in> set known_threat_keys) threats)
             (config_error ''Unknown threat keys'')) (\<lambda>_.
           bindR (read_block threats ''T1'' (read_t1 lib)) (\<lambda>t1.
           bindR (read_block threats ''T2'' (read_t2 lib)) (\<lambda>t2.
           bindR (read_block threats ''T3'' (read_t3 lib)) (\<lambda>t3.
           bindR (read_block threats ''T4'' (read_t4 lib)) (\<lambda>t4.
           bindR (read_block threats ''T5'' (read_t5 lib)) (\<lambda>t5.
           bindR (read_block threats ''T6'' (read_t6 lib)) (\<lambda>t6.
           bindR (read_block threats ''T7'' (read_t7 lib)) (\<lambda>t7.
           bindR (check_stateless threats t7) (\<lambda>_.
           bindR (read_block threats ''T8'' (read_t8 lib)) (\<lambda>t8.
           bindR (read_block threats ''T9'' (read_t9 lib)) (\<lambda>t9.
           bindR (read_block threats ''T10'' (read_t10 lib)) (\<lambda>t10.
           bindR (read_block threats ''T11'' (read_t11 lib)) (\<lambda>t11.
           bindR (read_block threats ''T12'' (read_t12 lib)) (\<lambda>t12.
           Inr \<lparr>ac_version = version, ac_t1 = t1, ac_t2 = t2, ac_t3 = t3, ac_t4 = t4, ac_t5 = t5,
             ac_t6 = t6, ac_t7 = t7, ac_t8 = t8, ac_t9 = t9, ac_t10 = t10, ac_t11 = t11, ac_t12 = t12,
             ac_dry_run = get_bool raw ''dry_run'' False\<rparr>))))))))))))))
       | _ \<Rightarrow> Inl (config_error ''threats must be a mapping'')))
   | _ \<Rightarrow> Inl (config_error ''cosai.yaml must be a YAML mapping''))"

section \<open>What a loaded configuration says\<close>

definition threat_on :: "block \<Rightarrow> string \<Rightarrow> bool \<Rightarrow> bool" where
  "threat_on threats k on \<longleftrightarrow> (\<exists>d. get_or threats k (JObj []) = JObj d
     \<and> on = truthy (get_or d ''enabled'' (JBool True))
     \<and> (on \<longrightarrow> fst ` set d \<subseteq> set (the (dget known_by_threat k))))"

definition enabled_threats :: "armor_config \<Rightarrow> (string, bool) dict" where
  "enabled_threats c = [(''T1'', ac_t1 c \<noteq> None), (''T2'', ac_t2 c \<noteq> None), (''T3'', ac_t3 c \<noteq> None),
     (''T4'', ac_t4 c \<noteq> None), (''T5'', ac_t5 c \<noteq> None), (''T6'', ac_t6 c \<noteq> None), (''T7'', ac_t7 c \<noteq> None),
     (''T8'', ac_t8 c \<noteq> None), (''T9'', ac_t9 c \<noteq> None), (''T10'', ac_t10 c \<noteq> None),
     (''T11'', ac_t11 c \<noteq> None), (''T12'', ac_t12 c \<noteq> None)]"

lemma reject_unknown_ok: "reject_unknown d known site = Inr u \<longleftrightarrow> fst ` set d \<subseteq> set known"
  by (auto simp: reject_unknown_def require_def list_all_iff)

lemma require_ok: "require b e = Inr u \<longleftrightarrow> b"
  by (simp add: require_def)

lemma read_block_on:
  assumes "read_block threats k rd = Inr r"
  shows "threat_on threats k (r \<noteq> None)"
proof -
  from assms obtain b where b: "threat_block threats k = Inr b" and r: "r \<noteq> None \<longleftrightarrow> b \<noteq> None"
    by (cases "threat_block threats k") (auto simp: read_block_def bindR_eq_Inr split: option.splits)
  show ?thesis
  proof (cases "get_or threats k (JObj [])")
    case (JObj d)
    with b r show ?thesis
      by (auto simp: threat_on_def threat_block_def bindR_eq_Inr reject_unknown_ok split: if_splits)
  qed (use b in \<open>simp_all add: threat_block_def\<close>)
qed

lemma load_config_parts:
  assumes "load_config lib (JObj raw) = Inr cfg"
  obtains threats where "get_or raw ''threats'' (JObj []) = JObj threats"
    and "fst ` set raw \<subseteq> set known_top_level" and "fst ` set threats \<subseteq> set known_threat_keys"
    and "\<forall>p \<in> set (enabled_threats cfg). threat_on threats (fst p) (snd p)"
    and "check_stateless threats (ac_t7 cfg) = Inr ()" and "ac_dry_run cfg = get_bool raw ''dry_run'' False"
proof -
  from assms have top: "fst ` set raw \<subseteq> set known_top_level"
    by (simp add: load_config_def bindR_eq_Inr reject_unknown_ok)
  from assms obtain threats where t: "get_or raw ''threats'' (JObj []) = JObj threats"
    by (cases "get_or raw ''threats'' (JObj [])") (auto simp: load_config_def bindR_eq_Inr)
  from assms t obtain t1 t2 t3 t4 t5 t6 t7 t8 t9 t10 t11 t12 v where
      known: "list_all (\<lambda>p. fst p \<in> set known_threat_keys) threats"
      and 1: "read_block threats ''T1'' (read_t1 lib) = Inr t1" and 2: "read_block threats ''T2'' (read_t2 lib) = Inr t2"
      and 3: "read_block threats ''T3'' (read_t3 lib) = Inr t3" and 4: "read_block threats ''T4'' (read_t4 lib) = Inr t4"
      and 5: "read_block threats ''T5'' (read_t5 lib) = Inr t5" and 6: "read_block threats ''T6'' (read_t6 lib) = Inr t6"
      and 7: "read_block threats ''T7'' (read_t7 lib) = Inr t7" and 8: "read_block threats ''T8'' (read_t8 lib) = Inr t8"
      and 9: "read_block threats ''T9'' (read_t9 lib) = Inr t9" and 10: "read_block threats ''T10'' (read_t10 lib) = Inr t10"
      and 11: "read_block threats ''T11'' (read_t11 lib) = Inr t11" and 12: "read_block threats ''T12'' (read_t12 lib) = Inr t12"
      and sl: "check_stateless threats t7 = Inr ()"
      and cfg: "cfg = \<lparr>ac_version = v, ac_t1 = t1, ac_t2 = t2, ac_t3 = t3, ac_t4 = t4, ac_t5 = t5, ac_t6 = t6,
        ac_t7 = t7, ac_t8 = t8, ac_t9 = t9, ac_t10 = t10, ac_t11 = t11, ac_t12 = t12,
        ac_dry_run = get_bool raw ''dry_run'' False\<rparr>"
    by (auto simp: load_config_def bindR_eq_Inr require_ok)
  show ?thesis
  proof (rule that [OF t top])
    show "fst ` set threats \<subseteq> set known_threat_keys" using known by (auto simp: list_all_iff)
    show "check_stateless threats (ac_t7 cfg) = Inr ()" using sl by (simp add: cfg)
    show "ac_dry_run cfg = get_bool raw ''dry_run'' False" by (simp add: cfg)
    show "\<forall>p \<in> set (enabled_threats cfg). threat_on threats (fst p) (snd p)"
      using read_block_on [OF 1] read_block_on [OF 2] read_block_on [OF 3] read_block_on [OF 4]
        read_block_on [OF 5] read_block_on [OF 6] read_block_on [OF 7] read_block_on [OF 8]
        read_block_on [OF 9] read_block_on [OF 10] read_block_on [OF 11] read_block_on [OF 12]
      by (simp add: enabled_threats_def cfg)
  qed
qed

text \<open>
  A configuration that loads has no unknown key at the top level, among the threats or in
  an enabled threat's block, every threat is enabled unless its own block says a false value
  for \<open>enabled\<close>, enforcement is switched off only by an explicit \<open>dry_run\<close>, and stateless
  requests are never allowed without the session engine and the request envelope checks.
\<close>

theorem loaded_config_is_strict:
  assumes "load_config lib yaml = Inr cfg"
  shows "\<exists>raw threats. yaml = JObj raw \<and> get_or raw ''threats'' (JObj []) = JObj threats
    \<and> fst ` set raw \<subseteq> set known_top_level \<and> fst ` set threats \<subseteq> set known_threat_keys
    \<and> (\<forall>p \<in> set (enabled_threats cfg). threat_on threats (fst p) (snd p))
    \<and> (ac_dry_run cfg \<longrightarrow> truthy (get_or raw ''dry_run'' (JBool False)))
    \<and> (case ac_t7 cfg of
         None \<Rightarrow> \<not> (\<exists>d. dget threats ''T7'' = Some (JObj d) \<and> get_bool d ''allow_stateless_requests'' False)
       | Some c \<Rightarrow> c7_allow_stateless_requests c \<longrightarrow> c7_enforce_request_envelope c)"
proof -
  obtain raw where raw: "yaml = JObj raw" using assms by (cases yaml) (auto simp: load_config_def)
  obtain threats where t: "get_or raw ''threats'' (JObj []) = JObj threats"
      "fst ` set raw \<subseteq> set known_top_level" "fst ` set threats \<subseteq> set known_threat_keys"
      "\<forall>p \<in> set (enabled_threats cfg). threat_on threats (fst p) (snd p)"
      "check_stateless threats (ac_t7 cfg) = Inr ()" "ac_dry_run cfg = get_bool raw ''dry_run'' False"
    by (rule load_config_parts [OF assms [unfolded raw]])
  have "case ac_t7 cfg of
         None \<Rightarrow> \<not> (\<exists>d. dget threats ''T7'' = Some (JObj d) \<and> get_bool d ''allow_stateless_requests'' False)
       | Some c \<Rightarrow> c7_allow_stateless_requests c \<longrightarrow> c7_enforce_request_envelope c"
    using t(5) by (auto simp: check_stateless_def require_ok get_or_def split: option.splits)
  with raw t show ?thesis by (auto simp: get_bool_def)
qed

definition demo_config_lib :: config_lib where
  "demo_config_lib = \<lparr>cl_int = (\<lambda>s. None), cl_repr = (\<lambda>v. ''?'')\<rparr>"

definition demo_config :: armor_config where
  "demo_config = (case load_config demo_config_lib (JObj [(''threats'', JObj [(''T5'', JObj [(''enabled'', JBool False)])])])
     of Inr c \<Rightarrow> c)"

lemma demo_config_loads:
  "load_config demo_config_lib (JObj [(''threats'', JObj [(''T5'', JObj [(''enabled'', JBool False)])])]) = Inr demo_config"
proof -
  have "is_ok (load_config demo_config_lib (JObj [(''threats'', JObj [(''T5'', JObj [(''enabled'', JBool False)])])]))"
    by (simp add: load_config_def read_block_def threat_block_def get_or_def get_int_def py_int_def
        reject_unknown_def known_top_level_def known_threat_keys_def known_by_threat_def check_stateless_def
        read_t1_def read_t2_def read_t3_def read_t4_def read_t5_def read_t6_def read_t7_def read_t8_def
        read_t9_def read_t10_def read_t11_def read_t12_def get_or_null_def opt_tuple_def or_else_def get_bool_def)
  then show ?thesis by (auto simp: is_ok_iff demo_config_def)
qed

theorem loaded_config_is_strict_witness:
  "list_all (\<lambda>p. threat_on [(''T5'', JObj [(''enabled'', JBool False)])] (fst p) (snd p)) (enabled_threats demo_config)"
  using loaded_config_is_strict [OF demo_config_loads] by (auto simp: get_or_def list_all_iff)

end
