(* ===== verification/Guard.thy ===== *)
theory Guard
  imports Config Engine "HOL-Library.Sublist"
begin

text \<open>
  The guard (\<open>CoSAIGuard\<close> in \<open>mcp_armor/guard.py\<close>): the checks of its constructor, the order of
  the engines built from a configuration, the life-cycle loops, the request and response chains
  with the tuning mode \<open>dry_run\<close>, the commitment of tool schemas, and the per-tool decorator
  \<open>protect\<close>.  An engine is a record of its hooks over a state \<open>'w\<close> that holds the states of all
  engines; the two context variables the guard writes are fields of \<open>gstate\<close>.  The locale
  \<open>guarded\<close> is a chain of engines that keep the frame of the engine interface; the guard's
  chain is then a hook with that frame itself.
\<close>

section \<open>Engines and the guard's state\<close>

datatype engine_kind = AuditE | AuthE | SessionE | EnvelopeE | NetworkE | SupplyChainE | AuthzE
  | ValidationE | BoundaryE | ResourceE | IntegrityE | PIIE | TrustE

record 'w engine =
  en_kind :: engine_kind
  en_startup :: "'w \<Rightarrow> unit result \<times> 'w"
  en_shutdown :: "'w \<Rightarrow> unit result \<times> 'w"
  en_session_start :: "ctx \<Rightarrow> 'w \<Rightarrow> ctx result \<times> 'w"
  en_session_end :: "ctx \<Rightarrow> 'w \<Rightarrow> unit result \<times> 'w"
  en_request :: "'w request_hook_fn"
  en_response :: "'w response_hook_fn"
  en_tools :: "json list \<Rightarrow> 'w \<Rightarrow> unit result \<times> 'w"
    \<comment> \<open>\<open>register_tools\<close> (T3, envelope), \<open>validate_tools\<close> (T11), \<open>scan_tool_manifest\<close> (T6)\<close>
  en_dry_audit :: "ctx \<Rightarrow> mcp_request \<Rightarrow> exn \<Rightarrow> 'w \<Rightarrow> unit result \<times> 'w"   \<comment> \<open>\<open>_append\<close> (T12)\<close>
  en_filter :: "string list \<Rightarrow> ctx \<Rightarrow> string list"   \<comment> \<open>\<open>filter_tools_list\<close> (T2)\<close>
  en_mint :: "string \<Rightarrow> string"   \<comment> \<open>\<open>signer.mint\<close> (T7) with its random bytes\<close>

record 'w guard =
  gd_engines :: "'w engine list"
  gd_dry_run :: bool
  gd_allow_stateless :: bool

record 'w gstate =
  gs_world :: 'w
  gs_context :: "ctx option"       \<comment> \<open>\<open>_ctx_var\<close>\<close>
  gs_inflight :: "string option"   \<comment> \<open>\<open>_inflight_method\<close>\<close>

definition has_kind :: "engine_kind list \<Rightarrow> 'w engine \<Rightarrow> bool" where
  "has_kind ks e = (en_kind e \<in> set ks)"

definition new_guard :: "(string, string) dict \<Rightarrow> 'w engine list \<Rightarrow> bool \<Rightarrow> bool \<Rightarrow> 'w guard result" where
  "new_guard env es dry stateless_ok =
     (if stateless_ok \<and> \<not> list_ex (has_kind [EnvelopeE]) es
      then Inl (PyExc ValueError ''allow_stateless=True requires an EnvelopeEngine'')
      else if stateless_ok \<and> \<not> list_ex (has_kind [SessionE]) es
      then Inl (PyExc ValueError ''allow_stateless=True requires a SessionEngine'')
      else if dry \<and> dget env ''ARMOR_ALLOW_DRY_RUN'' \<noteq> Some ''1''
      then Inl (PyExc RuntimeError ''dry_run=True is refused'')
      else Inr \<lparr>gd_engines = es, gd_dry_run = dry, gd_allow_stateless = stateless_ok\<rparr>)"

definition mint_session_id :: "string \<Rightarrow> 'w guard \<Rightarrow> string \<Rightarrow> string" where
  "mint_session_id uuid gd tr = (case find (has_kind [SessionE]) (gd_engines gd) of
     Some e \<Rightarrow> en_mint e tr | None \<Rightarrow> uuid)"

section \<open>Construction from a configuration\<close>

text \<open>The kinds \<open>_from_armor_config\<close> appends, in its order.\<close>

definition config_kinds :: "armor_config \<Rightarrow> engine_kind list" where
  "config_kinds cfg =
     (let on = (\<lambda>b k. if b then [k] else []);
          envelope = (case ac_t7 cfg of None \<Rightarrow> False | Some c \<Rightarrow> c7_enforce_request_envelope c)
      in on (ac_t12 cfg \<noteq> None) AuditE @ on (ac_t1 cfg \<noteq> None) AuthE @ on (ac_t7 cfg \<noteq> None) SessionE
       @ on (ac_t8 cfg \<noteq> None) NetworkE @ on (ac_t11 cfg \<noteq> None) SupplyChainE
       @ on (ac_t2 cfg \<noteq> None) AuthzE @ on envelope EnvelopeE @ on (ac_t3 cfg \<noteq> None) ValidationE
       @ on (ac_t4 cfg \<noteq> None) BoundaryE @ on (ac_t10 cfg \<noteq> None) ResourceE
       @ on (ac_t6 cfg \<noteq> None) IntegrityE @ on (ac_t5 cfg \<noteq> None) PIIE @ on (ac_t9 cfg \<noteq> None) TrustE)"

text \<open>\<open>build\<close> stands for the engines' constructors, each with its part of the configuration.\<close>

fun build_engines :: "(engine_kind \<Rightarrow> 'w engine result) \<Rightarrow> engine_kind list \<Rightarrow> 'w engine list result" where
  "build_engines build [] = Inr []"
| "build_engines build (k # ks) = bindR (build k) (\<lambda>e. bindR (build_engines build ks) (\<lambda>es. Inr (e # es)))"

definition guard_from_config :: "(string, string) dict \<Rightarrow> (armor_config \<Rightarrow> engine_kind \<Rightarrow> 'w engine result)
    \<Rightarrow> armor_config \<Rightarrow> 'w guard result" where
  "guard_from_config env build cfg =
     bindR (build_engines (build cfg) (config_kinds cfg)) (\<lambda>es.
       new_guard env es (ac_dry_run cfg)
         (case ac_t7 cfg of None \<Rightarrow> False | Some c \<Rightarrow> c7_allow_stateless_requests c))"

definition default_kinds :: "engine_kind list" where
  "default_kinds = [AuditE, AuthE, SessionE, NetworkE, AuthzE, ValidationE, BoundaryE, ResourceE,
     IntegrityE, PIIE, TrustE]"

section \<open>Life cycle\<close>

fun run_all :: "('w engine \<Rightarrow> 'w \<Rightarrow> unit result \<times> 'w) \<Rightarrow> 'w engine list \<Rightarrow> 'w \<Rightarrow> unit result \<times> 'w" where
  "run_all f [] w = (Inr (), w)"
| "run_all f (e # es) w = (case f e w of
     (Inl x, w') \<Rightarrow> (Inl x, w') | (Inr _, w') \<Rightarrow> run_all f es w')"

definition register_tool_schemas :: "'w guard \<Rightarrow> json list \<Rightarrow> 'w \<Rightarrow> unit result \<times> 'w" where
  "register_tool_schemas gd tools = run_all (\<lambda>e. en_tools e tools)
     (filter (has_kind [ValidationE, EnvelopeE, SupplyChainE, IntegrityE]) (gd_engines gd))"

definition guard_startup :: "'w guard \<Rightarrow> 'w \<Rightarrow> unit result \<times> 'w" where
  "guard_startup gd = run_all en_startup (gd_engines gd)"

definition guard_shutdown :: "'w guard \<Rightarrow> 'w \<Rightarrow> unit result \<times> 'w" where
  "guard_shutdown gd = run_all en_shutdown (gd_engines gd)"

fun open_chain :: "'w engine list \<Rightarrow> ctx \<Rightarrow> 'w gstate \<Rightarrow> ctx result \<times> 'w gstate" where
  "open_chain [] c g = (Inr c, g)"
| "open_chain (e # es) c g = (case en_session_start e c (gs_world g) of
     (Inl x, w) \<Rightarrow> (Inl x, g\<lparr>gs_world := w\<rparr>)
   | (Inr c', w) \<Rightarrow> open_chain es c' (g\<lparr>gs_world := w, gs_context := Some c'\<rparr>))"

definition open_session :: "'w guard \<Rightarrow> ctx \<Rightarrow> 'w gstate \<Rightarrow> ctx result \<times> 'w gstate" where
  "open_session gd = open_chain (gd_engines gd)"

text \<open>Every engine's \<open>on_session_end\<close> runs; the first failure is kept.\<close>

fun close_chain :: "'w engine list \<Rightarrow> ctx \<Rightarrow> exn option \<Rightarrow> 'w \<Rightarrow> unit result \<times> 'w" where
  "close_chain [] c first w = (case first of None \<Rightarrow> Inr () | Some x \<Rightarrow> Inl x, w)"
| "close_chain (e # es) c first w = (case en_session_end e c w of
     (Inl x, w') \<Rightarrow> close_chain es c (case first of None \<Rightarrow> Some x | Some y \<Rightarrow> Some y) w'
   | (Inr _, w') \<Rightarrow> close_chain es c first w')"

definition close_session :: "'w guard \<Rightarrow> ctx \<Rightarrow> 'w \<Rightarrow> unit result \<times> 'w" where
  "close_session gd c = close_chain (gd_engines gd) c None"

section \<open>The request chain\<close>

definition suppressed :: "exn \<Rightarrow> bool" where
  "suppressed x = (is_cosai x \<and> \<not> is_auth_exc x)"

definition audit_dry_run :: "'w engine list \<Rightarrow> ctx \<Rightarrow> mcp_request \<Rightarrow> exn \<Rightarrow> 'w \<Rightarrow> 'w" where
  "audit_dry_run es c req x w = (case find (has_kind [AuditE]) es of
     None \<Rightarrow> w | Some e \<Rightarrow> snd (en_dry_audit e c req x w))"

fun request_chain :: "bool \<Rightarrow> 'w engine list \<Rightarrow> 'w engine list \<Rightarrow> ctx \<Rightarrow> mcp_request \<Rightarrow> 'w gstate
    \<Rightarrow> ctx result \<times> 'w gstate" where
  "request_chain dry all [] c req g = (Inr c, g)"
| "request_chain dry all (e # es) c req g = (case en_request e c req (gs_world g) of
     (Inr c', w) \<Rightarrow> request_chain dry all es c' req (g\<lparr>gs_world := w, gs_context := Some c'\<rparr>)
   | (Inl x, w) \<Rightarrow>
       if dry \<and> suppressed x
       then request_chain dry all es c req (g\<lparr>gs_world := audit_dry_run all c req x w, gs_context := Some c\<rparr>)
       else (Inl x, g\<lparr>gs_world := w\<rparr>))"

definition run_request :: "'w guard \<Rightarrow> ctx \<Rightarrow> mcp_request \<Rightarrow> 'w gstate \<Rightarrow> ctx result \<times> 'w gstate" where
  "run_request gd c req g = request_chain (gd_dry_run gd) (gd_engines gd) (gd_engines gd) c req
     (g\<lparr>gs_inflight := Some (rq_method req)\<rparr>)"

section \<open>The response chain\<close>

fun response_chain :: "bool \<Rightarrow> 'w engine list \<Rightarrow> bool \<Rightarrow> ctx \<Rightarrow> mcp_response \<Rightarrow> 'w gstate
    \<Rightarrow> (ctx \<times> bool) result \<times> 'w gstate" where
  "response_chain dry [] violated c resp g = (Inr (c, violated), g)"
| "response_chain dry (e # es) violated c resp g = (case en_response e c resp (gs_world g) of
     (Inr c', w) \<Rightarrow> response_chain dry es violated c' resp (g\<lparr>gs_world := w, gs_context := Some c'\<rparr>)
   | (Inl x, w) \<Rightarrow>
       if dry \<and> suppressed x
       then response_chain dry es True c resp (g\<lparr>gs_world := w, gs_context := Some c\<rparr>)
       else (Inl x, g\<lparr>gs_world := w\<rparr>))"

text \<open>The tools a response may commit: the objects in the list under \<open>tools\<close>.\<close>

definition manifest_of :: "mcp_response \<Rightarrow> json list option" where
  "manifest_of resp = (case rs_result resp of
     None \<Rightarrow> None
   | Some d \<Rightarrow> (case get_or_null d ''tools'' of JArr ts \<Rightarrow> Some (filter is_obj ts) | _ \<Rightarrow> None))"

definition commit_tool_schemas :: "'w guard \<Rightarrow> mcp_response \<Rightarrow> 'w gstate \<Rightarrow> unit result \<times> 'w gstate" where
  "commit_tool_schemas gd resp g =
     (if gs_inflight g \<noteq> Some ''tools/list'' then (Inr (), g)
      else case manifest_of resp of
        None \<Rightarrow> (Inr (), g)
      | Some ts \<Rightarrow> (case run_all (\<lambda>e. en_tools e ts)
            (filter (has_kind [ValidationE, EnvelopeE]) (gd_engines gd)) (gs_world g) of
          (r, w) \<Rightarrow> (r, g\<lparr>gs_world := w\<rparr>)))"

definition run_response_chain :: "'w guard \<Rightarrow> ctx \<Rightarrow> mcp_response \<Rightarrow> 'w gstate \<Rightarrow> ctx result \<times> 'w gstate" where
  "run_response_chain gd c resp g =
     (case response_chain (gd_dry_run gd) (rev (gd_engines gd)) False c resp g of
        (Inl x, g1) \<Rightarrow> (Inl x, g1)
      | (Inr (c', violated), g1) \<Rightarrow>
          if violated then (Inr c', g1)
          else (case commit_tool_schemas gd resp g1 of
             (Inl x, g2) \<Rightarrow> (Inl x, g2) | (Inr _, g2) \<Rightarrow> (Inr c', g2)))"

definition run_response :: "'w guard \<Rightarrow> ctx \<Rightarrow> mcp_response \<Rightarrow> 'w gstate \<Rightarrow> ctx result \<times> 'w gstate" where
  "run_response gd c resp g = (case run_response_chain gd c resp g of
     (r, g1) \<Rightarrow> (r, g1\<lparr>gs_inflight := None\<rparr>))"

definition guard_filter_tools :: "'w guard \<Rightarrow> string list \<Rightarrow> ctx \<Rightarrow> string list" where
  "guard_filter_tools gd names c = (case find (has_kind [AuthzE]) (gd_engines gd) of
     Some e \<Rightarrow> en_filter e names c | None \<Rightarrow> names)"

section \<open>The per-tool decorator\<close>

definition threat_kinds :: "(string, engine_kind) dict" where
  "threat_kinds = [(''T1'', AuthE), (''T2'', AuthzE), (''T3'', ValidationE), (''T4'', BoundaryE), (''T5'', PIIE),
     (''T6'', IntegrityE), (''T7'', SessionE), (''T8'', NetworkE), (''T9'', TrustE), (''T10'', ResourceE),
     (''T11'', SupplyChainE), (''T12'', AuditE)]"

definition selected :: "string list \<Rightarrow> 'w engine \<Rightarrow> bool" where
  "selected threats e = (\<exists>t \<in> set threats. dget threat_kinds t = Some (en_kind e))"

text \<open>The engines \<open>protect\<close> applies; \<open>pii\<close> builds the T5 engine of another profile.\<close>

definition protect_engines :: "(string \<Rightarrow> 'w engine) \<Rightarrow> 'w guard \<Rightarrow> string list option \<Rightarrow> string option \<Rightarrow> bool
    \<Rightarrow> 'w engine list result" where
  "protect_engines pii gd threats profile allow_unauthenticated =
     bindR (case threats of
         None \<Rightarrow> Inr (gd_engines gd)
       | Some ts \<Rightarrow>
           if \<not> set ts \<subseteq> fst ` set threat_kinds then Inl (PyExc ValueError ''Unknown threat codes'')
           else Inr ((if allow_unauthenticated then []
                      else filter (\<lambda>e. has_kind [AuthE, AuthzE] e \<and> \<not> selected ts e) (gd_engines gd))
                     @ filter (selected ts) (gd_engines gd)))
       (\<lambda>active. Inr (case profile of None \<Rightarrow> active
          | Some p \<Rightarrow> map (\<lambda>e. if has_kind [PIIE] e then pii p else e) active))"

text \<open>The synthesized request: the active HTTP context's, or a fresh stdio session's.\<close>

definition protect_request :: "time \<Rightarrow> string \<Rightarrow> 'w guard \<Rightarrow> ctx option \<Rightarrow> string \<Rightarrow> json \<Rightarrow> ctx \<times> mcp_request" where
  "protect_request now uuid gd asgi_ctx fname args =
     (let c = (case asgi_ctx of Some c \<Rightarrow> c
                | None \<Rightarrow> new_context now (mint_session_id uuid gd ''stdio'') ''stdio'')
      in (c, \<lparr>rq_method = ''tools/call'', rq_params = [(''name'', JStr fname), (''arguments'', args)],
              rq_session_id = session_id c, rq_headers = [], rq_query = [], rq_transport = transport c,
              rq_header_pairs = []\<rparr>))"

text \<open>
  One decorated call: the arguments are already a plain-data view (or their rejection), the
  tool returns a value together with \<open>MCPResponse.from_text(str(value))\<close>.
\<close>

definition protect_call :: "'w engine list \<Rightarrow> string option \<Rightarrow> ctx \<Rightarrow> mcp_request
    \<Rightarrow> ('w \<Rightarrow> ('v \<times> mcp_response) result \<times> 'w) \<Rightarrow> 'w gstate \<Rightarrow> 'v result \<times> 'w gstate" where
  "protect_call active required c req tool g =
     (case request_chain False active active c req g of
        (Inl x, g1) \<Rightarrow> (Inl x, g1)
      | (Inr c1, g1) \<Rightarrow>
          if (case required of None \<Rightarrow> False | Some s \<Rightarrow> s \<notin> set (scopes c1))
          then (Inl (Cosai AuthorizationError ''required scope''), g1)
          else (case tool (gs_world g1) of
             (Inl x, w) \<Rightarrow> (Inl x, g1\<lparr>gs_world := w\<rparr>)
           | (Inr (v, resp), w) \<Rightarrow>
               (case response_chain False (rev active) False c1 resp (g1\<lparr>gs_world := w\<rparr>) of
                  (Inl x, g2) \<Rightarrow> (Inl x, g2) | (Inr _, g2) \<Rightarrow> (Inr v, g2))))"

section \<open>Chains of engines that keep the frame\<close>

lemma request_chain_Cons_Inr:
  assumes "request_chain dry all (e # es) c req g = (Inr c', g')"
  obtains c1 w1 g1 where "en_request e c req (gs_world g) = (Inr c1, w1)"
      and "request_chain dry all es c1 req g1 = (Inr c', g')"
    | x w1 g1 where "dry" and "suppressed x" and "en_request e c req (gs_world g) = (Inl x, w1)"
      and "request_chain dry all es c req g1 = (Inr c', g')"
  using assms by (cases "en_request e c req (gs_world g)") (auto split: sum.splits if_splits)

definition engine_let_pass :: "bool \<Rightarrow> 'w engine \<Rightarrow> ctx \<Rightarrow> mcp_request \<Rightarrow> bool" where
  "engine_let_pass dry e c req \<longleftrightarrow> (\<exists>c1 w1 r w2. same_session c c1 \<and> en_request e c1 req w1 = (r, w2)
     \<and> ((\<exists>c2. r = Inr c2) \<or> (dry \<and> (\<exists>x. r = Inl x \<and> suppressed x))))"

lemma engine_let_pass_from: "engine_let_pass dry e c1 req \<Longrightarrow> same_session c c1 \<Longrightarrow> engine_let_pass dry e c req"
  unfolding engine_let_pass_def using same_session_trans [of c c1] by (elim exE conjE) (intro exI conjI; fast)

locale guarded =
  fixes es :: "'w engine list"
  assumes hooks: "e \<in> set es \<Longrightarrow> request_hook (en_request e)"
begin

lemma part_frame:
  assumes "set fs \<subseteq> set es" and "request_chain dry all fs c req g = (Inr c', g')"
  shows "same_session c c'"
  using assms
proof (induction fs arbitrary: c g)
  case (Cons e fs)
  from Cons.prems(2) show ?case
  proof (cases rule: request_chain_Cons_Inr)
    case (1 c1 w1 g1)
    have "same_session c c1" using request_hook.frame [OF hooks 1(1)] Cons.prems(1) by simp
    moreover have "same_session c1 c'" using Cons.IH [OF _ 1(2)] Cons.prems(1) by simp
    ultimately show ?thesis by (rule same_session_trans)
  next
    case (2 x w1 g1)
    show ?thesis using Cons.IH [OF _ 2(4)] Cons.prems(1) by simp
  qed
qed simp

lemma part_passed:
  assumes "set fs \<subseteq> set es" and "request_chain dry all fs c req g = (Inr c', g')" and "e \<in> set fs"
  shows "engine_let_pass dry e c req"
  using assms
proof (induction fs arbitrary: c g)
  case (Cons f fs)
  from Cons.prems(2) show ?case
  proof (cases rule: request_chain_Cons_Inr)
    case (1 c1 w1 g1)
    have s: "same_session c c1" using request_hook.frame [OF hooks 1(1)] Cons.prems(1) by simp
    show ?thesis
    proof (cases "e = f")
      case True
      then show ?thesis using 1(1) unfolding engine_let_pass_def by blast
    next
      case False
      then have "engine_let_pass dry e c1 req" using Cons.IH [OF _ 1(2)] Cons.prems(1,3) by simp
      then show ?thesis using s by (rule engine_let_pass_from)
    qed
  next
    case (2 x w1 g1)
    show ?thesis
    proof (cases "e = f")
      case True
      then show ?thesis using 2(1-3) unfolding engine_let_pass_def by blast
    next
      case False
      then show ?thesis using Cons.IH [OF _ 2(4)] Cons.prems(1,3) by simp
    qed
  qed
qed simp

lemmas chain_frame = part_frame [OF order.refl]
lemmas chain_passed = part_passed [OF order.refl]

end

sublocale guarded \<subseteq> chain: request_hook "\<lambda>c req g. request_chain dry all es c req g" for dry all
  by unfold_locales (rule chain_frame)

section \<open>The chain against its modes\<close>

lemma enforcing_accepts_dry_accepts:
  "request_chain False all es c req g = (Inr c', g') \<Longrightarrow> request_chain True all2 es c req g = (Inr c', g')"
  by (induction es arbitrary: c g) (auto split: prod.splits sum.splits)

lemma request_chain_error:
  "request_chain dry all es c req g = (Inl x, g') \<Longrightarrow> dry \<Longrightarrow> \<not> suppressed x"
proof (induction es arbitrary: c g)
  case (Cons e es)
  obtain r w where h: "en_request e c req (gs_world g) = (r, w)" by (cases "en_request e c req (gs_world g)")
  show ?case using Cons.IH Cons.prems h by (cases r) (auto split: if_splits)
qed simp

lemma auth_error_ends_chain:
  assumes "\<And>c1 w1. \<exists>w2. en_request e c1 req w1 = (Inl x, w2)" and "is_auth_exc x"
  shows "request_chain dry all (pre @ e # post) c req g \<noteq> (Inr c', g')"
proof (induction pre arbitrary: c g)
  case Nil
  from assms(1) obtain w2 where "en_request e c req (gs_world g) = (Inl x, w2)" by blast
  with assms(2) show ?case by (simp add: suppressed_def)
next
  case (Cons f pre)
  show ?case
  proof
    assume "request_chain dry all ((f # pre) @ e # post) c req g = (Inr c', g')"
    then have "request_chain dry all (f # pre @ e # post) c req g = (Inr c', g')" by simp
    then show False using Cons by (cases rule: request_chain_Cons_Inr) auto
  qed
qed

lemma response_chain_inflight:
  "response_chain dry es v c resp g = (r, g') \<Longrightarrow> gs_inflight g' = gs_inflight g"
proof (induction es arbitrary: c g v)
  case (Cons e es)
  obtain r1 w where h: "en_response e c resp (gs_world g) = (r1, w)" by (cases "en_response e c resp (gs_world g)")
  show ?case using Cons.IH Cons.prems h by (cases r1) (force split: if_splits)+
qed simp

lemma run_response_inflight: "gs_inflight (snd (run_response gd c resp g)) = None"
  by (simp add: run_response_def split: prod.splits)

text \<open>Without \<open>tools/list\<close> in flight a response changes the engines only through their hooks.\<close>

lemma run_response_no_commit:
  assumes "gs_inflight g \<noteq> Some ''tools/list''"
  shows "gs_world (snd (run_response gd c resp g))
     = gs_world (snd (response_chain (gd_dry_run gd) (rev (gd_engines gd)) False c resp g))"
proof -
  obtain r g1 where h: "response_chain (gd_dry_run gd) (rev (gd_engines gd)) False c resp g = (r, g1)"
    by (cases "response_chain (gd_dry_run gd) (rev (gd_engines gd)) False c resp g")
  have "gs_inflight g1 \<noteq> Some ''tools/list''" using response_chain_inflight [OF h] assms by simp
  with h show ?thesis
    by (cases r) (auto simp: run_response_def run_response_chain_def commit_tool_schemas_def)
qed

lemma build_engines_ok:
  "build_engines build ks = Inr es \<Longrightarrow> (\<And>k e. build k = Inr e \<Longrightarrow> en_kind e = k) \<Longrightarrow> map en_kind es = ks"
  by (induction ks arbitrary: es) (auto simp: bindR_eq_Inr)

lemma subseq_on: "subseq (if b then [k] else []) [k]"
  by simp

lemma config_kinds_subseq: "subseq (config_kinds cfg) [AuditE, AuthE, SessionE, NetworkE, SupplyChainE, AuthzE,
    EnvelopeE, ValidationE, BoundaryE, ResourceE, IntegrityE, PIIE, TrustE]"
proof -
  have "subseq (config_kinds cfg) ([AuditE] @ [AuthE] @ [SessionE] @ [NetworkE] @ [SupplyChainE] @ [AuthzE]
      @ [EnvelopeE] @ [ValidationE] @ [BoundaryE] @ [ResourceE] @ [IntegrityE] @ [PIIE] @ [TrustE])"
    unfolding config_kinds_def Let_def by (intro list_emb_append_mono subseq_on)
  then show ?thesis by simp
qed

lemma close_chain_world:
  "snd (close_chain es c first w) = fold (\<lambda>e w. snd (en_session_end e c w)) es w"
  by (induction es c first w rule: close_chain.induct) (auto split: prod.splits sum.splits)

lemma close_chain_first:
  "fst (close_chain es c (Some x) w) = Inl x"
  by (induction es arbitrary: w) (auto split: prod.splits sum.splits)

lemma close_chain_ok:
  "fst (close_chain es c None w) = Inr () \<longleftrightarrow>
     (\<forall>pre e post. es = pre @ e # post \<longrightarrow>
        is_ok (fst (en_session_end e c (fold (\<lambda>e w. snd (en_session_end e c w)) pre w))))"
proof (induction es arbitrary: w)
  case (Cons e es)
  obtain r w1 where h: "en_session_end e c w = (r, w1)" by (cases "en_session_end e c w")
  show ?case
  proof (cases r)
    case (Inl x)
    with h show ?thesis
      by (auto simp: close_chain_first intro!: exI [of _ "[]"])
  next
    case (Inr u)
    have "(\<forall>pre f post. e # es = pre @ f # post \<longrightarrow>
          is_ok (fst (en_session_end f c (fold (\<lambda>e w. snd (en_session_end e c w)) pre w)))) \<longleftrightarrow>
        (\<forall>pre f post. es = pre @ f # post \<longrightarrow>
          is_ok (fst (en_session_end f c (fold (\<lambda>e w. snd (en_session_end e c w)) pre w1))))" (is "?l = ?r")
    proof
      assume l: ?l
      show ?r
      proof (intro allI impI)
        fix pre f post
        assume "es = pre @ f # post"
        then show "is_ok (fst (en_session_end f c (fold (\<lambda>e w. snd (en_session_end e c w)) pre w1)))"
          using l [rule_format, of "e # pre" f post] h by simp
      qed
    next
      assume ?r
      then show ?l using h Inr by (auto simp: Cons_eq_append_conv)
    qed
    with Cons.IH [of w1] h Inr show ?thesis by simp
  qed
qed simp

section \<open>Properties of the guard\<close>

text \<open>
  A demonstration chain: an audit engine that lets everything pass, an engine that refuses
  \<open>tools/call\<close> (T3) and one that refuses everything without a user (T1).  The state counts the
  hooks that ran.
\<close>

definition demo_chain_engine :: "engine_kind \<Rightarrow> (ctx \<Rightarrow> mcp_request \<Rightarrow> exn option) \<Rightarrow> nat engine" where
  "demo_chain_engine k refuse = \<lparr>en_kind = k, en_startup = (\<lambda>w. (Inr (), w)), en_shutdown = (\<lambda>w. (Inr (), w)),
     en_session_start = pass_session, en_session_end = (\<lambda>c w. (Inr (), w + 1)),
     en_request = (\<lambda>c req w. (case refuse c req of None \<Rightarrow> Inr c | Some x \<Rightarrow> Inl x, w + 1)),
     en_response = pass_response, en_tools = (\<lambda>ts w. (Inr (), w + length ts)),
     en_dry_audit = (\<lambda>c req x w. (Inr (), w)), en_filter = (\<lambda>names c. names), en_mint = (\<lambda>tr. tr)\<rparr>"

definition demo_guard :: "bool \<Rightarrow> nat guard" where
  "demo_guard dry = \<lparr>gd_engines =
     [demo_chain_engine AuditE (\<lambda>c req. None),
      demo_chain_engine AuthE (\<lambda>c req. if user_id c = JNull then Some (Cosai AuthenticationError ''no user'') else None),
      demo_chain_engine ValidationE (\<lambda>c req. if rq_method req = ''tools/call'' then Some (Cosai ValidationError ''args'') else None)],
     gd_dry_run = dry, gd_allow_stateless = False\<rparr>"

definition demo_ctx :: ctx where
  "demo_ctx = with_user (new_context 0 ''sid'' ''http'') (JStr ''ann'') JNull"

definition demo_req :: "string \<Rightarrow> mcp_request" where
  "demo_req m = \<lparr>rq_method = m, rq_params = [], rq_session_id = ''sid'', rq_headers = [], rq_query = [],
     rq_transport = ''http'', rq_header_pairs = []\<rparr>"

definition demo_resp :: mcp_response where
  "demo_resp = \<lparr>rs_result = None, rs_error = None, rs_raw_body = ''ok'', rs_scan_body = ''ok''\<rparr>"

definition demo_gstate :: "nat gstate" where
  "demo_gstate = \<lparr>gs_world = 0, gs_context = None, gs_inflight = None\<rparr>"

lemma demo_chain_engine_frame: "request_hook (en_request (demo_chain_engine k f))"
  by unfold_locales (auto simp: demo_chain_engine_def split: option.splits)

lemma demo_guard_frame: "e \<in> set (gd_engines (demo_guard dry)) \<Longrightarrow> request_hook (en_request e)"
  by (auto simp: demo_guard_def demo_chain_engine_frame)

text \<open>
  C4: A request the guard lets through was let through by every engine of the chain, each on a
  context of the same session: the engine's own hook returned, or, in the tuning mode only, it
  raised an exception that is neither an authentication nor an authorization error.  In the
  enforcing mode no engine is skipped.
\<close>

theorem accepted_request_passed_every_engine:
  assumes "\<forall>e \<in> set (gd_engines gd). request_hook (en_request e)"
    and "run_request gd c req g = (Inr c', g')"
  shows "same_session c c' \<and> (\<forall>e \<in> set (gd_engines gd). engine_let_pass (gd_dry_run gd) e c req)"
proof -
  have G: "guarded (gd_engines gd)" by (rule guarded.intro) (use assms(1) in blast)
  show ?thesis
    using guarded.chain_frame [OF G] guarded.chain_passed [OF G] assms(2) unfolding run_request_def by blast
qed

theorem accepted_request_passed_every_engine_witness:
  "engine_let_pass False (gd_engines (demo_guard False) ! 1) demo_ctx (demo_req ''ping'')
   \<and> engine_let_pass True (gd_engines (demo_guard True) ! 2) demo_ctx (demo_req ''tools/call'')"
proof -
  have 1: "run_request (demo_guard False) demo_ctx (demo_req ''ping'') demo_gstate
      = (Inr demo_ctx, \<lparr>gs_world = 3, gs_context = Some demo_ctx, gs_inflight = Some ''ping''\<rparr>)"
    by (simp add: run_request_def demo_guard_def demo_chain_engine_def demo_req_def demo_gstate_def demo_ctx_def with_user_def)
  have 2: "run_request (demo_guard True) demo_ctx (demo_req ''tools/call'') demo_gstate
      = (Inr demo_ctx, \<lparr>gs_world = 3, gs_context = Some demo_ctx, gs_inflight = Some ''tools/call''\<rparr>)"
    by (simp add: run_request_def demo_guard_def demo_chain_engine_def demo_req_def demo_gstate_def demo_ctx_def
        with_user_def suppressed_def audit_dry_run_def has_kind_def)
  have "\<forall>e \<in> set (gd_engines (demo_guard d)). request_hook (en_request e)" for d
    using demo_guard_frame by blast
  from accepted_request_passed_every_engine [OF this 1] accepted_request_passed_every_engine [OF this 2]
  show ?thesis by (simp add: demo_guard_def)
qed

text \<open>
  C35: The tuning mode changes nothing for a request that violates nothing, and never waives
  authentication: whatever the enforcing chain accepts the tuning chain accepts with the same
  context and state, and an exception of the authentication or authorization classes (and
  every exception that is not the library's own) ends the request in both modes.
\<close>

theorem dry_run_only_waives_violations:
  "(fst (request_chain False all es c req g) = Inr c' \<longrightarrow>
      request_chain True all2 es c req g = request_chain False all es c req g)
   \<and> (request_chain True all es c req g = (Inl x, g') \<longrightarrow> \<not> is_cosai x \<or> is_auth_exc x)
   \<and> (\<forall>x pre e post. es = pre @ e # post \<and> (\<forall>c1 w1. \<exists>w2. en_request e c1 req w1 = (Inl x, w2)) \<and> is_auth_exc x
       \<longrightarrow> \<not> is_ok (fst (request_chain True all es c req g)))"
proof (intro conjI impI allI)
  assume "fst (request_chain False all es c req g) = Inr c'"
  then obtain g1 where "request_chain False all es c req g = (Inr c', g1)" by (metis prod.collapse)
  with enforcing_accepts_dry_accepts [OF this]
  show "request_chain True all2 es c req g = request_chain False all es c req g" by simp
next
  assume "request_chain True all es c req g = (Inl x, g')"
  from request_chain_error [OF this] show "\<not> is_cosai x \<or> is_auth_exc x" by (auto simp: suppressed_def)
next
  fix x pre e post
  assume a: "es = pre @ e # post \<and> (\<forall>c1 w1. \<exists>w2. en_request e c1 req w1 = (Inl x, w2)) \<and> is_auth_exc x"
  then have "request_chain True all es c req g \<noteq> (Inr c', g')" for c' g'
    using auth_error_ends_chain [of e req x True all pre post c g c' g'] by blast
  then show "\<not> is_ok (fst (request_chain True all es c req g))"
    by (metis is_ok_iff prod.collapse)
qed

theorem dry_run_only_waives_violations_witness:
  "\<not> is_ok (fst (request_chain True [] (gd_engines (demo_guard True)) (demo_ctx\<lparr>user_id := JNull\<rparr>) (demo_req ''ping'') demo_gstate))"
proof -
  have "request_chain True [] (gd_engines (demo_guard True)) (demo_ctx\<lparr>user_id := JNull\<rparr>) (demo_req ''ping'') demo_gstate
      = (Inl (Cosai AuthenticationError ''no user''), \<lparr>gs_world = 2, gs_context = Some (demo_ctx\<lparr>user_id := JNull\<rparr>), gs_inflight = None\<rparr>)"
    by (simp add: demo_guard_def demo_chain_engine_def demo_gstate_def suppressed_def)
  with dry_run_only_waives_violations [THEN conjunct2, THEN conjunct1, rule_format, OF this]
  show ?thesis by simp
qed

text \<open>
  C18: Tool schemas are learned only from an accepted \<open>tools/list\<close> answer.  After a response
  the in-flight method is forgotten, whatever happened; the stores of T3 and of the envelope
  are offered a manifest only when the request in flight was \<open>tools/list\<close>, every engine
  accepted the response without a waived violation, and the result carries a list of tools;
  and a response that follows without a request of its own never commits.
\<close>

theorem schemas_committed_only_after_acceptance:
  assumes "run_response gd c resp g = (r, g')"
    and "response_chain (gd_dry_run gd) (rev (gd_engines gd)) False c resp g = (r1, g1)"
  shows "gs_inflight g' = None
    \<and> gs_world g' = (case (gs_inflight g = Some ''tools/list'', r1, manifest_of resp) of
         (True, Inr (_, False), Some ts) \<Rightarrow>
           snd (run_all (\<lambda>e. en_tools e ts) (filter (has_kind [ValidationE, EnvelopeE]) (gd_engines gd)) (gs_world g1))
       | _ \<Rightarrow> gs_world g1)
    \<and> (\<forall>c2 resp2. gs_world (snd (run_response gd c2 resp2 g'))
         = gs_world (snd (response_chain (gd_dry_run gd) (rev (gd_engines gd)) False c2 resp2 g')))"
proof -
  have i: "gs_inflight g' = None" using run_response_inflight [of gd c resp g] assms(1) by simp
  have "gs_inflight g1 = gs_inflight g" by (rule response_chain_inflight [OF assms(2)])
  then have "gs_world g' = (case (gs_inflight g = Some ''tools/list'', r1, manifest_of resp) of
         (True, Inr (_, False), Some ts) \<Rightarrow>
           snd (run_all (\<lambda>e. en_tools e ts) (filter (has_kind [ValidationE, EnvelopeE]) (gd_engines gd)) (gs_world g1))
       | _ \<Rightarrow> gs_world g1)"
    using assms(1) [symmetric]
    by (auto simp: run_response_def run_response_chain_def assms(2) commit_tool_schemas_def
        split: sum.splits prod.splits option.splits if_splits bool.splits)
  with i run_response_no_commit [of g' gd] show ?thesis by simp
qed

theorem schemas_committed_only_after_acceptance_witness:
  "gs_world (snd (run_response (demo_guard False) demo_ctx
      \<lparr>rs_result = Some [(''tools'', JArr [JObj [], JNull, JObj []])], rs_error = None, rs_raw_body = [], rs_scan_body = []\<rparr>
      (demo_gstate\<lparr>gs_inflight := Some ''tools/list''\<rparr>))) = 2"
proof -
  let ?resp = "\<lparr>rs_result = Some [(''tools'', JArr [JObj [], JNull, JObj []])], rs_error = None, rs_raw_body = [],
    rs_scan_body = []\<rparr>"
  let ?g = "demo_gstate\<lparr>gs_inflight := Some ''tools/list''\<rparr>"
  obtain r g' where run: "run_response (demo_guard False) demo_ctx ?resp ?g = (r, g')"
    by (cases "run_response (demo_guard False) demo_ctx ?resp ?g")
  have ch: "response_chain (gd_dry_run (demo_guard False)) (rev (gd_engines (demo_guard False))) False demo_ctx ?resp ?g
      = (Inr (demo_ctx, False), ?g\<lparr>gs_context := Some demo_ctx\<rparr>)"
    by (simp add: demo_guard_def demo_chain_engine_def pass_response_def demo_gstate_def)
  show ?thesis
    using schemas_committed_only_after_acceptance [OF run ch] run
    by (simp add: manifest_of_def get_or_null_def demo_guard_def demo_chain_engine_def has_kind_def demo_gstate_def)
qed

lemma protect_keeps_auth:
  assumes "protect_engines pii gd threats profile False = Inr active"
    and "e \<in> set (gd_engines gd)" and "en_kind e \<in> {AuthE, AuthzE}"
  shows "e \<in> set active"
proof -
  have k: "has_kind [AuthE, AuthzE] e" "\<not> has_kind [PIIE] e" using assms(3) by (auto simp: has_kind_def)
  from assms(1) obtain es where sel: "(case threats of None \<Rightarrow> es = gd_engines gd
      | Some ts \<Rightarrow> es = filter (\<lambda>e. has_kind [AuthE, AuthzE] e \<and> \<not> selected ts e) (gd_engines gd)
          @ filter (selected ts) (gd_engines gd))"
    and active: "active = (case profile of None \<Rightarrow> es
      | Some p \<Rightarrow> map (\<lambda>e. if has_kind [PIIE] e then pii p else e) es)"
    by (cases threats) (simp_all add: protect_engines_def bindR_eq_Inr split: if_splits)
  have es: "e \<in> set es" using sel assms(2) k(1) by (cases threats) auto
  show ?thesis
  proof (cases profile)
    case (Some p)
    have "(\<lambda>e. if has_kind [PIIE] e then pii p else e) e \<in> set (map (\<lambda>e. if has_kind [PIIE] e then pii p else e) es)"
      unfolding set_map using es by (rule imageI)
    with active Some k(2) show ?thesis by simp
  qed (use es active in simp)
qed

lemma protect_call_stages:
  assumes "protect_call active required c req tool g = (Inr v, g')"
  obtains c1 g1 where "request_chain False active active c req g = (Inr c1, g1)"
    and "\<forall>s. required = Some s \<longrightarrow> s \<in> set (scopes c1)"
  using assms
  by (cases "request_chain False active active c req g")
     (auto simp: protect_call_def split: sum.splits if_splits option.splits)



text \<open>
  The guard built from a loaded configuration has exactly the engines of the enabled
  threats in the fixed order (audit outermost, authentication before authorization before
  anything that inspects content), and its constructor refuses nothing but an unacknowledged
  tuning mode: a configuration that allows stateless requests always brings the session and
  envelope engines that mode needs.
\<close>

theorem configured_guard_is_complete:
  assumes "load_config lib yaml = Inr cfg"
    and "\<forall>k e. build cfg k = Inr e \<longrightarrow> en_kind e = k" and "build_engines (build cfg) (config_kinds cfg) = Inr es"
  shows "map en_kind es = config_kinds cfg
    \<and> subseq (config_kinds cfg) [AuditE, AuthE, SessionE, NetworkE, SupplyChainE, AuthzE, EnvelopeE, ValidationE,
        BoundaryE, ResourceE, IntegrityE, PIIE, TrustE]
    \<and> guard_from_config env build cfg
      = (if ac_dry_run cfg \<and> dget env ''ARMOR_ALLOW_DRY_RUN'' \<noteq> Some ''1''
         then Inl (PyExc RuntimeError ''dry_run=True is refused'')
         else Inr \<lparr>gd_engines = es, gd_dry_run = ac_dry_run cfg,
           gd_allow_stateless = (case ac_t7 cfg of None \<Rightarrow> False | Some c \<Rightarrow> c7_allow_stateless_requests c)\<rparr>)"
proof -
  have kinds: "map en_kind es = config_kinds cfg"
    using build_engines_ok [OF assms(3)] assms(2) by blast
  have ex: "list_ex (has_kind [k]) es \<longleftrightarrow> k \<in> set (config_kinds cfg)" for k
    unfolding kinds [symmetric] by (auto simp: list_ex_iff has_kind_def)
  obtain raw where "yaml = JObj raw" using assms(1) by (cases yaml) (auto simp: load_config_def)
  with assms(1) obtain threats where "check_stateless threats (ac_t7 cfg) = Inr ()"
    by (metis load_config_parts)
  then have st: "c7_enforce_request_envelope c" if "ac_t7 cfg = Some c" "c7_allow_stateless_requests c" for c
    using that by (simp add: check_stateless_def require_ok)
  have need: "EnvelopeE \<in> set (config_kinds cfg) \<and> SessionE \<in> set (config_kinds cfg)"
    if "case ac_t7 cfg of None \<Rightarrow> False | Some c \<Rightarrow> c7_allow_stateless_requests c"
    using that st by (auto simp: config_kinds_def Let_def split: option.splits)
  have "guard_from_config env build cfg = new_guard env es (ac_dry_run cfg)
      (case ac_t7 cfg of None \<Rightarrow> False | Some c \<Rightarrow> c7_allow_stateless_requests c)"
    by (simp add: guard_from_config_def assms(3))
  also have "\<dots> = (if ac_dry_run cfg \<and> dget env ''ARMOR_ALLOW_DRY_RUN'' \<noteq> Some ''1''
         then Inl (PyExc RuntimeError ''dry_run=True is refused'')
         else Inr \<lparr>gd_engines = es, gd_dry_run = ac_dry_run cfg,
           gd_allow_stateless = (case ac_t7 cfg of None \<Rightarrow> False | Some c \<Rightarrow> c7_allow_stateless_requests c)\<rparr>)"
    unfolding new_guard_def ex using need by auto
  finally have built: "guard_from_config env build cfg = (if ac_dry_run cfg \<and> dget env ''ARMOR_ALLOW_DRY_RUN'' \<noteq> Some ''1''
         then Inl (PyExc RuntimeError ''dry_run=True is refused'')
         else Inr \<lparr>gd_engines = es, gd_dry_run = ac_dry_run cfg,
           gd_allow_stateless = (case ac_t7 cfg of None \<Rightarrow> False | Some c \<Rightarrow> c7_allow_stateless_requests c)\<rparr>)" .
  show ?thesis using kinds built config_kinds_subseq by blast
qed

theorem configured_guard_is_complete_witness:
  "is_ok (guard_from_config [] (\<lambda>cfg k. Inr (demo_chain_engine k (\<lambda>c req. None))) demo_config)"
proof -
  have b: "build_engines (\<lambda>k. Inr (demo_chain_engine k (\<lambda>c req. None))) ks = Inr (map (\<lambda>k. demo_chain_engine k (\<lambda>c req. None)) ks)" for ks
    by (induction ks) simp_all
  have d: "ac_dry_run demo_config = False"
    by (rule load_config_parts [OF demo_config_loads]) (simp add: get_bool_def get_or_def)
  show ?thesis
    using configured_guard_is_complete [where build = "\<lambda>cfg k. Inr (demo_chain_engine k (\<lambda>c req. None))" and env = "[]",
      OF demo_config_loads _ b]
    by (simp add: d demo_chain_engine_def)
qed

end
