(* ===== verification/Address.thy ===== *)
theory Address
  imports Types "HOL-Library.Word"
begin

text \<open>
  What \<open>mcp_armor/engines/network.py\<close> uses of the standard library's \<open>ipaddress\<close> and of
  \<open>int(text, base)\<close>: the parsers of IPv4 and IPv6 literals, membership in a network, mapped
  addresses, and the integer literals of a base with sign, prefix and underscores.
\<close>

section \<open>Integers of a base\<close>

definition digit_of :: "char \<Rightarrow> int option" where
  "digit_of c = (if is_digit c then Some (int (ord_of c) - 48)
     else if 97 \<le> ord_of c \<and> ord_of c \<le> 122 then Some (int (ord_of c) - 87)
     else if 65 \<le> ord_of c \<and> ord_of c \<le> 90 then Some (int (ord_of c) - 55) else None)"

text \<open>Digits with single underscores between them; \<open>ok\<close> says an underscore or the end may follow.\<close>

fun parse_digits :: "int \<Rightarrow> string \<Rightarrow> int \<Rightarrow> bool \<Rightarrow> int option" where
  "parse_digits base [] acc ok = (if ok then Some acc else None)"
| "parse_digits base (c # cs) acc ok =
     (if c = CHR ''_'' then (if ok then parse_digits base cs acc False else None)
      else case digit_of c of
        None \<Rightarrow> None
      | Some d \<Rightarrow> if d < base then parse_digits base cs (acc * base + d) True else None)"

text \<open>The optional prefix of base 16 and base 8; an underscore may follow it.\<close>

definition parse_unsigned :: "int \<Rightarrow> string \<Rightarrow> int option" where
  "parse_unsigned base s = (case s of
     z # x # r \<Rightarrow>
       if z = CHR ''0'' \<and> ((base = 16 \<and> x \<in> {CHR ''x'', CHR ''X''}) \<or> (base = 8 \<and> x \<in> {CHR ''o'', CHR ''O''}))
       then (if r = [] then None else parse_digits base r 0 True)
       else parse_digits base s 0 False
   | _ \<Rightarrow> parse_digits base s 0 False)"

definition int_of_text :: "int \<Rightarrow> string \<Rightarrow> int option" where
  "int_of_text base s = (case strip s of
     c # r \<Rightarrow> if c = CHR ''-'' then map_option uminus (parse_unsigned base r)
              else if c = CHR ''+'' then parse_unsigned base r
              else parse_unsigned base (c # r)
   | [] \<Rightarrow> None)"

section \<open>Addresses\<close>

datatype ip = V4 "32 word" | V6 "128 word"

definition parse_octet :: "string \<Rightarrow> int option" where
  "parse_octet s =
     (if s = [] \<or> \<not> list_all is_digit s \<or> length s > 3 \<or> (s \<noteq> ''0'' \<and> hd s = CHR ''0'') then None
      else case parse_digits 10 s 0 False of
        None \<Rightarrow> None | Some n \<Rightarrow> if n > 255 then None else Some n)"

fun octets_value :: "int list \<Rightarrow> int" where
  "octets_value ns = foldl (\<lambda>a n. a * 256 + n) 0 ns"

definition parse_ipv4 :: "string \<Rightarrow> int option" where
  "parse_ipv4 s = (let parts = split_on (CHR ''.'') s in
     if length parts \<noteq> 4 \<or> list_ex (\<lambda>p. parse_octet p = None) parts then None
     else Some (octets_value (map (\<lambda>p. the (parse_octet p)) parts)))"

definition parse_hextet :: "string \<Rightarrow> int option" where
  "parse_hextet s =
     (if s = [] \<or> length s > 4 \<or> \<not> list_all (\<lambda>c. case digit_of c of None \<Rightarrow> False | Some d \<Rightarrow> d < 16) s then None
      else parse_digits 16 s 0 False)"

text \<open>The last part may be a dotted quad; it is replaced by its two hextets (already values here).\<close>

definition ipv6_parts :: "string \<Rightarrow> (string \<times> int option) list option" where
  "ipv6_parts s =
     (let parts = split_on (CHR '':'') s in
      if length parts < 3 then None
      else if CHR ''.'' \<in> set (last parts) then
        (case parse_ipv4 (last parts) of
           None \<Rightarrow> None
         | Some v \<Rightarrow> Some (map (\<lambda>p. (p, parse_hextet p)) (butlast parts)
             @ [(''v'', Some (v div 65536 mod 65536)), (''v'', Some (v mod 65536))]))
      else Some (map (\<lambda>p. (p, parse_hextet p)) parts))"

fun hextets_value :: "int option list \<Rightarrow> int option" where
  "hextets_value [] = Some 0"
| "hextets_value (h # hs) = (case (h, hextets_value hs) of
     (Some n, Some m) \<Rightarrow> Some (n * 65536 ^ length hs + m) | _ \<Rightarrow> None)"

text \<open>Positions of the empty parts strictly inside the list.\<close>

definition inner_empty :: "(string \<times> int option) list \<Rightarrow> nat list" where
  "inner_empty ps = filter (\<lambda>i. fst (ps ! i) = []) [1..<length ps - 1]"

definition ipv6_value :: "(string \<times> int option) list \<Rightarrow> int option" where
  "ipv6_value ps =
     (if length ps > 9 then None
      else case inner_empty ps of
        [] \<Rightarrow> if length ps \<noteq> 8 \<or> fst (hd ps) = [] \<or> fst (last ps) = [] then None
              else hextets_value (map snd ps)
      | [k] \<Rightarrow>
          let hi0 = k; lo0 = length ps - k - 1;
              hi = (if fst (hd ps) = [] then hi0 - 1 else hi0);
              lo = (if fst (last ps) = [] then lo0 - 1 else lo0)
          in if (fst (hd ps) = [] \<and> hi \<noteq> 0) \<or> (fst (last ps) = [] \<and> lo \<noteq> 0) \<or> hi + lo > 7 then None
             else (case (hextets_value (map snd (take hi ps)), hextets_value (map snd (drop (length ps - lo) ps))) of
                (Some h, Some l) \<Rightarrow> Some (h * 65536 ^ (8 - hi) + l) | _ \<Rightarrow> None)
      | _ \<Rightarrow> None)"

definition parse_ipv6 :: "string \<Rightarrow> int option" where
  "parse_ipv6 s =
     (if CHR ''/'' \<in> set s then None
      else let addr = takeWhile (\<lambda>c. c \<noteq> CHR ''%'') s; rest = dropWhile (\<lambda>c. c \<noteq> CHR ''%'') s
      in if rest \<noteq> [] \<and> (tl rest = [] \<or> CHR ''%'' \<in> set (tl rest)) then None
         else case ipv6_parts addr of None \<Rightarrow> None | Some ps \<Rightarrow> ipv6_value ps)"

text \<open>\<open>ipaddress.ip_address(s)\<close>; \<open>None\<close> is its \<open>ValueError\<close>.\<close>

definition ip_address :: "string \<Rightarrow> ip option" where
  "ip_address s = (case parse_ipv4 s of
     Some n \<Rightarrow> Some (V4 (of_int n))
   | None \<Rightarrow> (case parse_ipv6 s of Some n \<Rightarrow> Some (V6 (of_int n)) | None \<Rightarrow> None))"

text \<open>An IPv4-mapped IPv6 address stands for its IPv4 address.\<close>

definition unmap :: "ip \<Rightarrow> ip" where
  "unmap a = (case a of
     V6 w \<Rightarrow> if drop_bit 32 w = 0xFFFF then V4 (ucast w) else V6 w
   | V4 w \<Rightarrow> V4 w)"

datatype network = Net4 "32 word" nat | Net6 "128 word" nat   \<comment> \<open>base address and prefix length\<close>

fun in_network :: "ip \<Rightarrow> network \<Rightarrow> bool" where
  "in_network (V4 w) (Net4 b n) = (drop_bit (32 - n) w = drop_bit (32 - n) b)"
| "in_network (V6 w) (Net6 b n) = (drop_bit (128 - n) w = drop_bit (128 - n) b)"
| "in_network _ _ = False"

fun unspecified :: "ip \<Rightarrow> bool" where
  "unspecified (V4 w) = (w = 0)"
| "unspecified (V6 w) = (w = 0)"

end
