(* ===== verification/Network.thy ===== *)
theory Network
  imports Address Engine
begin

text \<open>
  T8: the network engine (\<open>mcp_armor/engines/network.py\<close>): the check of the configured bind
  address, the blocked address ranges, the alternate numeric spellings of IPv4 addresses, and
  the scan of request arguments for URIs that reach a blocked host.  The host of a URL
  (\<open>urlsplit(...).hostname\<close>) and name resolution are the fields of \<open>net_lib\<close>.
\<close>

section \<open>Blocked ranges\<close>

definition blocked_networks :: "network list" where
  "blocked_networks =
     [Net4 0x0A000000 8, Net4 0xAC100000 12, Net4 0xC0A80000 16, Net4 0x7F000000 8, Net4 0xA9FE0000 16,
      Net6 0xFC000000000000000000000000000000 7, Net6 1 128, Net6 0xFE800000000000000000000000000000 10,
      Net6 0 128, Net4 0xA9FEA9FE 32]"

definition addr_is_blocked :: "ip \<Rightarrow> bool" where
  "addr_is_blocked a = list_ex (in_network (unmap a)) blocked_networks"

section \<open>Numeric spellings\<close>

definition numeric_part :: "string \<Rightarrow> int option" where
  "numeric_part p =
     (let low = lower p;
          v = (if starts_with ''0x'' low then (if length low = 2 then None else int_of_text 16 low)
               else if length p > 1 \<and> hd p = CHR ''0'' then int_of_text 8 p
               else int_of_text 10 p)
      in case v of None \<Rightarrow> None | Some n \<Rightarrow> if n < 0 then None else Some n)"

definition normalize_numeric_ipv4 :: "string \<Rightarrow> string option" where
  "normalize_numeric_ipv4 host =
     (let parts = split_on (CHR ''.'') host in
      if length parts > 4 \<or> list_ex (\<lambda>p. numeric_part p = None) parts then None
      else
        let vs = map (\<lambda>p. the (numeric_part p)) parts;
            last_bytes = 4 - (length vs - 1)
        in if list_ex (\<lambda>v. v > 0xFF) (butlast vs) then None
           else if last vs > 2 ^ (8 * last_bytes) - 1 then None
           else Some (join_with (CHR ''.'') (map show_int
             (butlast vs @ map (\<lambda>i. take_bit 8 (drop_bit (8 * i) (last vs))) (rev [0..<last_bytes])))))"

section \<open>Hosts\<close>

record net_lib =
  nl_urlhost :: "string \<Rightarrow> string option option"
    \<comment> \<open>\<open>urlsplit(u).hostname\<close>; \<open>None\<close> is a \<open>ValueError\<close>, \<open>Some None\<close> no host\<close>
  nl_resolve :: "string \<Rightarrow> string list option"
    \<comment> \<open>the addresses of \<open>getaddrinfo\<close>; \<open>None\<close> when it raises\<close>

record network_engine =
  ne_allow_public_bind :: bool
  ne_block_ssrf :: bool
  ne_bind_host :: "string option"
  ne_bind_port :: int

definition new_network_engine :: "bool \<Rightarrow> bool \<Rightarrow> string option \<Rightarrow> int \<Rightarrow> network_engine" where
  "new_network_engine public block host port = \<lparr>ne_allow_public_bind = public, ne_block_ssrf = block,
     ne_bind_host = host, ne_bind_port = port\<rparr>"

definition net_error :: "string \<Rightarrow> exn" where
  "net_error site = Cosai NetworkBindingError site"

definition strip_brackets :: "string \<Rightarrow> string" where
  "strip_brackets s = (if starts_with ''['' s \<and> ends_with '']'' s then tl (butlast s) else s)"

definition is_wildcard :: "string \<Rightarrow> bool" where
  "is_wildcard candidate = (case ip_address candidate of
     Some a \<Rightarrow> unspecified (unmap a)
   | None \<Rightarrow> candidate = ''0'' \<or> candidate = [])"

definition check_bind_address :: "network_engine \<Rightarrow> string \<Rightarrow> unit result" where
  "check_bind_address e host =
     (if ne_allow_public_bind e then Inr ()
      else require (\<not> is_wildcard (strip_brackets (strip host))) (net_error ''bind to all interfaces''))"

definition network_on_startup :: "network_engine \<Rightarrow> unit result" where
  "network_on_startup e = (case ne_bind_host e of None \<Rightarrow> Inr () | Some h \<Rightarrow> check_bind_address e h)"

definition literal_blocked :: "string \<Rightarrow> bool option" where
  "literal_blocked host = map_option addr_is_blocked (ip_address host)"

definition is_ssrf_target :: "net_lib \<Rightarrow> network_engine \<Rightarrow> string \<Rightarrow> bool" where
  "is_ssrf_target lib e host0 =
     (if \<not> ne_block_ssrf e then False
      else let host = strip_brackets (strip host0) in
        case literal_blocked host of
          Some b \<Rightarrow> b
        | None \<Rightarrow> (case (case normalize_numeric_ipv4 host of None \<Rightarrow> None | Some c \<Rightarrow> literal_blocked c) of
            Some b \<Rightarrow> b
          | None \<Rightarrow> (case nl_resolve lib host of
              None \<Rightarrow> True
            | Some addrs \<Rightarrow> list_ex (\<lambda>a. literal_blocked a = Some True) addrs)))"

section \<open>URIs in text\<close>

definition host_schemes :: "string list" where
  "host_schemes = [''http'', ''https'', ''ftp'', ''ftps'', ''ws'', ''wss'', ''gopher'', ''redis'', ''rediss'',
     ''mongodb'', ''mysql'', ''postgres'', ''postgresql'', ''ldap'', ''ldaps'', ''memcached'', ''amqp'', ''smb'',
     ''ssh'', ''sftp'', ''tftp'']"

definition denied_schemes :: "string list" where
  "denied_schemes = [''file'', ''dict'', ''jar'', ''netdoc'', ''expect'', ''data'', ''php'', ''phar'', ''glob'']"

definition scheme_char :: "char \<Rightarrow> bool" where
  "scheme_char c = (is_alpha c \<or> is_digit c \<or> c = CHR ''+'' \<or> c = CHR ''.'' \<or> c = CHR ''-'')"

text \<open>
  \<open>_URI_CANDIDATE_RE.finditer\<close>: at a word boundary before a letter, the longest run of scheme
  characters, a colon, and all non-space characters that follow (at least one).  A match is the
  scheme and the whole candidate; the search goes on behind it.
\<close>

function uri_candidates :: "bool \<Rightarrow> string \<Rightarrow> (string \<times> string) list" where
  "uri_candidates in_word [] = []"
| "uri_candidates in_word (c # cs) =
     (let scheme = takeWhile scheme_char (c # cs); rest = dropWhile scheme_char (c # cs);
          body = takeWhile (\<lambda>x. \<not> py_space x) (tl rest)
      in if \<not> in_word \<and> is_alpha c \<and> rest \<noteq> [] \<and> hd rest = CHR '':'' \<and> body \<noteq> []
         then (scheme, scheme @ CHR '':'' # body)
                # uri_candidates (re_word (last body)) (dropWhile (\<lambda>x. \<not> py_space x) (tl rest))
         else uri_candidates (re_word c) cs)"
  by pat_completeness auto
termination
proof (relation "measure (\<lambda>(w, s). length s)", goal_cases)
  case (2 in_word c cs scheme rest body)
  have "length (dropWhile (\<lambda>x. \<not> py_space x) (tl rest)) \<le> length (tl rest)" by (rule length_dropWhile_le)
  also have "\<dots> < length rest" using 2 by (cases rest) auto
  also have "\<dots> \<le> length (c # cs)" unfolding 2(2) by (rule length_dropWhile_le)
  finally show ?case by simp
qed simp_all

definition check_candidate :: "net_lib \<Rightarrow> network_engine \<Rightarrow> string \<times> string \<Rightarrow> unit result" where
  "check_candidate lib e m = (let scheme = lower (fst m) in
     if scheme \<in> set denied_schemes then Inl (net_error ''disallowed scheme (T8-002)'')
     else if scheme \<notin> set host_schemes then Inr ()
     else case nl_urlhost lib (snd m) of
       None \<Rightarrow> Inl (net_error ''unparseable URL (T8-002)'')
     | Some None \<Rightarrow> Inl (net_error ''no resolvable host (T8-002)'')
     | Some (Some host) \<Rightarrow>
         if host = [] then Inl (net_error ''no resolvable host (T8-002)'')
         else require (\<not> is_ssrf_target lib e host) (net_error ''SSRF target (T8-002)''))"

fun check_all :: "('a \<Rightarrow> unit result) \<Rightarrow> 'a list \<Rightarrow> unit result" where
  "check_all f [] = Inr ()"
| "check_all f (x # xs) = bindR (f x) (\<lambda>_. check_all f xs)"

definition scan_text :: "net_lib \<Rightarrow> network_engine \<Rightarrow> string \<Rightarrow> unit result" where
  "scan_text lib e s = check_all (check_candidate lib e) (uri_candidates False s)"

fun scan_ssrf :: "net_lib \<Rightarrow> network_engine \<Rightarrow> json \<Rightarrow> unit result"
  and scan_ssrf_list :: "net_lib \<Rightarrow> network_engine \<Rightarrow> json list \<Rightarrow> unit result"
  and scan_ssrf_items :: "net_lib \<Rightarrow> network_engine \<Rightarrow> (string \<times> json) list \<Rightarrow> unit result" where
  "scan_ssrf lib e (JStr s) = scan_text lib e s"
| "scan_ssrf lib e (JObj kvs) = scan_ssrf_items lib e kvs"
| "scan_ssrf lib e (JArr xs) = scan_ssrf_list lib e xs"
| "scan_ssrf lib e v = Inr ()"
| "scan_ssrf_list lib e [] = Inr ()"
| "scan_ssrf_list lib e (x # xs) = bindR (scan_ssrf lib e x) (\<lambda>_. scan_ssrf_list lib e xs)"
| "scan_ssrf_items lib e [] = Inr ()"
| "scan_ssrf_items lib e ((k, v) # kvs) =
     bindR (if is_structural_key k then Inr () else scan_text lib e k) (\<lambda>_.
     bindR (scan_ssrf lib e v) (\<lambda>_. scan_ssrf_items lib e kvs))"

definition scan_field :: "net_lib \<Rightarrow> network_engine \<Rightarrow> (string, json) dict \<Rightarrow> string \<Rightarrow> unit result" where
  "scan_field lib e fs k = (case dget fs k of None \<Rightarrow> Inr () | Some v \<Rightarrow> scan_ssrf lib e v)"

definition network_on_request :: "(string \<Rightarrow> loads_result) \<Rightarrow> net_lib \<Rightarrow> network_engine request_hook_fn" where
  "network_on_request loads lib c req e =
     ((if \<not> ne_block_ssrf e then Inr c
       else bindR (scannable_strings loads req) (\<lambda>fs.
         bindR (check_all (scan_field lib e fs) [''arguments'', ''decoded_arguments'', ''uri'']) (\<lambda>_. Inr c))), e)"

interpretation network_rq: request_hook "network_on_request loads lib" for loads lib
  by unfold_locales (auto simp: network_on_request_def bindR_eq_Inr split: if_splits)

end
