(* ===== verification/Numeric.thy ===== *)
theory Numeric
  imports Network
begin

text \<open>
  The alternate numeric spellings of an IPv4 address: printing in a base, the parser reads back
  what is printed, and every spelling of an address is judged as the address it denotes.
\<close>

section \<open>Printing in a base\<close>

function show_base :: "int \<Rightarrow> int \<Rightarrow> string" where
  "show_base b n = (if b < 2 \<or> n < b then [hex_char (nat n)] else show_base b (n div b) @ [hex_char (nat (n mod b))])"
  by pat_completeness auto
termination
  by (relation "measure (\<lambda>(b, n). nat n)") (auto simp: zdiv_mono2 int_div_less_self)

declare show_base.simps [simp del]

lemma digit_of_hex_char: "0 \<le> n \<Longrightarrow> n < 16 \<Longrightarrow> digit_of (hex_char (nat n)) = Some n"
  using ord_hex_char [of "nat n"] by (auto simp: digit_of_def is_digit_def)

lemma hex_char_not: "0 \<le> n \<Longrightarrow> n < 16 \<Longrightarrow> ord_of c > 102 \<or> ord_of c < 48 \<or> ord_of c = 95 \<Longrightarrow> hex_char (nat n) \<noteq> c"
proof -
  assume n: "0 \<le> n" "n < 16" and c: "ord_of c > 102 \<or> ord_of c < 48 \<or> ord_of c = 95"
  then have n16: "nat n < 16" by auto
  from ord_hex_char [OF n16] n16 c show "hex_char (nat n) \<noteq> c" by (auto split: if_splits)
qed

lemma parse_show_base:
  assumes "2 \<le> b" and "b \<le> 16" and "0 \<le> n"
  shows "parse_digits b (show_base b n @ r) 0 ok = parse_digits b r n True"
  using assms
proof (induction b n arbitrary: r rule: show_base.induct)
  case (1 b n)
  have us: "ord_of (CHR ''_'') = 95" by (simp add: ord_of_def)
  show ?case
  proof (cases "n < b")
    case True
    with 1 have "digit_of (hex_char (nat n)) = Some n" "hex_char (nat n) \<noteq> CHR ''_''"
      using digit_of_hex_char hex_char_not us by auto
    with True show ?thesis by (simp add: show_base.simps [of b n])
  next
    case False
    have m: "0 \<le> n mod b" "n mod b < b" using 1 by auto
    then have "n mod b < 16" using 1 by linarith
    with m have d: "digit_of (hex_char (nat (n mod b))) = Some (n mod b)" "hex_char (nat (n mod b)) \<noteq> CHR ''_''"
      using digit_of_hex_char [of "n mod b"] hex_char_not [of "n mod b"] us by auto
    have "parse_digits b (show_base b (n div b) @ hex_char (nat (n mod b)) # r) 0 ok
        = parse_digits b (hex_char (nat (n mod b)) # r) (n div b) True"
      using 1 False by (simp add: pos_imp_zdiv_nonneg_iff)
    also have "\<dots> = parse_digits b r n True" using d m by simp
    finally show ?thesis using False 1 by (simp add: show_base.simps [of b n])
  qed
qed

lemma show_base_not_Nil [simp]: "show_base b n \<noteq> []"
  by (subst show_base.simps) simp

lemma show_base_chars:
  assumes "2 \<le> b" and "b \<le> 16" and "0 \<le> n" and "c \<in> set (show_base b n)"
  shows "\<exists>d. 0 \<le> d \<and> d < b \<and> c = hex_char (nat d)"
  using assms
proof (induction b n rule: show_base.induct)
  case (1 b n)
  show ?case
  proof (cases "n < b")
    case False
    then have "c \<in> set (show_base b (n div b)) \<or> c = hex_char (nat (n mod b))"
      using 1 by (auto simp: show_base.simps [of b n])
    then show ?thesis
    proof
      assume "c \<in> set (show_base b (n div b))"
      then show ?thesis using 1 False by (simp add: pos_imp_zdiv_nonneg_iff)
    next
      assume "c = hex_char (nat (n mod b))"
      moreover have "0 \<le> n mod b" "n mod b < b" using 1 by auto
      ultimately show ?thesis by blast
    qed
  qed (use 1 in \<open>auto simp: show_base.simps [of b n]\<close>)
qed

lemma hd_show_base:
  assumes "2 \<le> b" and "b \<le> 16" and "0 < n"
  shows "\<exists>d. 0 < d \<and> d < b \<and> hd (show_base b n) = hex_char (nat d)"
  using assms
proof (induction b n rule: show_base.induct)
  case (1 b n)
  show ?case
  proof (cases "n < b")
    case False
    then have "0 < n div b" using 1 by (simp add: pos_imp_zdiv_pos_iff)
    with 1 False show ?thesis by (simp add: show_base.simps [of b n])
  qed (use 1 in \<open>auto simp: show_base.simps [of b n]\<close>)
qed

lemma show_base_10_short: "0 \<le> n \<Longrightarrow> n < 10 \<Longrightarrow> show_base 10 n = [hex_char (nat n)]"
  by (simp add: show_base.simps)

section \<open>Spellings\<close>

datatype radix = Dec | Oct | Hex

fun spell :: "radix \<times> int \<Rightarrow> string" where
  "spell (Dec, v) = show_base 10 v"
| "spell (Oct, v) = CHR ''0'' # show_base 8 v"
| "spell (Hex, v) = CHR ''0'' # CHR ''x'' # show_base 16 v"

definition hex_digit :: "char \<Rightarrow> bool" where
  "hex_digit c = (\<exists>d. 0 \<le> d \<and> d < 16 \<and> c = hex_char (nat d))"

lemma hex_digit_ord: "hex_digit c \<Longrightarrow> (48 \<le> ord_of c \<and> ord_of c \<le> 57) \<or> (97 \<le> ord_of c \<and> ord_of c \<le> 102)"
proof -
  assume "hex_digit c"
  then obtain d where d: "0 \<le> d" "d < 16" "c = hex_char (nat d)" by (auto simp: hex_digit_def)
  then have d16: "nat d < 16" by auto
  from ord_hex_char [OF d16] d16 d(3) show ?thesis by (auto split: if_splits)
qed

lemma hex_digit_zero: "hex_digit (CHR ''0'')"
proof -
  have "CHR ''0'' = hex_char (nat 0)" by code_simp
  then show ?thesis unfolding hex_digit_def by (intro exI [of _ 0]) simp
qed

lemma spell_chars:
  assumes "0 \<le> v" and "c \<in> set (spell (r, v))"
  shows "hex_digit c \<or> c = CHR ''x''"
proof -
  have "hex_digit c" if "c \<in> set (show_base b v)" "2 \<le> b" "b \<le> 16" for b
    using show_base_chars [OF that(2,3) assms(1) that(1)] that(3) unfolding hex_digit_def by force
  with hex_digit_zero assms(2) show ?thesis by (cases r) auto
qed

lemma some_ords: "ord_of (CHR ''.'') = 46" "ord_of (CHR ''x'') = 120" "ord_of (CHR ''-'') = 45" "ord_of (CHR ''+'') = 43"
    "ord_of (CHR '':'') = 58" "ord_of (CHR ''%'') = 37" "ord_of (CHR ''/'') = 47" "ord_of (CHR ''['') = 91"
    "ord_of (CHR ''_'') = 95" "ord_of (CHR ''o'') = 111" "ord_of (CHR ''O'') = 79" "ord_of (CHR ''X'') = 88"
    "ord_of (CHR ''0'') = 48"
  by (simp_all add: ord_of_def)

lemma spell_ord:
  assumes "0 \<le> v" and "c \<in> set (spell (r, v))"
  shows "(48 \<le> ord_of c \<and> ord_of c \<le> 57) \<or> (97 \<le> ord_of c \<and> ord_of c \<le> 102) \<or> ord_of c = 120"
  using spell_chars [OF assms] hex_digit_ord [of c] some_ords(2) by blast

lemma spell_not_Nil [simp]: "spell rv \<noteq> []"
  by (cases rv rule: spell.cases) simp_all

lemma lower_id: "\<forall>c \<in> set s. ord_of c < 65 \<or> (97 \<le> ord_of c \<and> ord_of c < 128) \<Longrightarrow> lower s = s"
  unfolding lower_def by (rule map_idI) (auto simp: lower_char_def Let_def)

lemma spell_no_space: "0 \<le> v \<Longrightarrow> c \<in> set (spell (r, v)) \<Longrightarrow> \<not> py_space c"
  using spell_ord [of v c r] by (auto simp: py_space_def Let_def)

lemma strip_spell:
  assumes "0 \<le> v"
  shows "strip (spell (r, v)) = spell (r, v)"
proof -
  have "\<not> py_space (hd (spell (r, v)))" by (rule spell_no_space [OF assms hd_in_set]) simp
  moreover have "\<not> py_space (last (spell (r, v)))" by (rule spell_no_space [OF assms last_in_set]) simp
  ultimately show ?thesis by (intro strip_id) simp_all
qed

lemma int_of_text_spell:
  assumes "0 \<le> v" and "parse_unsigned b (spell (r, v)) = Some v"
  shows "int_of_text b (spell (r, v)) = Some v"
proof -
  obtain c cs where s: "spell (r, v) = c # cs" by (cases "spell (r, v)") auto
  then have "c \<noteq> CHR ''-''" "c \<noteq> CHR ''+''" using spell_ord [OF assms(1), of c r] some_ords by auto
  with s assms strip_spell [OF assms(1), of r] show ?thesis by (simp add: int_of_text_def)
qed

lemma numeric_part_spell:
  assumes "0 \<le> v"
  shows "numeric_part (spell (r, v)) = Some v"
proof -
  have low: "lower (spell (r, v)) = spell (r, v)" using spell_ord [OF assms] by (intro lower_id) fastforce
  show ?thesis
  proof (cases r)
    case Dec
    have "CHR ''x'' \<notin> set (show_base 10 v)"
    proof
      assume "CHR ''x'' \<in> set (show_base 10 v)"
      then obtain d where d: "0 \<le> d" "d < 10" "CHR ''x'' = hex_char (nat d)"
        using show_base_chars [of 10 v "CHR ''x''"] assms by auto
      then have "nat d < 16" "nat d < 10" by auto
      then have "ord_of (CHR ''x'') = 48 + nat d" using ord_hex_char [of "nat d"] d(3) by simp
      with \<open>nat d < 10\<close> some_ords(2) show False by simp
    qed
    then have nox: "\<not> starts_with ''0x'' (show_base 10 v)"
      using set_take_subset [of 2 "show_base 10 v"] by (auto simp: starts_with_def numeral_2_eq_2)
    have no0: "\<not> (length (show_base 10 v) > 1 \<and> hd (show_base 10 v) = CHR ''0'')"
    proof (cases "v < 10")
      case False
      then obtain d where d: "0 < d" "d < 10" "hd (show_base 10 v) = hex_char (nat d)"
        using hd_show_base [of 10 v] by auto
      then have "nat d < 16" by auto
      then have "ord_of (hex_char (nat d)) \<noteq> 48" using ord_hex_char [of "nat d"] d by auto
      then show ?thesis using d some_ords(13) by auto
    qed (use assms in \<open>simp add: show_base_10_short\<close>)
    have "parse_unsigned 10 (show_base 10 v) = Some v"
      using parse_show_base [of 10 v "[]" False] assms by (auto simp: parse_unsigned_def split: list.split)
    then have "int_of_text 10 (spell (Dec, v)) = Some v" by (intro int_of_text_spell) (simp_all add: assms)
    with nox no0 low Dec assms show ?thesis by (auto simp: numeric_part_def Let_def)
  next
    case Oct
    obtain d ds where s: "show_base 8 v = d # ds" by (cases "show_base 8 v") auto
    then obtain k where k: "0 \<le> k" "k < 8" "d = hex_char (nat k)" using show_base_chars [of 8 v d] assms by auto
    then have "nat k < 16" "nat k < 10" by auto
    then have "ord_of d < 58" using ord_hex_char [of "nat k"] k by simp
    then have d: "d \<noteq> CHR ''x''" "d \<noteq> CHR ''o''" "d \<noteq> CHR ''O''" using some_ords by auto
    have "parse_unsigned 8 (spell (Oct, v)) = parse_digits 8 (show_base 8 v @ []) 0 True"
      using s d by (simp add: parse_unsigned_def digit_of_def is_digit_def some_ords)
    also have "\<dots> = Some v" using parse_show_base [of 8 v "[]" True] assms by simp
    finally have "int_of_text 8 (spell (Oct, v)) = Some v" by (intro int_of_text_spell) (simp_all add: assms)
    with s d low Oct assms show ?thesis by (simp add: numeric_part_def starts_with_def)
  next
    case Hex
    have "parse_unsigned 16 (spell (Hex, v)) = Some v"
      using parse_show_base [of 16 v "[]" True] assms by (simp add: parse_unsigned_def)
    then have "int_of_text 16 (spell (Hex, v)) = Some v" by (intro int_of_text_spell) (simp_all add: assms)
    with low Hex assms show ?thesis by (simp add: numeric_part_def starts_with_def)
  qed
qed

section \<open>The address a spelling denotes\<close>

definition address_of :: "int list \<Rightarrow> int" where
  "address_of vs = foldl (\<lambda>a n. a * 256 + n) 0 (butlast vs) * 256 ^ (5 - length vs) + last vs"

lemma spell_no_dot: "0 \<le> v \<Longrightarrow> CHR ''.'' \<notin> set (spell (r, v))" "0 \<le> v \<Longrightarrow> CHR '':'' \<notin> set (spell (r, v))"
    "0 \<le> v \<Longrightarrow> CHR ''%'' \<notin> set (spell (r, v))"
  using spell_ord some_ords by fastforce+

lemma parse_octet_spell:
  assumes "0 \<le> v" and "parse_octet (spell (r, v)) = Some n"
  shows "n = v"
proof (cases r)
  case Dec
  with assms parse_show_base [of 10 v "[]" False] show ?thesis by (auto simp: parse_octet_def split: if_splits)
next
  case Oct
  have "length (show_base 8 v) \<noteq> 0" by simp
  with assms Oct show ?thesis by (auto simp: parse_octet_def split: if_splits)
next
  case Hex
  with assms show ?thesis by (auto simp: parse_octet_def is_digit_def some_ords)
qed

lemma show_nat_base: "show_nat n = show_base 10 (int n)"
proof (induction n rule: show_nat.induct)
  case (1 n)
  show ?case
  proof (cases "n < 10")
    case False
    moreover have "nat (int n mod 10) = n mod 10" "int n div 10 = int (n div 10)"
      by (simp_all add: nat_mod_distrib zdiv_int)
    ultimately show ?thesis
      using 1 show_nat.simps [of n] show_base.simps [of 10 "int n"] by (simp add: digit_char_def hex_char_def)
  qed (simp add: show_nat.simps [of n] show_base.simps [of 10 "int n"] digit_char_def hex_char_def)
qed

lemma length_show_base: "0 \<le> n \<Longrightarrow> n < 10 ^ Suc k \<Longrightarrow> length (show_base 10 n) \<le> Suc k"
proof (induction k arbitrary: n)
  case (Suc k)
  show ?case
  proof (cases "n < 10")
    case False
    have "n div 10 < 10 ^ Suc k" "0 \<le> n div 10" using Suc.prems by auto
    with Suc.IH False show ?thesis by (simp add: show_base.simps [of 10 n])
  qed (simp add: show_base.simps [of 10 n])
qed (simp add: show_base_10_short)

lemma parse_octet_show:
  assumes "0 \<le> n" and "n \<le> 255"
  shows "parse_octet (show_int n) = Some n"
proof -
  have s: "show_int n = show_base 10 n" using assms by (simp add: show_int_def show_nat_base)
  have "list_all is_digit (show_base 10 n)"
  proof (unfold list_all_iff, rule ballI)
    fix c assume "c \<in> set (show_base 10 n)"
    then obtain d where d: "0 \<le> d" "d < 10" "c = hex_char (nat d)" using show_base_chars [of 10 n c] assms by auto
    then have "nat d < 16" "nat d < 10" by auto
    with ord_hex_char [of "nat d"] d(3) show "is_digit c" by (simp add: is_digit_def)
  qed
  moreover have "length (show_base 10 n) \<le> 3" using length_show_base [of n 2] assms by simp
  moreover have "show_base 10 n = ''0'' \<or> hd (show_base 10 n) \<noteq> CHR ''0''"
  proof (cases "n = 0")
    case True
    have "hex_char 0 = CHR ''0''" by code_simp
    with True show ?thesis by (simp add: show_base_10_short)
  next
    case False
    then obtain d where d: "0 < d" "d < 10" "hd (show_base 10 n) = hex_char (nat d)"
      using hd_show_base [of 10 n] assms by auto
    then have "nat d < 16" "nat d < 10" by auto
    then have "ord_of (hex_char (nat d)) \<noteq> 48" using ord_hex_char [of "nat d"] d by auto
    with d(3) some_ords(13) show ?thesis by auto
  qed
  ultimately show ?thesis
    using parse_show_base [of 10 n "[]" False] assms by (auto simp: parse_octet_def s)
qed

lemma show_int_no_dot: "0 \<le> n \<Longrightarrow> CHR ''.'' \<notin> set (show_int n)"
  using show_nat_digits [of "CHR ''.''" "nat n"] by (auto simp: show_int_def is_digit_def some_ords)

lemma base_256: "256 * y + r0 = x \<Longrightarrow> 256 * z + r1 = y \<Longrightarrow> 256 * w + r2 = z \<Longrightarrow>
    (((a * 256 + w) * 256 + r2) * 256 + r1) * 256 + r0 = a * 4294967296 + (x :: int)"
  by auto

lemma bytes_value:
  fixes x :: int
  assumes "0 \<le> x" and "x < 256 ^ k" and "k \<in> {1, 2, 3, 4}"
  shows "foldl (\<lambda>a n. a * 256 + n) a (map (\<lambda>i. take_bit 8 (drop_bit (8 * i) x)) (rev [0..<k])) = a * 256 ^ k + x"
proof -
  have tb: "take_bit 8 (drop_bit (8 * i) x) = (x div 256 ^ i) mod 256" for i
    by (simp add: take_bit_eq_mod drop_bit_eq_div power_mult)
  have e: "x div 65536 = x div 256 div 256" "x div 16777216 = x div 256 div 256 div 256"
    by (simp_all add: zdiv_zmult2_eq [symmetric])
  have m: "256 * (t div 256) + t mod 256 = t" for t :: int by simp
  have l: "[0..<1] = [0]" "[0..<2] = [0, 1]" "[0..<3] = [0, 1, 2]" "[0..<4] = [0, 1, 2, 3 :: nat]"
    by (simp_all add: upt_rec)
  consider "k = 1" | "k = 2" | "k = 3" | "k = 4" using assms(3) by auto
  then show ?thesis
  proof cases
    case 1
    then show ?thesis unfolding tb using assms(1,2) by simp
  next
    case 2
    have "x div 256 mod 256 = x div 256" using assms(1,2) 2 by simp
    then show ?thesis unfolding tb using 2 by (simp add: l algebra_simps)
  next
    case 3
    have "x div 65536 mod 256 = x div 65536" using assms(1,2) 3 by simp
    then show ?thesis unfolding tb using 3 m [of x] m [of "x div 256"] by (simp add: l algebra_simps e)
  next
    case 4
    define y z w where "y = x div 256" and "z = y div 256" and "w = z div 256"
    have "x div 16777216 mod 256 = x div 16777216" using assms(1,2) 4 by simp
    then have w: "w mod 256 = w" by (simp add: e w_def z_def y_def)
    have "256 * y + x mod 256 = x" "256 * z + y mod 256 = y" "256 * w + z mod 256 = z"
      unfolding y_def z_def w_def by (rule m)+
    then have "(((a * 256 + w) * 256 + z mod 256) * 256 + y mod 256) * 256 + x mod 256 = a * 4294967296 + x"
      by (rule base_256)
    then show ?thesis unfolding tb using 4 w by (simp only: l, simp add: e flip: y_def z_def w_def)
  qed
qed

lemma bytes_range: "n \<in> set (map (\<lambda>i. take_bit 8 (drop_bit (8 * i) (x :: int))) is) \<Longrightarrow> 0 \<le> n \<and> n \<le> 255"
proof -
  assume "n \<in> set (map (\<lambda>i. take_bit 8 (drop_bit (8 * i) x)) is)"
  then obtain i where n: "n = take_bit 8 (drop_bit (8 * i) x)" by auto
  have "0 \<le> n" "n < 2 ^ 8" unfolding n using take_bit_int_less_exp [of 8 "drop_bit (8 * i) x"] by simp_all
  then show ?thesis by simp
qed

lemma normalize_spelled:
  assumes "rvs \<noteq> []" and "length rvs \<le> 4" and "\<forall>rv \<in> set rvs. 0 \<le> snd rv"
    and "\<forall>v \<in> set (butlast (map snd rvs)). v \<le> 255" and "last (map snd rvs) < 256 ^ (5 - length rvs)"
  obtains octets where "normalize_numeric_ipv4 (join_with (CHR ''.'') (map spell rvs))
        = Some (join_with (CHR ''.'') (map show_int octets))"
    and "length octets = 4" and "\<forall>n \<in> set octets. 0 \<le> n \<and> n \<le> 255"
    and "octets_value octets = address_of (map snd rvs)"
proof -
  let ?vs = "map snd rvs" and ?k = "4 - (length rvs - 1)"
  have k: "?k = 5 - length rvs" "?k \<in> {1, 2, 3, 4}" using assms(1,2) by (cases rvs; auto)+
  have sp: "split_on (CHR ''.'') (join_with (CHR ''.'') (map spell rvs)) = map spell rvs"
    using assms(1,3) spell_no_dot(1) by (intro split_on_join_with) fastforce+
  have part: "numeric_part (spell rv) = Some (snd rv)" if "rv \<in> set rvs" for rv
    using numeric_part_spell [of "snd rv" "fst rv"] assms(3) that by simp
  then have none: "\<not> list_ex (\<lambda>p. numeric_part p = None) (map spell rvs)" by (auto simp: list_ex_iff)
  have vals: "map (\<lambda>p. the (numeric_part p)) (map spell rvs) = ?vs"
    using part by (simp add: comp_def)
  have last0: "0 \<le> last ?vs" using assms(1,3) by (simp add: last_map)
  have p256: "(2 :: int) ^ (8 * n) = 256 ^ n" for n by (simp add: power_mult)
  define octets where "octets = butlast ?vs @ map (\<lambda>i. take_bit 8 (drop_bit (8 * i) (last ?vs))) (rev [0..<?k])"
  have "\<not> list_ex (\<lambda>v. v > 0xFF) (butlast ?vs)" using assms(4) by (auto simp: list_ex_iff)
  moreover have "\<not> last ?vs > 2 ^ (8 * ?k) - 1" using assms(5) k(1) by (simp add: p256)
  ultimately have "normalize_numeric_ipv4 (join_with (CHR ''.'') (map spell rvs))
      = Some (join_with (CHR ''.'') (map show_int octets))"
    unfolding normalize_numeric_ipv4_def Let_def sp vals using none assms(2) by (simp add: octets_def)
  moreover have "length octets = 4" using assms(1,2) by (cases rvs) (auto simp: octets_def)
  moreover have "\<forall>n \<in> set octets. 0 \<le> n \<and> n \<le> 255"
  proof
    fix n assume "n \<in> set octets"
    then consider "n \<in> set (butlast ?vs)"
      | "n \<in> set (map (\<lambda>i. take_bit 8 (drop_bit (8 * i) (last ?vs))) (rev [0..<?k]))"
      unfolding octets_def by auto
    then show "0 \<le> n \<and> n \<le> 255"
    proof cases
      case 1
      then show ?thesis using assms(3,4) in_set_butlastD [OF 1] by auto
    qed (rule bytes_range)
  qed
  moreover have "octets_value octets = address_of ?vs"
    using bytes_value [OF last0 _ k(2)] assms(5) k(1) by (simp add: octets_def address_of_def)
  ultimately show ?thesis by (rule that)
qed

lemma parse_ipv4_octets:
  assumes "length octets = 4" and "\<forall>n \<in> set octets. 0 \<le> n \<and> n \<le> 255"
  shows "parse_ipv4 (join_with (CHR ''.'') (map show_int octets)) = Some (octets_value octets)"
proof -
  have sp: "split_on (CHR ''.'') (join_with (CHR ''.'') (map show_int octets)) = map show_int octets"
    using assms show_int_no_dot by (intro split_on_join_with) auto
  have part: "parse_octet (show_int n) = Some n" if "n \<in> set octets" for n
    using assms(2) that by (intro parse_octet_show) auto
  then have "map (\<lambda>p. the (parse_octet p)) (map show_int octets) = octets" by (simp add: map_idI)
  moreover have "\<not> list_ex (\<lambda>p. parse_octet p = None) (map show_int octets)" using part by (auto simp: list_ex_iff)
  ultimately show ?thesis unfolding parse_ipv4_def Let_def sp using assms(1) by simp
qed

lemma no_colon_no_ipv6:
  assumes "split_on (CHR '':'') h = [h]" and "takeWhile (\<lambda>c. c \<noteq> CHR ''%'') h = h"
  shows "parse_ipv6 h = None"
  unfolding parse_ipv6_def Let_def assms(2) ipv6_parts_def assms(1) by simp

lemma join_chars: "c \<in> set (join_with d ws) \<Longrightarrow> c = d \<or> (\<exists>w \<in> set ws. c \<in> set w)"
  by (cases ws) (auto simp: join_with_def split: if_splits)

text \<open>
  Every numeric spelling of an IPv4 address is judged as the address it denotes.  A host of
  one to four numbers, each written in decimal, octal (leading zero) or hexadecimal, the
  leading ones single octets and the last one filling the remaining bytes, is a blocked target
  exactly when its address lies in a blocked range; the resolver is never asked.
\<close>

theorem numeric_spellings_judged_by_address:
  assumes "ne_block_ssrf e" and "rvs \<noteq> []" and "length rvs \<le> 4" and "\<forall>rv \<in> set rvs. 0 \<le> snd rv"
    and "\<forall>v \<in> set (butlast (map snd rvs)). v \<le> 255" and "last (map snd rvs) < 256 ^ (5 - length rvs)"
  shows "is_ssrf_target lib e (join_with (CHR ''.'') (map spell rvs))
    = addr_is_blocked (V4 (of_int (address_of (map snd rvs))))"
proof -
  let ?host = "join_with (CHR ''.'') (map spell rvs)"
  have chars: "ord_of c = 46 \<or> (48 \<le> ord_of c \<and> ord_of c \<le> 57) \<or> (97 \<le> ord_of c \<and> ord_of c \<le> 102) \<or> ord_of c = 120"
    if c: "c \<in> set ?host" for c
  proof -
    from join_chars [OF c] have "c = CHR ''.'' \<or> (\<exists>rv \<in> set rvs. c \<in> set (spell rv))" by auto
    then show ?thesis using spell_ord assms(4) some_ords(1) by (metis prod.collapse)
  qed
  have ne: "?host \<noteq> []" using assms(2) by (cases rvs) (simp_all add: join_with_def)
  then have hd: "hd ?host \<in> set ?host" and last: "last ?host \<in> set ?host" by simp_all
  have "strip ?host = ?host"
    using chars [OF hd] chars [OF last] ne by (intro strip_id) (auto simp: py_space_def Let_def)
  moreover have "\<not> starts_with ''['' ?host"
    using chars [OF hd] some_ords(8) ne by (cases ?host) (auto simp: starts_with_def)
  ultimately have host: "strip_brackets (strip ?host) = ?host" by (simp add: strip_brackets_def)
  have nc: "CHR '':'' \<notin> set ?host"
  proof
    assume "CHR '':'' \<in> set ?host"
    from chars [OF this] some_ords(5) show False by simp
  qed
  have np: "CHR ''%'' \<notin> set ?host"
  proof
    assume "CHR ''%'' \<in> set ?host"
    from chars [OF this] some_ords(6) show False by simp
  qed
  have "split_on (CHR '':'') ?host = [?host]" using nc by (rule split_on_none)
  moreover have "takeWhile (\<lambda>c. c \<noteq> CHR ''%'') ?host = ?host"
    using np by (subst takeWhile_eq_all_conv) blast
  ultimately have v6: "parse_ipv6 ?host = None"
    by (intro no_colon_no_ipv6)
  obtain octets where o: "normalize_numeric_ipv4 ?host = Some (join_with (CHR ''.'') (map show_int octets))"
      "length octets = 4" "\<forall>n \<in> set octets. 0 \<le> n \<and> n \<le> 255" "octets_value octets = address_of (map snd rvs)"
    by (rule normalize_spelled [OF assms(2-6)])
  have norm_ip: "literal_blocked (join_with (CHR ''.'') (map show_int octets))
      = Some (addr_is_blocked (V4 (of_int (address_of (map snd rvs)))))"
    using parse_ipv4_octets [OF o(2,3)] o(4) by (simp add: literal_blocked_def ip_address_def)
  show ?thesis
  proof (cases "parse_ipv4 ?host")
    case None
    then have "literal_blocked ?host = None" using v6 by (simp add: literal_blocked_def ip_address_def)
    then show ?thesis using assms(1) o(1) norm_ip by (simp add: is_ssrf_target_def Let_def host)
  next
    case (Some n)
    have sp: "split_on (CHR ''.'') ?host = map spell rvs"
      using assms(2,4) spell_no_dot(1) by (intro split_on_join_with) fastforce+
    from Some have len: "length rvs = 4" and oks: "\<forall>rv \<in> set rvs. parse_octet (spell rv) \<noteq> None"
      and n: "n = octets_value (map (\<lambda>p. the (parse_octet p)) (map spell rvs))"
      unfolding parse_ipv4_def Let_def sp by (auto simp: list_ex_iff split: if_splits)
    have "parse_octet (spell rv) = Some (snd rv)" if "rv \<in> set rvs" for rv
      using parse_octet_spell [of "snd rv" "fst rv"] oks that assms(4) by fastforce
    then have vs: "map (\<lambda>p. the (parse_octet p)) (map spell rvs) = map snd rvs" by simp
    have "octets_value (map snd rvs) = address_of (map snd rvs)"
      using len by (auto simp: address_of_def length_Suc_conv numeral_eq_Suc)
    then have "n = address_of (map snd rvs)" using n unfolding vs by (simp only:)
    then have "literal_blocked ?host = Some (addr_is_blocked (V4 (of_int (address_of (map snd rvs)))))"
      using Some by (simp add: literal_blocked_def ip_address_def)
    then show ?thesis using assms(1) by (simp add: is_ssrf_target_def Let_def host)
  qed
qed

definition demo_net_lib :: net_lib where
  "demo_net_lib = \<lparr>nl_urlhost = (\<lambda>u. Some (Some (drop 7 u))), nl_resolve = (\<lambda>h. Some [])\<rparr>"

definition demo_network :: network_engine where
  "demo_network = new_network_engine False True None 0"

theorem numeric_spellings_judged_by_address_witness:
  "is_ssrf_target demo_net_lib demo_network ''0x7f.1'' \<and> \<not> is_ssrf_target demo_net_lib demo_network ''010.8.8.8''"
proof -
  have "is_ssrf_target demo_net_lib demo_network (join_with (CHR ''.'') (map spell [(Hex, 127), (Dec, 1)]))
      = addr_is_blocked (V4 (of_int (address_of (map snd [(Hex, 127), (Dec, 1)]))))"
    by (rule numeric_spellings_judged_by_address) (simp_all add: demo_network_def new_network_engine_def)
  moreover have "is_ssrf_target demo_net_lib demo_network
        (join_with (CHR ''.'') (map spell [(Oct, 8), (Dec, 8), (Dec, 8), (Dec, 8)]))
      = addr_is_blocked (V4 (of_int (address_of (map snd [(Oct, 8), (Dec, 8), (Dec, 8), (Dec, 8)]))))"
    by (rule numeric_spellings_judged_by_address) (simp_all add: demo_network_def new_network_engine_def)
  moreover have "join_with (CHR ''.'') (map spell [(Hex, 127), (Dec, 1)]) = ''0x7f.1''"
      "join_with (CHR ''.'') (map spell [(Oct, 8), (Dec, 8), (Dec, 8), (Dec, 8)]) = ''010.8.8.8''"
    by code_simp+
  moreover have "addr_is_blocked (V4 (of_int (address_of (map snd [(Hex, 127), (Dec, 1)]))))"
      "\<not> addr_is_blocked (V4 (of_int (address_of (map snd [(Oct, 8), (Dec, 8), (Dec, 8), (Dec, 8)]))))"
    by code_simp+
  ultimately show ?thesis by simp
qed

section \<open>What the argument scan guarantees\<close>

text \<open>The texts the scan looks at: every string, and every key that is not structural.\<close>

fun texts :: "json \<Rightarrow> string list"
  and texts_list :: "json list \<Rightarrow> string list"
  and texts_items :: "(string \<times> json) list \<Rightarrow> string list" where
  "texts (JStr s) = [s]"
| "texts (JObj kvs) = texts_items kvs"
| "texts (JArr xs) = texts_list xs"
| "texts v = []"
| "texts_list [] = []"
| "texts_list (x # xs) = texts x @ texts_list xs"
| "texts_items [] = []"
| "texts_items ((k, v) # kvs) = (if is_structural_key k then [] else [k]) @ texts v @ texts_items kvs"

lemma check_all_ok: "check_all f xs = Inr () \<longleftrightarrow> (\<forall>x \<in> set xs. f x = Inr ())"
  by (induction xs) (auto simp: bindR_eq_Inr)

lemma scan_ssrf_ok:
  "scan_ssrf lib e v = Inr () \<longleftrightarrow> (\<forall>t \<in> set (texts v). scan_text lib e t = Inr ())"
  "scan_ssrf_list lib e xs = Inr () \<longleftrightarrow> (\<forall>t \<in> set (texts_list xs). scan_text lib e t = Inr ())"
  "scan_ssrf_items lib e kvs = Inr () \<longleftrightarrow> (\<forall>t \<in> set (texts_items kvs). scan_text lib e t = Inr ())"
  by (induction v and xs and kvs rule: texts_texts_list_texts_items.induct)
     (auto simp: bindR_eq_Inr split: if_splits)

lemma check_candidate_ok:
  "check_candidate lib e m = Inr () \<longleftrightarrow> lower (fst m) \<notin> set denied_schemes
     \<and> (lower (fst m) \<in> set host_schemes \<longrightarrow>
          (\<exists>h. nl_urlhost lib (snd m) = Some (Some h) \<and> h \<noteq> [] \<and> \<not> is_ssrf_target lib e h))"
  by (auto simp: check_candidate_def Let_def split: option.splits)

text \<open>
  A request the network engine lets through names no blocked target: in every text of its
  arguments (as sent and as the server will decode them) and of its uri, no candidate URI has
  a denied scheme, and every one with a host scheme parses to a host that is not a blocked
  target.
\<close>

theorem admitted_request_names_no_blocked_host:
  assumes "fst (network_on_request loads lib c req e) = Inr c'" and "ne_block_ssrf e"
    and "scannable_strings loads req = Inr fs" and "k \<in> {''arguments'', ''decoded_arguments'', ''uri''}"
    and "dget fs k = Some v" and "t \<in> set (texts v)" and "(scheme, u) \<in> set (uri_candidates False t)"
  shows "c' = c \<and> lower scheme \<notin> set denied_schemes
    \<and> (lower scheme \<in> set host_schemes \<longrightarrow>
        (\<exists>h. nl_urlhost lib u = Some (Some h) \<and> h \<noteq> [] \<and> \<not> is_ssrf_target lib e h))"
proof -
  from assms(1-3) have c: "c' = c" and ok: "\<forall>k \<in> {''arguments'', ''decoded_arguments'', ''uri''}. scan_field lib e fs k = Inr ()"
    by (auto simp: network_on_request_def bindR_eq_Inr)
  then have "scan_ssrf lib e v = Inr ()" using assms(4,5) by (auto simp: scan_field_def)
  then have "scan_text lib e t = Inr ()" using assms(6) by (simp add: scan_ssrf_ok)
  then have "check_candidate lib e (scheme, u) = Inr ()" using assms(7) by (simp add: scan_text_def check_all_ok)
  with c show ?thesis by (simp add: check_candidate_ok)
qed

definition demo_net_req :: mcp_request where
  "demo_net_req = \<lparr>rq_method = ''tools/call'',
     rq_params = [(''name'', JStr ''get''), (''arguments'', JObj [(''u'', JStr ''see http://8.8.8.8'')])],
     rq_session_id = ''s'', rq_headers = [], rq_query = [], rq_transport = ''http'', rq_header_pairs = []\<rparr>"

theorem admitted_request_names_no_blocked_host_witness:
  "\<not> is_ssrf_target demo_net_lib demo_network ''8.8.8.8''"
proof -
  have 1: "fst (network_on_request (\<lambda>_. NotJson) demo_net_lib (new_context 0 ''s'' ''http'') demo_net_req demo_network)
      = Inr (new_context 0 ''s'' ''http'')" by code_simp
  have 2: "ne_block_ssrf demo_network" by code_simp
  have 3: "scannable_strings (\<lambda>_. NotJson) demo_net_req
      = Inr [(''name'', JStr ''get''), (''arguments'', JObj [(''u'', JStr ''see http://8.8.8.8'')])]" by code_simp
  have 4: "(''http'', ''http://8.8.8.8'') \<in> set (uri_candidates False ''see http://8.8.8.8'')" by code_simp
  have 5: "''see http://8.8.8.8'' \<in> set (texts (JObj [(''u'', JStr ''see http://8.8.8.8'')]))" by code_simp
  have 6: "lower ''http'' \<in> set host_schemes" by code_simp
  from admitted_request_names_no_blocked_host [OF 1 2 3 _ _ 5 4, of "''arguments''"] 6
  show ?thesis by (simp add: demo_net_lib_def)
qed

text \<open>A scheme the engine does not know hides the rest of its word, a blocked URL included.\<close>

lemma unknown_scheme_hides_url:
  "scan_ssrf demo_net_lib demo_network (JStr ''http://127.0.0.1'') = Inl (net_error ''SSRF target (T8-002)'')
   \<and> scan_ssrf demo_net_lib demo_network (JStr ''x:http://127.0.0.1'') = Inr ()"
  by code_simp

text \<open>Numeric spellings of the wildcard address pass the bind check, though a socket accepts them.\<close>

lemma numeric_wildcard_passes_bind_check:
  "check_bind_address demo_network ''0x0'' = Inr ()
   \<and> normalize_numeric_ipv4 ''0x0'' = Some ''0.0.0.0'' \<and> is_wildcard ''0.0.0.0''"
  by code_simp

end
