(* ===== verification/Regex.thy ===== *)
theory Regex
  imports Types
begin

text \<open>
  The regular expressions of the content scanners (\<open>re.compile(p).search(text)\<close> in
  \<open>engines/validation.py\<close>, \<open>boundary.py\<close> and \<open>protection.py\<close>): the operators their patterns
  use, what a match is, a search that decides whether there is one, and the lemmas that find
  a match inside a longer text.  A position is the character before it and the text after it.
\<close>

section \<open>Patterns and what they match\<close>

datatype re =
    Eps
  | Chr "char \<Rightarrow> bool"
  | Edge            \<comment> \<open>\<open>\b\<close>\<close>
  | Seq re re
  | Alt re re
  | Star re

type_synonym pos = "char option \<times> string"

definition word_before :: "pos \<Rightarrow> bool" where
  "word_before x = (case fst x of None \<Rightarrow> False | Some c \<Rightarrow> re_word c)"

definition word_after :: "pos \<Rightarrow> bool" where
  "word_after x = (case snd x of [] \<Rightarrow> False | c # _ \<Rightarrow> re_word c)"

primrec matches :: "re \<Rightarrow> pos \<Rightarrow> pos \<Rightarrow> bool" where
  "matches Eps = (=)"
| "matches (Chr P) = (\<lambda>x y. \<exists>c s. snd x = c # s \<and> P c \<and> y = (Some c, s))"
| "matches Edge = (\<lambda>x y. y = x \<and> word_before x \<noteq> word_after x)"
| "matches (Seq a b) = matches a OO matches b"
| "matches (Alt a b) = (\<lambda>x y. matches a x y \<or> matches b x y)"
| "matches (Star a) = (matches a)\<^sup>*\<^sup>*"

section \<open>The search\<close>

text \<open>The positions where a match that starts at \<open>x\<close> can end; a round of \<open>Star\<close> that consumes nothing adds none.\<close>

function outs :: "re \<Rightarrow> pos \<Rightarrow> pos list" where
  "outs Eps x = [x]"
| "outs (Chr P) x = (case snd x of [] \<Rightarrow> [] | c # s \<Rightarrow> if P c then [(Some c, s)] else [])"
| "outs Edge x = (if word_before x \<noteq> word_after x then [x] else [])"
| "outs (Seq a b) x = concat (map (outs b) (outs a x))"
| "outs (Alt a b) x = outs a x @ outs b x"
| "outs (Star a) x = x # concat (map (\<lambda>y. if length (snd y) < length (snd x) then outs (Star a) y else []) (outs a x))"
  by pat_completeness auto
termination
  by (relation "measures [\<lambda>(r, x). size r, \<lambda>(r, x). length (snd x)]") auto

declare outs.simps(6) [simp del]

fun search :: "re \<Rightarrow> char option \<Rightarrow> string \<Rightarrow> bool" where
  "search r p [] = (outs r (p, []) \<noteq> [])"
| "search r p (c # s) = (outs r (p, c # s) \<noteq> [] \<or> search r (Some c) s)"

text \<open>\<open>pattern.search(text)\<close> finds something.\<close>

definition found :: "re \<Rightarrow> string \<Rightarrow> bool" where
  "found r t = search r None t"

section \<open>Derived operators\<close>

definition opt :: "re \<Rightarrow> re" where "opt r = Alt r Eps"
definition plus :: "re \<Rightarrow> re" where "plus r = Seq r (Star r)"

fun rep :: "nat \<Rightarrow> re \<Rightarrow> re" where
  "rep 0 r = Eps"
| "rep (Suc n) r = Seq r (rep n r)"

fun seqs :: "re list \<Rightarrow> re" where
  "seqs [] = Eps"
| "seqs [r] = r"
| "seqs (r # rs) = Seq r (seqs rs)"

fun alts :: "re list \<Rightarrow> re" where
  "alts [] = Chr (\<lambda>_. False)"
| "alts [r] = r"
| "alts (r # rs) = Alt r (alts rs)"

text \<open>A literal, and a literal under \<open>(?i)\<close> (lower-case ASCII as written).\<close>

definition lit :: "string \<Rightarrow> re" where "lit s = seqs (map (\<lambda>c. Chr (\<lambda>x. x = c)) s)"
definition ilit :: "string \<Rightarrow> re" where "ilit s = seqs (map (\<lambda>c. Chr (\<lambda>x. lower_char x = c)) s)"

definition any_of :: "string \<Rightarrow> re" where "any_of cs = Chr (\<lambda>x. x \<in> set cs)"
definition none_of :: "string \<Rightarrow> re" where "none_of cs = Chr (\<lambda>x. x \<notin> set cs)"
definition sp :: re where "sp = Chr py_space"
definition dg :: re where "dg = Chr is_digit"
definition wd :: re where "wd = Chr re_word"
definition dot :: re where "dot = Chr (\<lambda>x. x \<noteq> CHR 0x0A)"

section \<open>Matches consume a prefix\<close>

text \<open>\<open>after x u\<close> is the position behind \<open>u\<close>.\<close>

definition prev_of :: "char option \<Rightarrow> string \<Rightarrow> char option" where
  "prev_of p u = (if u = [] then p else Some (last u))"

lemma prev_of_simps [simp]: "prev_of p [] = p" "prev_of p (u @ [c]) = Some c" "prev_of p [c] = Some c"
  by (simp_all add: prev_of_def)

lemma prev_of_append [simp]: "prev_of (prev_of p u) v = prev_of p (u @ v)"
  by (simp add: prev_of_def)

definition consumes :: "pos \<Rightarrow> pos \<Rightarrow> bool" where
  "consumes x y = (\<exists>u. snd x = u @ snd y \<and> fst y = prev_of (fst x) u)"

lemma consumes_refl: "consumes x x"
  by (simp add: consumes_def)

lemma consumes_trans: "consumes x y \<Longrightarrow> consumes y z \<Longrightarrow> consumes x z"
  unfolding consumes_def by (metis append_assoc prev_of_append)

lemma consumes_length: "consumes x y \<Longrightarrow> length (snd y) \<le> length (snd x)"
  by (auto simp: consumes_def)

lemma consumes_same: "consumes x y \<Longrightarrow> length (snd y) = length (snd x) \<Longrightarrow> y = x"
  by (auto simp: consumes_def intro: prod_eqI)

lemma matches_consumes: "matches r x y \<Longrightarrow> consumes x y"
proof (induction r arbitrary: x y)
  case (Star r)
  from Star.prems have "(matches r)\<^sup>*\<^sup>* x y" by simp
  then show ?case by induction (auto intro: consumes_refl consumes_trans Star.IH)
next
  case (Chr P)
  then obtain c s where "snd x = [c] @ s" "y = (prev_of (fst x) [c], s)" by auto
  then show ?case unfolding consumes_def by (metis fst_conv snd_conv)
next
  case (Seq a b)
  then show ?case by (metis consumes_trans matches.simps(4) relcomppE)
qed (auto intro: consumes_refl)

text \<open>The search decides whether there is a match.\<close>

lemma star_shrinking:
  assumes "(matches r)\<^sup>*\<^sup>* x y" and "x \<noteq> y"
  shows "\<exists>z. matches r x z \<and> length (snd z) < length (snd x) \<and> (matches r)\<^sup>*\<^sup>* z y"
  using assms
proof (induction rule: converse_rtranclp_induct)
  case (step x z)
  show ?case
  proof (cases "length (snd z) < length (snd x)")
    case False
    with matches_consumes [OF step.hyps(1)] have "z = x"
      by (metis consumes_length consumes_same le_neq_implies_less)
    with step.IH step.prems show ?thesis by blast
  qed (use step.hyps in blast)
qed simp

lemma outs_matches: "y \<in> set (outs r x) \<longleftrightarrow> matches r x y"
proof (induction r x arbitrary: y rule: outs.induct)
  case (2 P x)
  then show ?case by (auto split: list.splits)
next
  case (6 r x)
  have "y \<in> set (outs (Star r) x) \<longleftrightarrow> y = x \<or>
      (\<exists>z \<in> set (outs r x). length (snd z) < length (snd x) \<and> y \<in> set (outs (Star r) z))"
    by (subst outs.simps(6)) (auto split: if_splits)
  also have "\<dots> \<longleftrightarrow> y = x \<or>
      (\<exists>z. matches r x z \<and> length (snd z) < length (snd x) \<and> (matches r)\<^sup>*\<^sup>* z y)"
    by (metis 6 matches.simps(6))
  also have "\<dots> \<longleftrightarrow> matches (Star r) x y"
    using star_shrinking [of r x y] by (auto intro: converse_rtranclp_into_rtranclp)
  finally show ?case .
qed auto

lemma outs_Nil: "outs r x \<noteq> [] \<longleftrightarrow> (\<exists>y. matches r x y)"
  by (metis ex_in_conv outs_matches set_empty)

lemma search_iff: "search r p t \<longleftrightarrow> (\<exists>u v y. t = u @ v \<and> matches r (prev_of p u, v) y)"
proof (induction t arbitrary: p)
  case (Cons c t)
  have "(\<exists>u v y. c # t = u @ v \<and> matches r (prev_of p u, v) y) \<longleftrightarrow>
      (\<exists>y. matches r (p, c # t) y) \<or> (\<exists>u v y. t = u @ v \<and> matches r (prev_of (Some c) u, v) y)"
    (is "?L \<longleftrightarrow> ?A \<or> ?B")
  proof
    assume ?L
    then obtain u v y where e: "c # t = u @ v" "matches r (prev_of p u, v) y" by blast
    show "?A \<or> ?B"
    proof (cases u)
      case (Cons d u')
      with e have "t = u' @ v" "matches r (prev_of (Some c) u', v) y" by (auto simp: prev_of_def split: if_splits)
      then show ?thesis by blast
    next
      case Nil
      with e have "matches r (p, c # t) y" by simp
      then show ?thesis by blast
    qed
  next
    assume "?A \<or> ?B"
    then show ?L
    proof
      assume ?A
      then have "\<exists>y. c # t = [] @ (c # t) \<and> matches r (prev_of p [], c # t) y" by simp
      then show ?L by blast
    next
      assume ?B
      then obtain u v y where "t = u @ v" "matches r (prev_of (Some c) u, v) y" by blast
      then have "c # t = (c # u) @ v" "matches r (prev_of p (c # u), v) y" by (auto simp: prev_of_def split: if_splits)
      then show ?L by blast
    qed
  qed
  with Cons.IH [of "Some c"] show ?case by (simp only: search.simps outs_Nil)
next
  case Nil
  show ?case unfolding search.simps outs_Nil by (rule iffI) (fastforce, auto)
qed

lemma found_iff: "found r t \<longleftrightarrow> (\<exists>u v y. t = u @ v \<and> matches r (prev_of None u, v) y)"
  by (simp add: found_def search_iff)

section \<open>Matches in a longer text\<close>

text \<open>
  A match looks at the consumed text, the character before it and the one after it; without
  \<open>\b\<close> only at the consumed text.
\<close>

primrec edge_free :: "re \<Rightarrow> bool" where
  "edge_free Eps = True"
| "edge_free (Chr P) = True"
| "edge_free Edge = False"
| "edge_free (Seq a b) = (edge_free a \<and> edge_free b)"
| "edge_free (Alt a b) = (edge_free a \<and> edge_free b)"
| "edge_free (Star a) = edge_free a"

definition same_next :: "string \<Rightarrow> string \<Rightarrow> bool" where
  "same_next v w = (take 1 v = take 1 w)"

lemma same_next_append: "same_next v w \<Longrightarrow> same_next (u @ v) (u @ w)"
  by (cases u) (auto simp: same_next_def)

lemma word_after_next: "same_next v w \<Longrightarrow> word_after (p, v) = word_after (q, w)"
  by (cases v; cases w) (auto simp: word_after_def same_next_def)

definition fits :: "re \<Rightarrow> char option \<Rightarrow> string \<Rightarrow> char option \<Rightarrow> string \<Rightarrow> bool" where
  "fits r p v p' w = (edge_free r \<or> p = p' \<and> same_next v w)"

lemma fits_parts:
  assumes "fits r p v p' w" and "edge_free r \<longrightarrow> edge_free a"
  shows "fits a p (u @ v) p' (u @ w)" and "fits a (prev_of p u) v (prev_of p' u) w"
  using assms by (auto simp: fits_def intro: same_next_append)

lemma matches_split:
  assumes "matches a (p, u @ v) (p1, s1)" and "consumes (p1, s1) (q, v)"
  obtains u1 u2 where "u = u1 @ u2" and "s1 = u2 @ v" and "p1 = prev_of p u1"
proof -
  from assms(2) obtain u2 where s1: "s1 = u2 @ v" by (auto simp: consumes_def)
  from matches_consumes [OF assms(1)] s1 obtain u1 where "u = u1 @ u2" "p1 = prev_of p u1"
    by (auto simp: consumes_def)
  with s1 that show thesis by blast
qed

lemma matches_local:
  "matches r (p, u @ v) (q, v) \<Longrightarrow> fits r p v p' w \<Longrightarrow> matches r (p', u @ w) (prev_of p' u, w)"
proof (induction r arbitrary: p u q v p' w)
  case (Chr P)
  then obtain c where "u @ v = c # v" "P c" by auto
  moreover then have "u = [c]" by (metis append_Cons append_Nil append_same_eq)
  ultimately show ?case by auto
next
  case (Edge)
  then have "u = []" "p = p'" "same_next v w" by (auto simp: fits_def)
  with Edge show ?case using word_after_next [of v w p p] by (auto simp: word_before_def)
next
  case (Seq a b)
  then obtain p1 s1 where 1: "matches a (p, u @ v) (p1, s1)" "matches b (p1, s1) (q, v)" by auto
  obtain u1 u2 where u: "u = u1 @ u2" "s1 = u2 @ v" "p1 = prev_of p u1"
    by (rule matches_split [OF 1(1) matches_consumes [OF 1(2)]])
  have "matches a (p', u1 @ (u2 @ w)) (prev_of p' u1, u2 @ w)"
    by (rule Seq.IH(1) [of p u1 "u2 @ v" p1]) (use 1 u fits_parts(1) [OF Seq.prems(2), of a u2] in simp_all)
  moreover have "matches b (prev_of p' u1, u2 @ w) (prev_of (prev_of p' u1) u2, w)"
    by (rule Seq.IH(2) [of p1 u2 v q]) (use 1 u fits_parts(2) [OF Seq.prems(2), of b u1] in simp_all)
  ultimately show ?case using u by auto
next
  case (Star a)
  have "(matches a)\<^sup>*\<^sup>* (p', u @ w) (prev_of p' u, w)"
    if "(matches a)\<^sup>*\<^sup>* x (q, v)" "x = (p, u @ v)" "fits a p v p' w" for x p u p'
    using that
  proof (induction arbitrary: p u p' rule: converse_rtranclp_induct)
    case (step x z)
    obtain p1 s1 where z: "z = (p1, s1)" by (cases z)
    have "matches (Star a) (p1, s1) (q, v)" using step.hyps(2) z by simp
    from matches_consumes [OF this] step.hyps(1) step.prems(1) z
    obtain u1 u2 where u: "u = u1 @ u2" "s1 = u2 @ v" "p1 = prev_of p u1"
      using matches_split [of a p u v p1 s1 q] by metis
    have "matches a (p', u1 @ (u2 @ w)) (prev_of p' u1, u2 @ w)"
      by (rule Star.IH [of p u1 "u2 @ v" p1])
         (use step.hyps(1) step.prems(1) z u fits_parts(1) [OF step.prems(2), of a u2] in simp_all)
    moreover have "(matches a)\<^sup>*\<^sup>* (prev_of p' u1, u2 @ w) (prev_of (prev_of p' u1) u2, w)"
      by (rule step.IH [of p1]) (use z u fits_parts(2) [OF step.prems(2), of a u1] in simp_all)
    ultimately show ?case using u by (simp add: converse_rtranclp_into_rtranclp)
  qed auto
  moreover have "fits a p v p' w" using Star.prems(2) by (simp add: fits_def)
  ultimately show ?case using Star.prems(1) by simp
next
  case (Alt a b)
  then have "fits a p v p' w" "fits b p v p' w" by (auto simp: fits_def)
  with Alt show ?case by auto
qed auto

text \<open>A match inside a text is found, in any context the pattern does not look at.\<close>

lemma found_inside:
  assumes "matches r (p, u @ v) (q, v)" and "fits r p v (prev_of None a) b"
  shows "found r (a @ u @ b)"
  unfolding found_iff using matches_local [OF assms] by blast

lemma found_edge_free:
  assumes "matches r (None, u) (q, [])" and "edge_free r"
  shows "found r (a @ u @ b)"
  by (rule found_inside [of r None u "[]" q]) (use assms in \<open>simp_all add: fits_def\<close>)

text \<open>What is found in part of a text is found in all of it, for a pattern without \<open>\b\<close>.\<close>

lemma found_extend: "found r t \<Longrightarrow> edge_free r \<Longrightarrow> found r (a @ t @ b)"
proof -
  assume "found r t" and ef: "edge_free r"
  then obtain u v y where t: "t = u @ v" and m: "matches r (prev_of None u, v) y" by (auto simp: found_iff)
  from matches_consumes [OF m] obtain w where v: "v = w @ snd y" by (auto simp: consumes_def)
  have "found r ((a @ u) @ w @ (snd y @ b))"
    by (rule found_inside [of r "prev_of None u" w "snd y" "fst y"]) (use m v ef in \<open>simp_all add: fits_def\<close>)
  then show "found r (a @ t @ b)" by (simp add: t v)
qed

section \<open>Finding derived operators\<close>

lemma matches_Chr_prefix: "P c \<Longrightarrow> matches (Chr P) (p, c # s) (Some c, s)"
  by simp

lemma matches_seqs_Cons: "matches (seqs (r # rs)) x y \<longleftrightarrow> (\<exists>z. matches r x z \<and> matches (seqs rs) z y)"
proof (cases rs)
  case Nil
  then show ?thesis by (cases y) simp
qed auto

lemma edge_free_seqs [simp]: "edge_free (seqs rs) \<longleftrightarrow> (\<forall>r \<in> set rs. edge_free r)"
  by (induction rs rule: seqs.induct) auto

lemma edge_free_alts [simp]: "edge_free (alts rs) \<longleftrightarrow> (\<forall>r \<in> set rs. edge_free r)"
  by (induction rs rule: alts.induct) auto

lemma edge_free_ops [simp]:
  "edge_free (opt r) = edge_free r" "edge_free (plus r) = edge_free r" "edge_free (lit s)" "edge_free (ilit s)"
  "edge_free (any_of cs)" "edge_free (none_of cs)" "edge_free sp" "edge_free dg" "edge_free wd" "edge_free dot"
  by (auto simp: opt_def plus_def lit_def ilit_def any_of_def none_of_def sp_def dg_def wd_def dot_def)

text \<open>A literal is found exactly where the text contains it.\<close>

lemma matches_chars:
  "matches (seqs (map (\<lambda>c. Chr (Q c)) cs)) (p, s) y
   \<longleftrightarrow> (\<exists>u v. s = u @ v \<and> list_all2 Q cs u \<and> y = (prev_of p u, v))"
proof (induction cs arbitrary: p s)
  case (Cons c cs)
  have "matches (seqs (map (\<lambda>c. Chr (Q c)) (c # cs))) (p, s) y \<longleftrightarrow>
      (\<exists>d t. s = d # t \<and> Q c d \<and> matches (seqs (map (\<lambda>c. Chr (Q c)) cs)) (Some d, t) y)"
    by (auto simp: matches_seqs_Cons)
  also have "\<dots> \<longleftrightarrow> (\<exists>d u v. s = d # u @ v \<and> Q c d \<and> list_all2 Q cs u \<and> y = (prev_of (Some d) u, v))"
    unfolding Cons.IH by blast
  also have "\<dots> \<longleftrightarrow> (\<exists>u v. s = u @ v \<and> list_all2 Q (c # cs) u \<and> y = (prev_of p u, v))"
    unfolding list_all2_Cons1 by (rule iffI) (force simp: prev_of_def)+
  finally show ?case .
qed auto

lemma found_chars: "found (seqs (map (\<lambda>c. Chr (Q c)) cs)) t \<longleftrightarrow> (\<exists>a u b. t = a @ u @ b \<and> list_all2 Q cs u)"
  unfolding found_iff matches_chars by blast

lemma found_lit: "found (lit s) t \<longleftrightarrow> (\<exists>a b. t = a @ s @ b)"
proof -
  have "list_all2 (\<lambda>c x. x = c) s u \<longleftrightarrow> u = s" for u
    by (auto simp: list_all2_conv_all_nth intro: nth_equalityI)
  then show ?thesis unfolding lit_def found_chars by simp
qed

lemma matches_star_chars: "\<forall>c \<in> set u. P c \<Longrightarrow> matches (Star (Chr P)) (p, u @ v) (prev_of p u, v)"
proof (induction u arbitrary: p)
  case (Cons c u)
  then have "(matches (Chr P))\<^sup>*\<^sup>* (Some c, u @ v) (prev_of (Some c) u, v)" by simp
  moreover have "matches (Chr P) (p, (c # u) @ v) (Some c, u @ v)" using Cons.prems by simp
  moreover have "prev_of (Some c) u = prev_of p (c # u)" by (simp add: prev_of_def)
  ultimately show ?case by (simp add: converse_rtranclp_into_rtranclp)
qed simp

lemma matches_lit: "matches (lit s) (p, s @ v) (prev_of p s, v)"
  unfolding lit_def matches_chars by (auto simp: list_all2_same)

lemma found_ilit: "found (ilit s) t \<longleftrightarrow> (\<exists>a u b. t = a @ u @ b \<and> lower u = s)"
proof -
  have "list_all2 (\<lambda>c x. lower_char x = c) s u \<longleftrightarrow> lower u = s" for u
    by (auto simp: lower_def list_all2_conv_all_nth intro: nth_equalityI)
  then show ?thesis unfolding ilit_def found_chars by simp
qed

lemma found_Chr: "found (Chr P) t \<longleftrightarrow> (\<exists>c \<in> set t. P c)"
proof -
  have "found (Chr P) t \<longleftrightarrow> (\<exists>a c b. t = a @ [c] @ b \<and> P c)"
    using found_chars [of "\<lambda>_. P" "[CHR ''x'']" t]
    by (simp add: list_all2_Cons1) (metis append_Cons append_Nil)
  also have "\<dots> \<longleftrightarrow> (\<exists>c \<in> set t. P c)" by (simp add: Bex_def in_set_conv_decomp) blast
  finally show ?thesis .
qed

lemma found_any_of: "found (any_of cs) t \<longleftrightarrow> (\<exists>c \<in> set t. c \<in> set cs)"
  by (simp add: any_of_def found_Chr)

text \<open>A sequence needs its first part, and a literal its length.\<close>

lemma found_seqs_first: "found (seqs (r # rs)) t \<Longrightarrow> found r t"
  by (auto simp: found_iff matches_seqs_Cons)

lemma found_ilit_length: "found (ilit s) t \<Longrightarrow> length s \<le> length t"
  by (auto simp: found_ilit lower_def)

lemma found_lit_length: "found (lit s) t \<Longrightarrow> length s \<le> length t"
  by (auto simp: found_lit)

end
