(* ===== verification/Protocol.thy ===== *)
theory Protocol
  imports Types Bytes
begin

text \<open>
  The MCP 2026-07-28 constants and header helpers (\<open>mcp_armor/mcp_protocol.py\<close>): versions and
  reserved keys, the encoding of header values, the routing headers of a request, the
  \<open>x-mcp-header\<close> annotations of a tool schema, and the search for argument keys that differ
  from a declared property only in letter case.
\<close>

section \<open>Constants\<close>

definition modern_protocol_version :: string where "modern_protocol_version = ''2026-07-28''"
definition modern_versions :: "string list" where "modern_versions = [modern_protocol_version]"
definition legacy_versions :: "string list" where
  "legacy_versions = [''2025-11-25'', ''2025-06-18'', ''2025-03-26'', ''2024-11-05'']"

definition meta_protocol_version :: string where
  "meta_protocol_version = ''io.modelcontextprotocol/protocolVersion''"
definition meta_client_info :: string where "meta_client_info = ''io.modelcontextprotocol/clientInfo''"
definition meta_client_capabilities :: string where
  "meta_client_capabilities = ''io.modelcontextprotocol/clientCapabilities''"

definition header_protocol_version :: string where "header_protocol_version = ''MCP-Protocol-Version''"
definition header_method :: string where "header_method = ''Mcp-Method''"
definition header_name :: string where "header_name = ''Mcp-Name''"
definition header_param_prefix :: string where "header_param_prefix = ''Mcp-Param-''"

definition name_bearing_methods :: "(string, string) dict" where
  "name_bearing_methods = [(''tools/call'', ''name''), (''prompts/get'', ''name''), (''resources/read'', ''uri'')]"

definition b64_prefix :: string where "b64_prefix = ''=?base64?''"
definition b64_suffix :: string where "b64_suffix = ''?=''"
definition js_safe_int :: int where "js_safe_int = 2 ^ 53 - 1"

section \<open>Request metadata\<close>

definition build_request_meta :: "(string, json) dict \<Rightarrow> (string, json) dict \<Rightarrow> string \<Rightarrow> (string, json) dict" where
  "build_request_meta info caps version =
     [(meta_protocol_version, JStr version), (meta_client_info, JObj info), (meta_client_capabilities, JObj caps)]"

text \<open>\<open>{**meta, **existing}\<close>: the keys of \<open>meta\<close> first, the values of \<open>existing\<close> win.\<close>

definition dict_merge :: "(string, 'v) dict \<Rightarrow> (string, 'v) dict \<Rightarrow> (string, 'v) dict" where
  "dict_merge d e = foldl (\<lambda>acc (k, v). AList.update k v acc) d e"

definition with_request_meta :: "(string, json) dict \<Rightarrow> (string, json) dict \<Rightarrow> (string, json) dict" where
  "with_request_meta params meta = (case get_or_null params ''_meta'' of
     JNull \<Rightarrow> AList.update ''_meta'' (JObj meta) params
   | JObj existing \<Rightarrow> AList.update ''_meta'' (JObj (dict_merge meta existing)) params
   | _ \<Rightarrow> params)"

section \<open>Header values\<close>

text \<open>Padded base64 of the standard alphabet, and \<open>b64decode(s, validate=True)\<close>.\<close>

definition std_char :: "char \<Rightarrow> char" where
  "std_char c = (if c = CHR ''-'' then CHR ''+'' else if c = CHR ''_'' then CHR ''/'' else c)"

definition url_char :: "char \<Rightarrow> char" where
  "url_char c = (if c = CHR ''+'' then CHR ''-'' else if c = CHR ''/'' then CHR ''_'' else c)"

definition b64_pad :: "bytes \<Rightarrow> nat" where
  "b64_pad bs = (case length bs mod 3 of 0 \<Rightarrow> 0 | Suc 0 \<Rightarrow> 2 | _ \<Rightarrow> 1)"

definition b64_std :: "bytes \<Rightarrow> string" where
  "b64_std bs = map std_char (b64_url bs) @ replicate (b64_pad bs) (CHR ''='')"

definition std_alphabet :: "char \<Rightarrow> bool" where
  "std_alphabet c = (is_alpha c \<or> is_digit c \<or> c = CHR ''+'' \<or> c = CHR ''/'')"

definition unb64_std :: "string \<Rightarrow> bytes option" where
  "unb64_std s = (let pads = length (takeWhile (\<lambda>c. c = CHR ''='') (rev s)); body = take (length s - pads) s
     in if length s mod 4 = 0 \<and> pads \<le> 2 \<and> list_all std_alphabet body
        then a2b (map url_char body @ replicate pads (CHR ''='')) 0 0 0 else None)"

text \<open>\<open>bytes.decode("utf-8")\<close>; \<open>None\<close> is an error or a character beyond the modelled range.\<close>

fun utf8_dec :: "bytes \<Rightarrow> string option" where
  "utf8_dec [] = Some []"
| "utf8_dec (a # bs) =
     (if unat a < 128 then map_option (Cons (char_of (unat a))) (utf8_dec bs)
      else case bs of
        b # cs \<Rightarrow> if (a = 194 \<or> a = 195) \<and> 128 \<le> unat b \<and> unat b < 192
          then map_option (Cons (char_of ((unat a - 192) * 64 + (unat b - 128)))) (utf8_dec cs) else None
      | [] \<Rightarrow> None)"

definition is_sentinel :: "string \<Rightarrow> bool" where
  "is_sentinel v = (starts_with b64_prefix v \<and> ends_with b64_suffix v)"

definition header_char :: "char \<Rightarrow> bool" where
  "header_char c = (c = CHR 0x09 \<or> (32 \<le> ord_of c \<and> ord_of c \<le> 126))"

definition encode_header_value :: "string \<Rightarrow> string" where
  "encode_header_value v =
     (if v = strip v \<and> list_all header_char v \<and> \<not> is_sentinel v then v
      else b64_prefix @ b64_std (utf8 v) @ b64_suffix)"

definition decode_header_value :: "string \<Rightarrow> string option" where
  "decode_header_value v =
     (if is_sentinel v
      then Option.bind (unb64_std (take (length v - 11) (drop 9 v))) utf8_dec
      else Some v)"

section \<open>Routing headers of a request\<close>

definition mcp_name_for :: "string \<Rightarrow> (string, json) dict \<Rightarrow> string option" where
  "mcp_name_for method params = (case dget name_bearing_methods method of
     None \<Rightarrow> None
   | Some field \<Rightarrow> (case get_or_null params field of JStr s \<Rightarrow> Some s | _ \<Rightarrow> None))"

definition request_metadata_headers :: "string \<Rightarrow> (string, json) dict \<Rightarrow> string \<Rightarrow> (string, string) dict" where
  "request_metadata_headers method params version =
     [(header_protocol_version, version), (header_method, method)]
     @ (case mcp_name_for method params of None \<Rightarrow> [] | Some n \<Rightarrow> [(header_name, encode_header_value n)])"

fun header_param_value :: "json \<Rightarrow> string option" where
  "header_param_value (JBool b) = Some (if b then ''true'' else ''false'')"
| "header_param_value (JInt i) = (if \<bar>i\<bar> > js_safe_int then None else Some (show_int i))"
| "header_param_value (JStr s) = Some (encode_header_value s)"
| "header_param_value _ = None"

section \<open>Annotations\<close>

text \<open>The name token pattern; as the source anchors it with \<open>$\<close> a final newline is allowed.\<close>

definition tchar :: "char \<Rightarrow> bool" where
  "tchar c = (is_alpha c \<or> is_digit c \<or> c \<in> set ''!#$%&*+-.^_`|~'' \<or> ord_of c = 39)"

definition is_token :: "string \<Rightarrow> bool" where
  "is_token s = (let t = (if s \<noteq> [] \<and> last s = CHR 0x0A then butlast s else s) in t \<noteq> [] \<and> list_all tchar t)"

text \<open>\<open>_walk\<close> with the levels that remain (17: depths 0 to 16).\<close>

type_synonym annotation = "string \<times> string list \<times> json"

function walk_props :: "nat \<Rightarrow> json \<Rightarrow> string list \<Rightarrow> annotation list"
  and walk_items :: "nat \<Rightarrow> (string \<times> json) list \<Rightarrow> string list \<Rightarrow> annotation list" where
  "walk_props 0 schema path = []"
| "walk_props (Suc n) schema path = (case schema of
     JObj d \<Rightarrow> (case get_or_null d ''properties'' of JObj props \<Rightarrow> walk_items n props path | _ \<Rightarrow> [])
   | _ \<Rightarrow> [])"
| "walk_items n [] path = []"
| "walk_items n ((key, sub) # props) path =
     (case sub of
        JObj d \<Rightarrow> (case get_or_null d ''x-mcp-header'' of
                    JStr ann \<Rightarrow> [(ann, path @ [key], get_or_null d ''type'')] | _ \<Rightarrow> [])
                  @ walk_props n sub (path @ [key])
      | _ \<Rightarrow> [])
     @ walk_items n props path"
  by pat_completeness auto
termination
  by (relation "measures [\<lambda>x. case x of Inl (n, _) \<Rightarrow> 2 * n | Inr (n, _, _) \<Rightarrow> 2 * n + 1,
      \<lambda>x. case x of Inl _ \<Rightarrow> 0 | Inr (n, ps, _) \<Rightarrow> length ps]") auto

definition annotation_type :: "json \<Rightarrow> json" where
  "annotation_type t = (case t of
     JArr ts \<Rightarrow> (case filter (\<lambda>x. x \<noteq> JStr ''null'') ts of [x] \<Rightarrow> x | _ \<Rightarrow> JNull)
   | _ \<Rightarrow> t)"

fun valid_annotations :: "string list \<Rightarrow> annotation list \<Rightarrow> (string \<times> string list) list" where
  "valid_annotations seen [] = []"
| "valid_annotations seen ((name, path, t) # as) =
     (if \<not> is_token name \<or> lower name \<in> set seen then valid_annotations seen as
      else (if annotation_type t \<in> {JStr ''string'', JStr ''integer'', JStr ''boolean''}
            then [(name, path)] else [])
           @ valid_annotations (lower name # seen) as)"

definition x_mcp_header_annotations :: "json \<Rightarrow> (string \<times> string list) list" where
  "x_mcp_header_annotations schema = valid_annotations [] (walk_props 17 schema [])"

fun arg_at :: "json \<Rightarrow> string list \<Rightarrow> json" where
  "arg_at node [] = node"
| "arg_at node (step # path) = (case node of JObj d \<Rightarrow> arg_at (get_or_null d step) path | _ \<Rightarrow> JNull)"

definition x_mcp_param_headers :: "json \<Rightarrow> json \<Rightarrow> (string, string) dict" where
  "x_mcp_param_headers schema args =
     (if \<not> is_obj args then []
      else foldl (\<lambda>hs (name, path). case header_param_value (arg_at args path) of
          None \<Rightarrow> hs | Some v \<Rightarrow> AList.update (header_param_prefix @ name) v hs)
        [] (x_mcp_header_annotations schema))"

section \<open>Case variants of declared properties\<close>

text \<open>
  \<open>str.casefold\<close> below 256; the micro sign, whose fold lies beyond the range, is a class of its
  own either way.
\<close>

definition casefold :: "string \<Rightarrow> string" where
  "casefold s = concat (map (\<lambda>c. if ord_of c = 223 then ''ss'' else [lower_char c]) s)"

definition max_schema_containers :: int where "max_schema_containers = 100000"

lemma size_list_stack [simp]: "size_list f (rev xs @ ys) = size_list f xs + size_list f ys"
  by (induction xs arbitrary: ys) auto

lemma size_list_rev [simp]: "size_list f (rev xs) = size_list f xs"
  using size_list_stack [of f xs "[]"] by simp

lemma values_size: "size_list size (map snd d) \<le> size_list (size_prod (\<lambda>_. 0) size) d"
  by (induction d) auto

lemma items_weight: "size_list (\<lambda>p. 2 * size (snd p)) (map (\<lambda>(k, v). (f k, v)) d)
    \<le> 2 * size_list (size_prod (\<lambda>_. 0) size) (d :: (string \<times> json) list)"
  by (induction d) auto

lemma enumerate_weight: "size_list (\<lambda>p. 2 * size (snd p)) (map (\<lambda>(i, x). (f i, x)) (List.enumerate n xs))
    \<le> 2 * size_list size (xs :: json list)"
  by (induction xs arbitrary: n) (auto simp del: size_list_map intro: le_SucI)

text \<open>The explicit stack, top first; \<open>seen\<close> counts containers.\<close>

function declared_maps :: "json list \<Rightarrow> int \<Rightarrow> string list list \<Rightarrow> string list list \<times> bool" where
  "declared_maps [] seen ms = (ms, False)"
| "declared_maps (node # stack) seen ms =
     (case node of
        JObj d \<Rightarrow>
          if seen + 1 > max_schema_containers then (ms, True)
          else declared_maps (rev (map snd d) @ stack) (seen + 1)
            (ms @ (case get_or_null d ''properties'' of JObj props \<Rightarrow> [map fst props] | _ \<Rightarrow> []))
      | JArr xs \<Rightarrow>
          if seen + 1 > max_schema_containers then (ms, True)
          else declared_maps (rev xs @ stack) (seen + 1) ms
      | _ \<Rightarrow> declared_maps stack seen ms)"
  by pat_completeness auto
termination
proof (relation "measure (\<lambda>(stack, _). size_list size stack)", goal_cases)
  case (8 node stack seen ms d)
  then show ?case using values_size [of d] by simp
qed auto

definition declared_property_mappings :: "json \<Rightarrow> string list list \<times> bool" where
  "declared_property_mappings schema = declared_maps [schema] 0 []"

definition spellings :: "string list list \<Rightarrow> string \<Rightarrow> string list" where
  "spellings ms f = remdups (filter (\<lambda>n. casefold n = f) (concat ms))"

definition codeclared :: "string list list \<Rightarrow> string \<Rightarrow> bool" where
  "codeclared ms f = (let sp = spellings ms f in
     length sp > 1 \<and> list_all (\<lambda>m. list_ex (\<lambda>n. n \<in> set m) sp \<longrightarrow> list_all (\<lambda>n. n \<in> set m) sp) ms)"

definition bad_key :: "string list list \<Rightarrow> string \<Rightarrow> bool" where
  "bad_key ms key = (let sp = spellings ms (casefold key) in
     sp \<noteq> [] \<and> (if length sp = 1 \<or> codeclared ms (casefold key) then key \<notin> set sp else True))"

function variant_keys :: "string list list \<Rightarrow> (string \<times> json) list \<Rightarrow> string list" where
  "variant_keys ms [] = []"
| "variant_keys ms ((path, node) # stack) =
     (case node of
        JObj d \<Rightarrow> map (\<lambda>(k, v). path @ ''/'' @ k) (filter (\<lambda>(k, v). bad_key ms k) d)
                  @ variant_keys ms (rev (map (\<lambda>(k, v). (path @ ''/'' @ k, v)) d) @ stack)
      | JArr xs \<Rightarrow> variant_keys ms
          (rev (map (\<lambda>(i, x). (path @ ''/'' @ show_nat i, x)) (List.enumerate 0 xs)) @ stack)
      | _ \<Rightarrow> variant_keys ms stack)"
  by pat_completeness auto
termination
proof (relation "measure (\<lambda>(_, stack). size_list (\<lambda>p. 2 * size (snd p)) stack)", goal_cases)
  case (8 ms path node stack d)
  then show ?case using items_weight [of "\<lambda>k. path @ ''/'' @ k" d] by simp
next
  case (7 ms path node stack xs)
  then show ?case using enumerate_weight [of "\<lambda>i. path @ ''/'' @ show_nat i" 0 xs]
    by simp
qed auto

definition schema_case_variant_keys :: "json \<Rightarrow> json \<Rightarrow> string list" where
  "schema_case_variant_keys schema v =
     (case declared_property_mappings schema of (ms, truncated) \<Rightarrow>
        if truncated then (if v \<in> {JNull, JObj [], JArr []} then [] else [''<schema-too-large>''])
        else if concat ms = [] then []
        else sort (variant_keys ms [([], v)]))"

section \<open>Round trips\<close>

lemma unat_small: "n < 256 \<Longrightarrow> unat (of_nat n :: 8 word) = n"
  by (simp add: unat_of_nat)

lemma utf8_dec_char: "utf8_dec (utf8_char c @ bs) = map_option (Cons c) (utf8_dec bs)"
proof -
  have n: "ord_of c < 256" by (simp add: ord_of_def)
  have c: "char_of (ord_of c) = c" by (simp add: ord_of_def)
  show ?thesis
  proof (cases "ord_of c < 128")
    case True
    then show ?thesis using c by (simp add: utf8_char_def Let_def unat_of_nat)
  next
    case False
    then have q: "ord_of c div 64 = 2 \<or> ord_of c div 64 = 3" using n by auto
    have m: "ord_of c = ord_of c div 64 * 64 + ord_of c mod 64" by simp
    have u: "unat (of_nat (192 + ord_of c div 64) :: 8 word) = 192 + ord_of c div 64"
      "unat (of_nat (128 + ord_of c mod 64) :: 8 word) = 128 + ord_of c mod 64"
      by (rule unat_small; use q in auto)+
    have w: "(of_nat (192 + ord_of c div 64) :: 8 word) = 194 \<or> (of_nat (192 + ord_of c div 64) :: 8 word) = 195"
      using q by auto
    have e: "utf8_char c = [of_nat (192 + ord_of c div 64), of_nat (128 + ord_of c mod 64)]"
      using False by (simp add: utf8_char_def Let_def)
    show ?thesis unfolding e append_Cons append_Nil utf8_dec.simps u list.case
      using w c q m by auto
  qed
qed

lemma utf8_dec_utf8: "utf8_dec (utf8 s) = Some s"
  by (induction s) (simp_all add: utf8_def utf8_dec_char)

lemma url_std_char: "n < 64 \<Longrightarrow> url_char (std_char (b64_char n)) = b64_char n"
  and std_alphabet_char: "n < 64 \<Longrightarrow> std_alphabet (std_char (b64_char n))"
proof -
  assume n: "n < 64"
  have o: "ord_of (b64_char n) = (if n < 26 then 65 + n
     else if n < 52 then 71 + n else if n < 62 then n - 4 else if n = 62 then 45 else 95)"
    by (rule ord_b64_char [OF n])
  have big: "n < 62 \<or> n = 62 \<or> n = 63" "b64_char 62 = CHR ''-''" "b64_char 63 = CHR ''_''"
    using n by (linarith, code_simp, code_simp)
  show "url_char (std_char (b64_char n)) = b64_char n"
  proof (cases "n < 62")
    case True
    then have "ord_of (b64_char n) \<notin> {43, 45, 47, 95}" using o by auto
    then have "b64_char n \<noteq> CHR ''-''" "b64_char n \<noteq> CHR ''_''" "b64_char n \<noteq> CHR ''+''" "b64_char n \<noteq> CHR ''/''"
      by (auto simp: ord_of_def)
    then show ?thesis by (simp add: url_char_def std_char_def)
  next
    case False
    with big show ?thesis by (auto simp: url_char_def std_char_def)
  qed
  show "std_alphabet (std_char (b64_char n))"
  proof (cases "n < 62")
    case True
    then have "b64_char n \<noteq> CHR ''-''" "b64_char n \<noteq> CHR ''_''" using o by (auto simp: ord_of_def split: if_splits)
    with True o show ?thesis by (auto simp: std_alphabet_def std_char_def is_alpha_def is_digit_def)
  next
    case False
    with big show ?thesis by (auto simp: std_alphabet_def std_char_def)
  qed
qed

lemma url_std_b64: "map url_char (map std_char (b64_url bs)) = b64_url bs"
  unfolding map_map by (rule map_idI) (use b64_url_chars url_std_char in \<open>auto simp: comp_def\<close>)

lemma b64_std_chars: "c \<in> set (map std_char (b64_url bs)) \<Longrightarrow> std_alphabet c \<and> c \<noteq> CHR ''=''"
proof -
  assume "c \<in> set (map std_char (b64_url bs))"
  then obtain n where "n < 64" "c = std_char (b64_char n)" using b64_url_chars [of _ bs] by auto
  moreover have "\<not> std_alphabet CHR ''=''" by (simp add: std_alphabet_def is_alpha_def is_digit_def ord_of_def)
  ultimately show ?thesis using std_alphabet_char by metis
qed

lemma unb64_std_b64: "unb64_std (b64_std bs) = Some bs"
proof -
  let ?body = "map std_char (b64_url bs)"
  have tw: "takeWhile (\<lambda>c. c = CHR ''='') (rev (b64_std bs)) = replicate (b64_pad bs) (CHR ''='')"
  proof -
    have "takeWhile (\<lambda>c. c = CHR ''='') (rev ?body) = []"
    proof (cases "rev ?body")
      case (Cons c r)
      then have "c \<in> set ?body" by (metis list.set_intros(1) set_rev)
      then have "c \<noteq> CHR ''=''" using b64_std_chars [of c bs] by blast
      with Cons show ?thesis by simp
    qed simp
    then have "takeWhile (\<lambda>c. c = CHR ''='') (replicate (b64_pad bs) (CHR ''='') @ rev ?body)
        = replicate (b64_pad bs) (CHR ''='') @ []"
      by (subst takeWhile_append2) (simp, simp only:)
    then show ?thesis unfolding b64_std_def rev_append rev_replicate append_Nil2 .
  qed
  have pad: "b64_pad bs = (4 - length (b64_url bs) mod 4) mod 4" by (simp add: b64_pads b64_pad_def)
  have fill: "(n + (4 - n mod 4) mod 4) mod 4 = 0" for n :: nat
  proof -
    have e: "(n + (4 - n mod 4) mod 4) mod 4 = (n mod 4 + (4 - n mod 4)) mod 4"
      by (metis mod_add_left_eq mod_add_right_eq)
    have "n mod 4 \<le> 4" by (simp add: less_imp_le)
    then show ?thesis unfolding e by simp
  qed
  have "(length (b64_url bs) + b64_pad bs) mod 4 = 0" unfolding pad by (rule fill)
  moreover have "b64_pad bs \<le> 2" by (auto simp: b64_pad_def split: nat.splits)
  moreover have "list_all std_alphabet ?body" unfolding list_all_iff using b64_std_chars by blast
  moreover have "a2b (map url_char ?body @ replicate (b64_pad bs) (CHR ''='')) 0 0 0 = Some bs"
    unfolding url_std_b64 b64_pad_def by (rule a2b_b64)
  ultimately show ?thesis by (simp add: unb64_std_def tw Let_def) (simp add: b64_std_def)
qed

lemma header_char_encoded: "list_all header_char (encode_header_value v)"
proof (cases "v = strip v \<and> list_all header_char v \<and> \<not> is_sentinel v")
  case False
  have "header_char c" if "std_alphabet c" for c
    using that by (auto simp: std_alphabet_def header_char_def is_alpha_def is_digit_def ord_of_def)
  then have "list_all header_char (b64_std (utf8 v))"
    using b64_std_chars [of _ "utf8 v"] by (auto simp: b64_std_def list_all_iff header_char_def ord_of_def)
  then show ?thesis unfolding encode_header_value_def if_not_P [OF False]
    by (simp add: b64_prefix_def b64_suffix_def header_char_def ord_of_def)
qed (auto simp: encode_header_value_def)

text \<open>
  Header values round trip: what \<open>encode_header_value\<close> writes, \<open>decode_header_value\<close> reads
  back, for every text; so two different names never share a header value.  And whatever the
  text, the value consists of printable ASCII and tabs, so no name can break out of its header.
\<close>

theorem header_value_roundtrip:
  "decode_header_value (encode_header_value v) = Some v \<and> list_all header_char (encode_header_value v)"
proof (cases "v = strip v \<and> list_all header_char v \<and> \<not> is_sentinel v")
  case True
  then show ?thesis by (simp add: encode_header_value_def decode_header_value_def)
next
  case False
  let ?e = "b64_prefix @ b64_std (utf8 v) @ b64_suffix"
  have "encode_header_value v = ?e" unfolding encode_header_value_def if_not_P [OF False] ..
  moreover have "is_sentinel ?e"
    by (simp add: is_sentinel_def starts_with_def ends_with_def b64_prefix_def b64_suffix_def)
  moreover have "take (length ?e - 11) (drop 9 ?e) = b64_std (utf8 v)"
    by (simp add: b64_prefix_def b64_suffix_def)
  ultimately show ?thesis
    using header_char_encoded [of v] by (simp add: decode_header_value_def unb64_std_b64 utf8_dec_utf8)
qed

section \<open>Annotations\<close>

lemma valid_annotations_ok:
  "(name, path) \<in> set (valid_annotations seen as) \<Longrightarrow> is_token name \<and> lower name \<notin> set seen
     \<and> (\<exists>t. (name, path, t) \<in> set as \<and> annotation_type t \<in> {JStr ''string'', JStr ''integer'', JStr ''boolean''})"
  by (induction seen as rule: valid_annotations.induct) (auto split: if_splits)

lemma valid_annotations_distinct: "distinct (map (\<lambda>a. lower (fst a)) (valid_annotations seen as))"
proof (induction seen as rule: valid_annotations.induct)
  case (2 seen name path t as)
  have "lower name \<notin> (\<lambda>a. lower (fst a)) ` set (valid_annotations (lower name # seen) as)"
    using valid_annotations_ok [of _ _ "lower name # seen" as] by fastforce
  with 2 show ?case by auto
qed simp

section \<open>Case variants\<close>

text \<open>The values inside a value, the keys at any depth, and the declared names of a schema.\<close>

inductive sub_json :: "json \<Rightarrow> json \<Rightarrow> bool" where
  here: "sub_json v v"
| obj: "(k, w) \<in> set d \<Longrightarrow> sub_json x w \<Longrightarrow> sub_json x (JObj d)"
| arr: "w \<in> set xs \<Longrightarrow> sub_json x w \<Longrightarrow> sub_json x (JArr xs)"

inductive_simps sub_json_simps:
  "sub_json x JNull" "sub_json x (JBool b)" "sub_json x (JInt i)" "sub_json x (JFloat f)" "sub_json x (JStr s)"
  "sub_json x (JArr xs)" "sub_json x (JObj d)"

lemma sub_json_obj: "sub_json x (JObj d) \<longleftrightarrow> x = JObj d \<or> (\<exists>w \<in> snd ` set d. sub_json x w)"
  unfolding sub_json_simps by force

lemma sub_json_arr: "sub_json x (JArr xs) \<longleftrightarrow> x = JArr xs \<or> (\<exists>w \<in> set xs. sub_json x w)"
  unfolding sub_json_simps by blast

definition keys_within :: "json \<Rightarrow> string set" where
  "keys_within v = {k. \<exists>d. sub_json (JObj d) v \<and> k \<in> fst ` set d}"

definition declarations :: "json \<Rightarrow> string list set" where
  "declarations schema = {map fst props | d props. sub_json (JObj d) schema \<and> get_or_null d ''properties'' = JObj props}"

lemma keys_within_simps:
  "keys_within JNull = {}" "keys_within (JBool b) = {}" "keys_within (JInt i) = {}" "keys_within (JFloat f) = {}"
  "keys_within (JStr s) = {}" "keys_within (JArr xs) = (\<Union>x \<in> set xs. keys_within x)"
  "keys_within (JObj d) = fst ` set d \<union> (\<Union>x \<in> snd ` set d. keys_within x)"
proof -
  show "keys_within (JArr xs) = (\<Union>x \<in> set xs. keys_within x)"
    unfolding keys_within_def sub_json_arr by blast
  have dist: "(\<exists>d'. (d' = d \<or> (\<exists>w \<in> W. Q d' w)) \<and> k \<in> F d') \<longleftrightarrow> k \<in> F d \<or> (\<exists>w \<in> W. \<exists>d'. Q d' w \<and> k \<in> F d')"
    for k :: string and F :: "(string \<times> json) list \<Rightarrow> string set" and Q :: "_ \<Rightarrow> json \<Rightarrow> bool" and W
    by blast
  have "k \<in> keys_within (JObj d) \<longleftrightarrow> k \<in> fst ` set d \<or> (\<exists>x \<in> snd ` set d. k \<in> keys_within x)" for k
    unfolding keys_within_def sub_json_obj mem_Collect_eq json.inject by (rule dist)
  then show "keys_within (JObj d) = fst ` set d \<union> (\<Union>x \<in> snd ` set d. keys_within x)"
    by (simp only: set_eq_iff Un_iff UN_iff simp_thms)
qed (simp_all add: keys_within_def sub_json_simps)

lemma declarations_simps:
  "declarations JNull = {}" "declarations (JBool b) = {}" "declarations (JInt i) = {}" "declarations (JFloat f) = {}"
  "declarations (JStr s) = {}" "declarations (JArr xs) = (\<Union>x \<in> set xs. declarations x)"
  "declarations (JObj d) = (case get_or_null d ''properties'' of JObj props \<Rightarrow> {map fst props} | _ \<Rightarrow> {})
     \<union> (\<Union>x \<in> snd ` set d. declarations x)"
proof -
  show "declarations (JArr xs) = (\<Union>x \<in> set xs. declarations x)"
    unfolding declarations_def sub_json_arr by blast
  have "m \<in> declarations (JObj d) \<longleftrightarrow> (\<exists>props. get_or_null d ''properties'' = JObj props \<and> m = map fst props)
      \<or> (\<exists>x \<in> snd ` set d. m \<in> declarations x)" for m
    unfolding declarations_def sub_json_obj mem_Collect_eq json.inject by blast
  then show "declarations (JObj d) = (case get_or_null d ''properties'' of JObj props \<Rightarrow> {map fst props} | _ \<Rightarrow> {})
     \<union> (\<Union>x \<in> snd ` set d. declarations x)" by (auto split: json.splits)
qed (simp_all add: declarations_def sub_json_simps)

lemma declared_maps_set:
  "declared_maps stack seen ms = (ms', False) \<Longrightarrow> set ms' = set ms \<union> (\<Union>x \<in> set stack. declarations x)"
proof (induction stack seen ms rule: declared_maps.induct)
  case (2 node stack seen ms)
  then show ?case
    by (cases node) (auto simp: declarations_simps split: if_splits json.splits)
qed simp

lemma variant_keys_Nil:
  "variant_keys ms stack = [] \<longleftrightarrow> (\<forall>x \<in> snd ` set stack. \<forall>k \<in> keys_within x. \<not> bad_key ms k)"
proof (induction ms stack rule: variant_keys.induct)
  case (2 ms path node stack)
  have e: "snd ` (\<lambda>(k, v). (path @ ''/'' @ k, v)) ` set d = snd ` set d" for d :: "(string \<times> json) list"
    by force
  have f: "snd ` (\<lambda>(i, x). (path @ ''/'' @ show_nat i, x)) ` set (List.enumerate 0 xs) = set xs" for xs :: "json list"
    by (simp add: image_image case_prod_unfold) (metis list.set_map map_snd_enumerate)
  show ?case
  proof (cases node)
    case (JArr xs)
    have "snd ` set (rev (map (\<lambda>(i, x). (path @ ''/'' @ show_nat i, x)) (List.enumerate 0 xs)) @ stack)
        = set xs \<union> snd ` set stack"
      unfolding set_append set_rev set_map image_Un f ..
    with 2(6) [OF JArr] JArr show ?thesis
      by (simp only: variant_keys.simps json.case snd_conv image_insert list.set(2)) (auto simp: keys_within_simps)
  next
    case (JObj d)
    have "snd ` set (rev (map (\<lambda>(k, v). (path @ ''/'' @ k, v)) d) @ stack) = snd ` set d \<union> snd ` set stack"
      unfolding set_append set_rev set_map image_Un e ..
    moreover have "map (\<lambda>(k, v). path @ ''/'' @ k) (filter (\<lambda>(k, v). bad_key ms k) d) = []
        \<longleftrightarrow> (\<forall>k \<in> fst ` set d. \<not> bad_key ms k)"
      by (auto simp: filter_empty_conv)
    ultimately show ?thesis using 2(7) [OF JObj] JObj
      by (simp only: variant_keys.simps json.case snd_conv image_insert list.set(2) append_is_Nil_conv) (auto simp: keys_within_simps)
  qed (use 2 in \<open>simp_all add: keys_within_simps\<close>)
qed simp

text \<open>Which keys are flagged, without the grouping.\<close>

definition exact_key :: "string list set \<Rightarrow> string \<Rightarrow> bool" where
  "exact_key D k = (\<forall>m \<in> D. \<forall>n \<in> set m. casefold n = casefold k \<longrightarrow>
     (\<exists>m' \<in> D. k \<in> set m') \<and> (n \<noteq> k \<longrightarrow> (\<forall>m' \<in> D. n \<in> set m' \<longleftrightarrow> k \<in> set m')))"

lemma coset:
  assumes "k \<in> S"
  shows "(\<forall>m \<in> M. (\<exists>n \<in> S. n \<in> set m) \<longrightarrow> S \<subseteq> set m)
    \<longleftrightarrow> (\<forall>n \<in> S. n \<noteq> k \<longrightarrow> (\<forall>m \<in> M. n \<in> set m \<longleftrightarrow> k \<in> set m))" (is "?L \<longleftrightarrow> ?R")
proof
  assume ?L
  show ?R
  proof (intro ballI impI)
    fix n m
    assume "n \<in> S" "m \<in> M"
    with \<open>?L\<close> assms have "n \<in> set m \<or> k \<in> set m \<Longrightarrow> S \<subseteq> set m" by blast
    with \<open>n \<in> S\<close> assms show "n \<in> set m \<longleftrightarrow> k \<in> set m" by blast
  qed
next
  assume ?R
  show ?L
  proof (intro ballI impI subsetI)
    fix m x
    assume m: "m \<in> M" "\<exists>n \<in> S. n \<in> set m" and x: "x \<in> S"
    from m(2) obtain n where n: "n \<in> S" "n \<in> set m" by blast
    have "k \<in> set m" using n m(1) \<open>?R\<close> by (cases "n = k") auto
    then show "x \<in> set m" using x m(1) \<open>?R\<close> by (cases "x = k") auto
  qed
qed

lemma bad_key_iff: "bad_key ms k \<longleftrightarrow> \<not> exact_key (set ms) k"
proof -
  let ?sp = "spellings ms (casefold k)"
  have sp: "set ?sp = {n. \<exists>m \<in> set ms. n \<in> set m \<and> casefold n = casefold k}" "distinct ?sp"
    by (auto simp: spellings_def)
  have co: "codeclared ms (casefold k) \<longleftrightarrow> length ?sp > 1 \<and>
      (\<forall>m \<in> set ms. (\<exists>n \<in> set ?sp. n \<in> set m) \<longrightarrow> set ?sp \<subseteq> set m)"
    by (auto simp: codeclared_def Let_def list_all_iff list_ex_iff)
  have ex: "exact_key (set ms) k \<longleftrightarrow> (\<forall>n \<in> set ?sp. k \<in> set ?sp \<and>
      (n \<noteq> k \<longrightarrow> (\<forall>m \<in> set ms. n \<in> set m \<longleftrightarrow> k \<in> set m)))"
    unfolding exact_key_def sp(1) by blast
  show ?thesis
  proof (cases "?sp = []")
    case True
    then show ?thesis by (simp add: bad_key_def ex)
  next
    case False
    show ?thesis
    proof (cases "k \<in> set ?sp")
      case k: True
      show ?thesis
      proof (cases "length ?sp = 1")
        case True
        then obtain x where "?sp = [x]" by (auto simp: length_Suc_conv)
        moreover from this k have "exact_key (set ms) k" unfolding ex by simp
        ultimately show ?thesis using k by (simp add: bad_key_def)
      next
        case n: False
        with False have l: "length ?sp > 1" by (cases ?sp) auto
        have "codeclared ms (casefold k) \<longleftrightarrow> exact_key (set ms) k"
          unfolding co ex using k l coset [of k "set ?sp" "set ms"] by (simp add: Bex_def)
        with k n False show ?thesis by (simp add: bad_key_def)
      qed
    next
      case nk: False
      obtain x where "x \<in> set ?sp" using False by (cases ?sp) auto
      with nk False show ?thesis by (auto simp: bad_key_def ex)
    qed
  qed
qed

text \<open>
  C25: An argument object passes the case-variant check exactly when every key at any depth is
  an exact spelling: if some property declared anywhere in the schema equals it up to letter
  case, the key itself is declared, and every object that declares one spelling declares the
  other.  A schema with more than 100000 containers admits only empty arguments.
\<close>

theorem case_variants_rejected:
  "schema_case_variant_keys schema v = [] \<longleftrightarrow>
     (if snd (declared_property_mappings schema) then v \<in> {JNull, JObj [], JArr []}
      else \<forall>k \<in> keys_within v. exact_key (declarations schema) k)"
proof (cases "declared_property_mappings schema")
  case (Pair ms truncated)
  show ?thesis
  proof (cases truncated)
    case False
    then have D: "set ms = declarations schema"
      using declared_maps_set [of "[schema]" 0 "[]" ms] Pair by (simp add: declared_property_mappings_def)
    have "variant_keys ms [([], v)] = [] \<longleftrightarrow> (\<forall>k \<in> keys_within v. exact_key (declarations schema) k)"
      unfolding variant_keys_Nil bad_key_iff D by simp
    moreover have "(\<forall>k \<in> keys_within v. exact_key (declarations schema) k)" if "concat ms = []"
      using that unfolding D [symmetric] exact_key_def by auto
    moreover have "sort ks = [] \<longleftrightarrow> ks = []" for ks :: "string list"
      by (metis length_0_conv length_sort)
    ultimately show ?thesis using Pair False by (simp add: schema_case_variant_keys_def)
  qed (simp add: schema_case_variant_keys_def Pair)
qed

theorem case_variants_rejected_witness:
  "schema_case_variant_keys (JObj [(''properties'', JObj [(''region'', JNull)])]) (JArr [JObj [(''REGION'', JInt 1)]]) \<noteq> []"
proof -
  let ?s = "JObj [(''properties'', JObj [(''region'', JNull)])]"
  have d: "declarations ?s = {[''region'']}" by (simp add: declarations_simps get_or_null_def)
  have t: "\<not> snd (declared_property_mappings ?s)"
    by (simp add: declared_property_mappings_def get_or_null_def max_schema_containers_def)
  have "casefold ''REGION'' = casefold ''region''" by code_simp
  then have "\<not> exact_key (declarations ?s) ''REGION''" by (simp add: exact_key_def d)
  then show ?thesis using case_variants_rejected [of ?s "JArr [JObj [(''REGION'', JInt 1)]]"] t
    by (simp add: keys_within_simps)
qed

end
