(* ===== verification/Validation.thy ===== *)
theory Validation
  imports Regex Protocol Engine
begin

text \<open>
  T3: the validation engine (\<open>mcp_armor/engines/validation.py\<close>): the injection, traversal and
  SQL patterns, the recursive scan of arguments with the prose exemption, the schemas learned
  from tool listings, and the request hook.  \<open>str\<close> of the parameters, \<open>json.loads\<close> and the
  JSON Schema validator are the fields of \<open>valid_lib\<close>.  The lemmas show what an accepted
  request cannot contain and that a learned schema is never replaced.
\<close>

section \<open>Patterns\<close>

definition cmd_chain :: "re list" where "cmd_chain = [any_of '';|`'']"
definition cmd_redirect :: "re list" where "cmd_redirect = [any_of ''<>&'']"

definition call_of :: "string \<Rightarrow> re" where "call_of f = seqs [Edge, ilit f, Star sp, any_of ''('']"

definition cmd_shape :: "re list" where
  "cmd_shape =
     [lit ''$('', lit ''${'', call_of ''exec'', call_of ''eval'', call_of ''system'', call_of ''popen'',
      seqs [Edge, ilit ''cmd'', Star sp, any_of ''/'', any_of ''cCkK'', Edge],
      seqs [any_of ''%'', Chr (\<lambda>c. is_alpha c \<or> c = CHR ''_''), Star (Chr word_char), any_of ''%'']]"

definition slashes :: "string" where "slashes = [CHR ''/'', CHR 0x5C]"

definition path_patterns :: "re list" where
  "path_patterns =
     [seqs [lit ''..'', any_of slashes], seqs [any_of slashes, lit ''..''],
      seqs [ilit ''%2e%2e'', alts [any_of slashes, ilit ''%2f'', ilit ''%5c'']],
      ilit ''%252e%252e'', ilit ''/etc/'', ilit ''/proc/self'',
      seqs [alts [ilit ''/root'', seqs [ilit ''/home/'', plus (none_of ''/'')]], ilit ''/.ssh/''],
      seqs [Chr is_alpha, any_of '':'', any_of slashes, alts [ilit ''windows'', ilit ''system32'', ilit ''users'']],
      lit [CHR 0x5C, CHR 0x5C, CHR ''.'', CHR 0x5C, CHR 0x5C]]"

definition sql_patterns :: "re list" where
  "sql_patterns =
     [seqs [any_of [CHR 0x27], Star sp, alts [ilit ''or'', ilit ''and''], plus sp,
        Chr (\<lambda>c. c = CHR 0x27 \<or> c = CHR 0x22 \<or> is_digit c)],
      seqs [Edge, alts [ilit ''or'', ilit ''and''], plus sp, plus dg, Star sp, any_of ''='', Star sp, plus dg],
      seqs [any_of '';'', Star sp, alts (map ilit [''drop'', ''delete'', ''truncate'', ''insert'', ''update'',
        ''alter'', ''create'']), plus sp],
      seqs [ilit ''union'', plus sp, opt (seqs [ilit ''all'', plus sp]), ilit ''select''],
      lit ''--'',
      seqs [lit ''/*'', Star dot, lit ''*/''],
      seqs [Edge, ilit ''xp_'', plus wd],
      seqs [ilit ''waitfor'', plus sp, ilit ''delay''],
      seqs [ilit ''sleep'', Star sp, any_of ''('']]"

section \<open>Engine\<close>

datatype verdict = Conforms | Violates | Broken exn

record valid_lib =
  vl_str :: "(string, json) dict \<Rightarrow> string"   \<comment> \<open>\<open>str(req.params)\<close>\<close>
  vl_repr :: "json \<Rightarrow> string"                 \<comment> \<open>\<open>str\<close> of a value that is not a string\<close>
  vl_loads :: "string \<Rightarrow> loads_result"
  vl_installed :: bool                         \<comment> \<open>\<open>import jsonschema\<close> succeeds\<close>
  vl_check :: "json \<Rightarrow> json \<Rightarrow> verdict"         \<comment> \<open>\<open>Draft7Validator(schema).validate(value)\<close>\<close>

record validation_engine =
  ve_max_payload :: nat
  ve_strict :: bool
  ve_prose :: "string list"
  ve_schemas :: "(json, json) dict"

definition validation_error :: "string \<Rightarrow> exn" where
  "validation_error site = Cosai ValidationError site"

definition new_validation_engine :: "nat \<Rightarrow> bool \<Rightarrow> string list option \<Rightarrow> validation_engine" where
  "new_validation_engine max_payload strict prose =
     \<lparr>ve_max_payload = max_payload, ve_strict = strict,
      ve_prose = (case prose of None \<Rightarrow> [] | Some ps \<Rightarrow> ps), ve_schemas = []\<rparr>"

text \<open>One tool of a listing; a name that cannot be a key raises.\<close>

definition register_tool :: "json \<Rightarrow> validation_engine \<Rightarrow> unit result \<times> validation_engine" where
  "register_tool tool e = (case tool of
     JObj d \<Rightarrow>
       (let name = (case dget d ''name'' of None \<Rightarrow> JStr [] | Some n \<Rightarrow> n) in
        if \<not> truthy name then (Inr (), e)
        else case hash_key name of
          Inl x \<Rightarrow> (Inl x, e)
        | Inr k \<Rightarrow>
            if dhas (ve_schemas e) k then (Inr (), e)
            else (let s = get_or_null d ''inputSchema'' in
              (Inr (), e\<lparr>ve_schemas := ve_schemas e @ [(k, if truthy s then s else JObj [])]\<rparr>)))
   | _ \<Rightarrow> (Inl (PyExc AttributeError ''object has no attribute get''), e))"

fun register_tools :: "json list \<Rightarrow> validation_engine \<Rightarrow> unit result \<times> validation_engine" where
  "register_tools [] e = (Inr (), e)"
| "register_tools (t # ts) e = (case register_tool t e of
     (Inl x, e') \<Rightarrow> (Inl x, e') | (Inr _, e') \<Rightarrow> register_tools ts e')"

definition is_prose_field :: "validation_engine \<Rightarrow> string option \<Rightarrow> bool" where
  "is_prose_field e leaf = (case leaf of None \<Rightarrow> False | Some k \<Rightarrow> k \<in> set (ve_prose e))"

definition refuse :: "re list \<Rightarrow> string \<Rightarrow> string \<Rightarrow> unit result" where
  "refuse ps site v = require (\<not> list_ex (\<lambda>p. found p v) ps) (validation_error site)"

definition scan_injection :: "bool \<Rightarrow> string \<Rightarrow> unit result" where
  "scan_injection prose v =
     bindR (refuse cmd_shape ''Command injection'' v) (\<lambda>_.
     bindR (refuse cmd_chain ''Command injection'' v) (\<lambda>_.
     bindR (if prose then Inr () else refuse cmd_redirect ''Command injection'' v) (\<lambda>_.
     bindR (refuse path_patterns ''Path traversal'' v) (\<lambda>_.
       refuse sql_patterns ''SQL injection'' v))))"

fun scan_all :: "validation_engine \<Rightarrow> string option \<Rightarrow> json \<Rightarrow> unit result"
  and scan_list :: "validation_engine \<Rightarrow> string option \<Rightarrow> json list \<Rightarrow> unit result"
  and scan_items :: "validation_engine \<Rightarrow> (string \<times> json) list \<Rightarrow> unit result" where
  "scan_all e leaf (JStr s) = scan_injection (is_prose_field e leaf) s"
| "scan_all e leaf (JArr xs) = scan_list e leaf xs"
| "scan_all e leaf (JObj d) = scan_items e d"
| "scan_all e leaf _ = Inr ()"
| "scan_list e leaf [] = Inr ()"
| "scan_list e leaf (x # xs) = bindR (scan_all e leaf x) (\<lambda>_. scan_list e leaf xs)"
| "scan_items e [] = Inr ()"
| "scan_items e ((k, v) # d) =
     bindR (scan_injection False k) (\<lambda>_. bindR (scan_all e (Some k) v) (\<lambda>_. scan_items e d))"

section \<open>Schemas\<close>

text \<open>\<open>ConfigError\<close> is a \<open>ValueError\<close>.\<close>

definition no_jsonschema :: exn where
  "no_jsonschema = PyExc ValueError ''ConfigError: jsonschema is not importable''"

definition of_verdict :: "verdict \<Rightarrow> string \<Rightarrow> unit result" where
  "of_verdict v site = (case v of
     Conforms \<Rightarrow> Inr () | Violates \<Rightarrow> Inl (validation_error site) | Broken x \<Rightarrow> Inl x)"

definition validate_schema :: "valid_lib \<Rightarrow> validation_engine \<Rightarrow> json \<Rightarrow> json \<Rightarrow> unit result" where
  "validate_schema lib e args schema =
     (if \<not> vl_installed lib then (if ve_strict e then Inl no_jsonschema else Inr ())
      else if schema_case_variant_keys schema args \<noteq> [] then Inl (validation_error ''case variant of a property'')
      else if ve_strict e
      then (case schema of
              JObj d \<Rightarrow> of_verdict (vl_check lib (JObj (AList.update ''additionalProperties'' (JBool False) d)) args)
                          ''argument schema violation''
            | _ \<Rightarrow> Inl (PyExc TypeError ''not a mapping''))
      else of_verdict (vl_check lib schema args) ''argument schema violation'')"

definition validate_decoded :: "valid_lib \<Rightarrow> json \<Rightarrow> json \<Rightarrow> (string, json) dict \<Rightarrow> string \<Rightarrow> unit result" where
  "validate_decoded lib decoded prop_schema whole key = (case prop_schema of
     JObj ps \<Rightarrow>
       if get_or_null ps ''type'' = JStr ''string'' \<or> \<not> vl_installed lib then Inr ()
       else (case vl_check lib (JObj (AList.delete ''additionalProperties''
               (AList.update ''required'' (JArr [])
                 (AList.update ''properties'' (JObj [(key, prop_schema)]) whole))))
             (JObj [(key, decoded)]) of
           Conforms \<Rightarrow> Inr ()
         | Violates \<Rightarrow> Inl (validation_error ''JSON-encoded argument violates its schema'')
         | Broken _ \<Rightarrow> Inl (validation_error ''JSON-encoded argument could not be validated''))
   | _ \<Rightarrow> Inr ())"

definition tool_schema :: "validation_engine \<Rightarrow> string \<Rightarrow> json" where
  "tool_schema e tool = (case dget (ve_schemas e) (JStr tool) of
     Some s \<Rightarrow> if truthy s then s else JObj [] | None \<Rightarrow> JObj [])"

definition schema_dict :: "json \<Rightarrow> (string, json) dict" where
  "schema_dict s = (case s of JObj d \<Rightarrow> d | _ \<Rightarrow> [])"

definition prop_schema_of :: "json \<Rightarrow> string \<Rightarrow> json" where
  "prop_schema_of schema key = (case get_or_null (schema_dict schema) ''properties'' of
     JObj props \<Rightarrow> get_or_null props key | _ \<Rightarrow> JNull)"

definition decoded_view :: "json \<Rightarrow> json \<Rightarrow> json" where
  "decoded_view schema prop_schema =
     (let part = (\<lambda>k. case dget (schema_dict schema) k of None \<Rightarrow> JObj [] | Some v \<Rightarrow> v) in
      JObj [(''properties'', JObj [(''_'', prop_schema)]), (''$defs'', part ''$defs''), (''definitions'', part ''definitions'')])"

fun scan_decoded :: "valid_lib \<Rightarrow> validation_engine \<Rightarrow> json \<Rightarrow> (string \<times> json) list \<Rightarrow> unit result" where
  "scan_decoded lib e schema [] = Inr ()"
| "scan_decoded lib e schema ((key, decoded) # rest) =
     bindR (scan_all e (Some key) decoded) (\<lambda>_.
     let ps = prop_schema_of schema key in
     bindR (if ve_strict e then validate_decoded lib decoded ps (schema_dict schema) key else Inr ()) (\<lambda>_.
     if ps \<noteq> JNull \<and> schema_case_variant_keys (decoded_view schema ps) decoded \<noteq> []
     then Inl (validation_error ''JSON-encoded argument has case variants'')
     else scan_decoded lib e schema rest))"

definition scan_json_in_string_arguments :: "valid_lib \<Rightarrow> validation_engine \<Rightarrow> json \<Rightarrow> string \<Rightarrow> unit result" where
  "scan_json_in_string_arguments lib e args tool =
     bindR (decoded_json_string_arguments (vl_loads lib) args) (scan_decoded lib e (tool_schema e tool))"

section \<open>Hooks\<close>

definition validation_on_startup :: "valid_lib \<Rightarrow> validation_engine \<Rightarrow> unit result" where
  "validation_on_startup lib e = (if ve_strict e \<and> \<not> vl_installed lib then Inl no_jsonschema else Inr ())"

definition schema_gate :: "valid_lib \<Rightarrow> validation_engine \<Rightarrow> mcp_request \<Rightarrow> json \<Rightarrow> string \<Rightarrow> unit result" where
  "schema_gate lib e req args tool =
     (if \<not> ve_strict e \<or> rq_method req \<noteq> ''tools/call'' \<or> ve_schemas e = [] then Inr ()
      else case dget (ve_schemas e) (JStr tool) of
        None \<Rightarrow> Inl (validation_error ''unknown tool'')
      | Some schema \<Rightarrow>
          if truthy schema then validate_schema lib e (if truthy args then args else JObj []) schema else Inr ())"

definition check_uri :: "json option \<Rightarrow> unit result" where
  "check_uri u = (case u of
     None \<Rightarrow> Inr ()
   | Some (JStr s) \<Rightarrow> scan_injection False s
   | Some _ \<Rightarrow> Inl (validation_error ''uri must be a string''))"

definition validation_on_request :: "valid_lib \<Rightarrow> validation_engine request_hook_fn" where
  "validation_on_request lib c req e =
     (bindR (scannable_strings (vl_loads lib) req) (\<lambda>fs.
      if rq_method req \<notin> set content_bearing_methods \<and> fs = [] then Inr c
      else if length (utf8 (vl_str lib (rq_params req))) > ve_max_payload e
      then Inl (validation_error ''payload too large'')
      else
        let args = get_or_null (rq_params req) ''arguments'';
            tool = str_of (vl_repr lib) (case dget (rq_params req) ''name'' of None \<Rightarrow> JStr [] | Some n \<Rightarrow> n)
        in if args \<noteq> JNull \<and> \<not> is_obj args then Inl (validation_error ''arguments must be an object'')
           else
             bindR (if args = JNull then Inr ()
                    else bindR (scan_all e None args) (\<lambda>_. scan_json_in_string_arguments lib e args tool)) (\<lambda>_.
             bindR (check_uri (dget fs ''uri'')) (\<lambda>_.
             bindR (schema_gate lib e req args tool) (\<lambda>_. Inr c)))), e)"

section \<open>What is scanned\<close>

lemma refuse_ok [simp]: "refuse ps site v = Inr () \<longleftrightarrow> (\<forall>p \<in> set ps. \<not> found p v)"
  by (simp add: refuse_def list_ex_iff)

lemma scan_injection_ok:
  "scan_injection prose v = Inr () \<longleftrightarrow>
     (\<forall>p \<in> set (cmd_shape @ cmd_chain @ (if prose then [] else cmd_redirect) @ path_patterns @ sql_patterns). \<not> found p v)"
  by (auto simp: scan_injection_def bindR_eq_Inr ball_Un)

lemma unit_ok: "(\<exists>x :: unit. P x) \<longleftrightarrow> P ()"
  by (metis (full_types) unit.exhaust)

lemma scan_texts:
  "scan_all e leaf v = Inr () \<longleftrightarrow> (\<forall>(l, s) \<in> set (texts leaf v). scan_injection (is_prose_field e l) s = Inr ())"
  "scan_list e leaf xs = Inr () \<longleftrightarrow> (\<forall>(l, s) \<in> set (list_texts leaf xs). scan_injection (is_prose_field e l) s = Inr ())"
  "scan_items e d = Inr () \<longleftrightarrow> (\<forall>(l, s) \<in> set (item_texts d). scan_injection (is_prose_field e l) s = Inr ())"
  by (induction e leaf v and e leaf xs and e d rule: scan_all_scan_list_scan_items.induct)
     (simp_all add: bindR_eq_Inr ball_Un is_prose_field_def)

lemma scan_decoded_ok:
  "scan_decoded lib e schema ds = Inr () \<Longrightarrow> (key, v) \<in> set ds \<Longrightarrow> scan_all e (Some key) v = Inr ()"
  by (induction lib e schema ds rule: scan_decoded.induct) (auto simp: bindR_eq_Inr Let_def split: if_splits)

text \<open>The stages a request has passed when the hook returns.\<close>

lemma validation_on_request_stages:
  assumes "fst (validation_on_request lib c req e) = Inr c'" and "rq_method req \<in> set content_bearing_methods"
  defines "args \<equiv> get_or_null (rq_params req) ''arguments''"
    and "tool \<equiv> str_of (vl_repr lib) (case dget (rq_params req) ''name'' of None \<Rightarrow> JStr [] | Some n \<Rightarrow> n)"
  obtains fs where "scannable_strings (vl_loads lib) req = Inr fs" "c' = c"
    "length (utf8 (vl_str lib (rq_params req))) \<le> ve_max_payload e" "args = JNull \<or> is_obj args"
    "args \<noteq> JNull \<longrightarrow> scan_all e None args = Inr () \<and> scan_json_in_string_arguments lib e args tool = Inr ()"
    "check_uri (dget fs ''uri'') = Inr ()" "schema_gate lib e req args tool = Inr ()"
proof -
  from assms(1,2) obtain fs where "scannable_strings (vl_loads lib) req = Inr fs" "c' = c"
    "length (utf8 (vl_str lib (rq_params req))) \<le> ve_max_payload e" "args = JNull \<or> is_obj args"
    "bindR (if args = JNull then Inr ()
       else bindR (scan_all e None args) (\<lambda>_. scan_json_in_string_arguments lib e args tool)) (\<lambda>_.
     bindR (check_uri (dget fs ''uri'')) (\<lambda>_. bindR (schema_gate lib e req args tool) (\<lambda>_. Inr c))) = Inr c'"
    unfolding validation_on_request_def args_def tool_def
    by (auto simp: bindR_eq_Inr Let_def split: if_splits)
  then show thesis by (intro that) (auto simp: bindR_eq_Inr split: if_splits)
qed

text \<open>All texts of a request: those of its arguments, of the values decoded from them, and the URI.\<close>

definition request_texts :: "valid_lib \<Rightarrow> mcp_request \<Rightarrow> (string option \<times> string) list" where
  "request_texts lib req =
     texts None (get_or_null (rq_params req) ''arguments'')
     @ (case decoded_json_string_arguments (vl_loads lib) (get_or_null (rq_params req) ''arguments'') of
          Inl _ \<Rightarrow> [] | Inr ds \<Rightarrow> concat (map (\<lambda>(k, v). texts (Some k) v) ds))
     @ texts None (get_or_null (rq_params req) ''uri'')"

lemma dget_append_skip: "\<not> dhas xs k \<Longrightarrow> dget (xs @ ys) k = dget ys k"
  by (induction xs) auto

lemma uri_of_scannable:
  assumes "scannable_strings loads req = Inr fs" and "rq_method req \<in> set content_bearing_methods"
  shows "dget fs ''uri'' = (case get_or_null (rq_params req) ''uri'' of JNull \<Rightarrow> None | u \<Rightarrow> Some u)"
proof -
  let ?u = "case dget (rq_params req) ''uri'' of None \<Rightarrow> [] | Some JNull \<Rightarrow> [] | Some u \<Rightarrow> [(''uri'', u)]"
  let ?n = "case dget (rq_params req) ''name'' of
    Some (JStr s) \<Rightarrow> if s = [] then [] else [(''name'', JStr s)] | _ \<Rightarrow> []"
  have n: "\<not> dhas ?n ''uri''" by (cases "dget (rq_params req) ''name''") (auto split: json.split)
  have "\<exists>pre. fs = pre @ ?u \<and> \<not> dhas pre ''uri''"
  proof (cases "dget (rq_params req) ''arguments'' \<in> {None, Some JNull}")
    case True
    with assms have "fs = ?n @ ?u" by (auto simp: scannable_strings_def Let_def)
    with n show ?thesis by blast
  next
    case False
    then obtain args where a: "dget (rq_params req) ''arguments'' = Some args" "args \<noteq> JNull" by auto
    with assms obtain ds where "fs = (?n @ [(''arguments'', args)]
        @ (if ds = [] then [] else [(''decoded_arguments'', JObj ds)])) @ ?u"
      by (cases args) (auto simp: scannable_strings_def Let_def bindR_eq_Inr)
    moreover have "\<not> dhas (?n @ [(''arguments'', args)]
        @ (if ds = [] then [] else [(''decoded_arguments'', JObj ds)])) ''uri''"
      using n by (simp only: set_append image_Un Un_iff) simp
    ultimately show ?thesis by blast
  qed
  then obtain pre where pre: "fs = pre @ ?u" "\<not> dhas pre ''uri''" by blast
  have "dget fs ''uri'' = dget ?u ''uri''" unfolding pre(1) by (rule dget_append_skip [OF pre(2)])
  then show ?thesis
    by (cases "dget (rq_params req) ''uri''") (simp_all add: get_or_null_def split: json.split)
qed

lemma accepted_texts_scanned:
  assumes ok: "fst (validation_on_request lib c req e) = Inr c'" and m: "rq_method req \<in> set content_bearing_methods"
    and t: "(l, s) \<in> set (request_texts lib req)"
  shows "scan_injection (is_prose_field e l) s = Inr ()"
proof (rule validation_on_request_stages [OF ok m], goal_cases)
  case (1 fs)
  let ?args = "get_or_null (rq_params req) ''arguments''"
  consider "(l, s) \<in> set (texts None ?args)"
    | ds k v where "decoded_json_string_arguments (vl_loads lib) ?args = Inr ds" "(k, v) \<in> set ds" "(l, s) \<in> set (texts (Some k) v)"
    | "(l, s) \<in> set (texts None (get_or_null (rq_params req) ''uri''))"
    using t by (cases "decoded_json_string_arguments (vl_loads lib) ?args") (auto simp: request_texts_def)
  then show ?case
  proof cases
    case a: 1
    then have "?args \<noteq> JNull" by auto
    with 1(5) a show ?thesis by (auto simp: scan_texts)
  next
    case d: 2
    then have "?args \<noteq> JNull" by (auto simp: decoded_json_string_arguments_def)
    with 1(5) d(1) have "\<exists>schema. scan_decoded lib e schema ds = Inr ()"
      by (auto simp: scan_json_in_string_arguments_def)
    with d scan_decoded_ok have "scan_all e (Some k) v = Inr ()" by blast
    with d(3) show ?thesis by (auto simp: scan_texts)
  next
    case u: 3
    have "check_uri (case get_or_null (rq_params req) ''uri'' of JNull \<Rightarrow> None | u \<Rightarrow> Some u) = Inr ()"
      using 1(6) by (simp only: uri_of_scannable [OF 1(1) m])
    with u show ?thesis by (auto simp: check_uri_def is_prose_field_def split: json.splits)
  qed
qed

section \<open>Properties\<close>

text \<open>A text that contains a full match of a pattern without \<open>\b\<close> is found.\<close>

lemma found_within: "list_ex (\<lambda>y. snd y = []) (outs r (None, u)) \<Longrightarrow> edge_free r \<Longrightarrow> found r (a @ u @ b)"
proof -
  assume "list_ex (\<lambda>y. snd y = []) (outs r (None, u))" and ef: "edge_free r"
  then obtain q where "matches r (None, u) (q, [])" by (auto simp: list_ex_iff outs_matches)
  then show ?thesis by (rule found_edge_free) (rule ef)
qed

definition contains :: "string \<Rightarrow> string \<Rightarrow> bool" where
  "contains u s = (\<exists>a b. s = a @ u @ b)"

text \<open>What no scanned text contains.\<close>

definition harmless :: "string \<Rightarrow> bool" where
  "harmless s \<longleftrightarrow> (\<forall>ch \<in> set s. ch \<notin> set '';|`'')
     \<and> (\<forall>u \<in> {''$('', ''${'', ''../'', ''..'' @ [CHR 0x5C], ''/..'', ''--''}. \<not> contains u s)
     \<and> (\<forall>u. lower u \<in> {''/etc/'', ''/proc/self'', ''%252e%252e''} \<longrightarrow> \<not> contains u s)"

lemma clean_harmless:
  assumes "scan_injection prose s = Inr ()"
  shows "harmless s" and "prose \<or> (\<forall>ch \<in> set s. ch \<notin> set ''<>&'')"
proof -
  have c: "\<not> found p s" if "p \<in> set (cmd_shape @ cmd_chain @ path_patterns @ sql_patterns)" for p
    using assms that by (auto simp: scan_injection_ok)
  have "\<not> found (any_of '';|`'') s" "\<not> found (lit ''$('') s" "\<not> found (lit ''${'') s" "\<not> found (lit ''--'') s"
    "\<not> found (ilit ''/etc/'') s" "\<not> found (ilit ''/proc/self'') s" "\<not> found (ilit ''%252e%252e'') s"
    "\<not> found (seqs [lit ''..'', any_of slashes]) s" "\<not> found (seqs [any_of slashes, lit ''..'']) s"
    by (rule c, simp add: cmd_chain_def cmd_shape_def path_patterns_def sql_patterns_def)+
  note no = this
  have within: "\<not> contains u s" if "\<not> found r s" "edge_free r" "list_ex (\<lambda>y. snd y = []) (outs r (None, u))" for u r
    using found_within [OF that(3,2)] that(1) by (auto simp: contains_def)
  have "\<not> contains ''../'' s" "\<not> contains (''..'' @ [CHR 0x5C]) s"
    by (rule within [OF no(8)]; code_simp)+
  moreover have "\<not> contains ''/..'' s" by (rule within [OF no(9)]; code_simp)
  moreover have "\<not> contains u s" if "\<not> found (lit u) s" for u using that by (simp add: found_lit contains_def)
  then have "\<not> contains ''$('' s" "\<not> contains ''${'' s" "\<not> contains ''--'' s" using no(2-4) by blast+
  moreover have "\<not> contains u s" if "\<not> found (ilit (lower u)) s" for u using that by (auto simp: found_ilit contains_def)
  then have "lower u \<in> {''/etc/'', ''/proc/self'', ''%252e%252e''} \<Longrightarrow> \<not> contains u s" for u using no(5-7) by force
  moreover have "\<forall>ch \<in> set s. ch \<notin> set '';|`''" using no(1) by (simp add: found_any_of)
  ultimately show "harmless s" unfolding harmless_def by blast
  show "prose \<or> (\<forall>ch \<in> set s. ch \<notin> set ''<>&'')"
    using assms by (auto simp: scan_injection_ok cmd_redirect_def found_any_of split: if_splits)
qed


definition demo_valid :: valid_lib where
  "demo_valid = \<lparr>vl_str = (\<lambda>d. []), vl_repr = (\<lambda>v. []), vl_loads = (\<lambda>s. NotJson), vl_installed = True,
     vl_check = (\<lambda>s v. if v = JObj [(''!'', JStr ''!'')] then Conforms else Violates)\<rparr>"

definition demo_validation :: validation_engine where
  "demo_validation = new_validation_engine 10 True None"

definition demo_valid_ctx :: ctx where "demo_valid_ctx = new_context 0 ''s'' ''http''"

definition demo_call :: mcp_request where
  "demo_call = \<lparr>rq_method = ''tools/call'',
     rq_params = [(''name'', JStr ''t''), (''arguments'', JObj [(''!'', JStr ''!'')])], rq_session_id = ''s'',
     rq_headers = [], rq_query = [], rq_transport = ''http'', rq_header_pairs = []\<rparr>"

lemma demo_call_accepted: "fst (validation_on_request demo_valid demo_valid_ctx demo_call demo_validation) = Inr demo_valid_ctx"
  by code_simp


section \<open>Schemas are pinned\<close>

lemma register_tool_keeps:
  "dget (ve_schemas e) k = Some s \<Longrightarrow> dget (ve_schemas (snd (register_tool t e))) k = Some s"
  by (auto simp: register_tool_def Let_def split: json.splits sum.splits if_splits)

lemma register_tool_config:
  "ve_strict (snd (register_tool t e)) = ve_strict e" "ve_prose (snd (register_tool t e)) = ve_prose e"
  "ve_max_payload (snd (register_tool t e)) = ve_max_payload e"
  by (auto simp: register_tool_def Let_def split: json.splits sum.splits)

text \<open>What every registration keeps, every sequence of listings keeps.\<close>

definition after_listings :: "json list list \<Rightarrow> validation_engine \<Rightarrow> validation_engine" where
  "after_listings ls e = fold (\<lambda>ts e. snd (register_tools ts e)) ls e"

lemma register_tools_keep:
  assumes step: "\<And>t e. P e \<Longrightarrow> P (snd (register_tool t e))" and "P e"
  shows "P (snd (register_tools ts e))"
  using assms(2)
proof (induction ts e rule: register_tools.induct)
  case (2 t ts e)
  obtain r e' where r: "register_tool t e = (r, e')" by (cases "register_tool t e")
  with step [OF 2(2), of t] have p: "P e'" by simp
  show ?case
  proof (cases r)
    case (Inr u)
    then show ?thesis using 2(1) r p by simp
  qed (use r p in simp)
qed simp

lemma after_listings_keep:
  assumes "\<And>t e. P e \<Longrightarrow> P (snd (register_tool t e))" and "P e"
  shows "P (after_listings ls e)"
  unfolding after_listings_def using assms(2)
  by (induction ls arbitrary: e) (simp_all add: register_tools_keep [where P = P, OF assms(1)])

lemma after_listings_keeps:
  "dget (ve_schemas e) k = Some s \<Longrightarrow> dget (ve_schemas (after_listings ls e)) k = Some s"
  by (rule after_listings_keep) (rule register_tool_keeps)

lemma after_listings_config: "ve_strict (after_listings ls e) = ve_strict e"
  by (rule after_listings_keep) (simp_all add: register_tool_config)

lemma of_verdict_ok [simp]: "of_verdict v site = Inr () \<longleftrightarrow> v = Conforms"
  by (auto simp: of_verdict_def split: verdict.splits)

text \<open>
  C22: A learned schema cannot be relaxed.  Once a tool's schema is registered, whatever
  listings are observed afterwards, a call of the tool that the strict engine accepts satisfies
  that very schema with additional properties forbidden, and none of its argument keys differs
  from a declared property only in case; and once any manifest is known, a call of a tool that
  is in none of the listings is refused.
\<close>

theorem schema_is_pinned:
  assumes "ve_strict e" and "rq_method req = ''tools/call''" and "dget (rq_params req) ''name'' = Some (JStr tool)"
    and "ve_schemas e \<noteq> []"
    and "fst (validation_on_request lib c req (after_listings ls e)) = Inr c'"
  shows "(\<exists>s. dget (ve_schemas (after_listings ls e)) (JStr tool) = Some s)
    \<and> (\<forall>d. dget (ve_schemas e) (JStr tool) = Some (JObj d) \<and> d \<noteq> [] \<longrightarrow>
        (let args = get_or_null (rq_params req) ''arguments''; v = (if truthy args then args else JObj []) in
         vl_check lib (JObj (AList.update ''additionalProperties'' (JBool False) d)) v = Conforms
         \<and> schema_case_variant_keys (JObj d) v = []))"
proof -
  let ?e = "after_listings ls e" and ?args = "get_or_null (rq_params req) ''arguments''"
  have m: "rq_method req \<in> set content_bearing_methods" using assms(2) by (simp add: content_bearing_methods_def)
  have gate: "schema_gate lib ?e req ?args tool = Inr ()"
    by (rule validation_on_request_stages [OF assms(5) m]) (use assms(3) in \<open>simp add: str_of_def\<close>)
  obtain k s where "dget (ve_schemas e) k = Some s"
    using assms(4) by (cases "ve_schemas e") (metis fst_conv map_of_Cons_code(2) prod.collapse)+
  then have "dget (ve_schemas ?e) k = Some s" by (rule after_listings_keeps)
  then have ne: "ve_schemas ?e \<noteq> []" by auto
  obtain s where s: "dget (ve_schemas ?e) (JStr tool) = Some s"
    "truthy s \<longrightarrow> validate_schema lib ?e (if truthy ?args then ?args else JObj []) s = Inr ()"
    using gate ne assms(1,2)
    by (auto simp: schema_gate_def after_listings_config split: option.splits if_splits)
  have "vl_check lib (JObj (AList.update ''additionalProperties'' (JBool False) d)) (if truthy ?args then ?args else JObj []) = Conforms
      \<and> schema_case_variant_keys (JObj d) (if truthy ?args then ?args else JObj []) = []"
    if "dget (ve_schemas e) (JStr tool) = Some (JObj d)" "d \<noteq> []" for d
  proof -
    from after_listings_keeps [OF that(1)] s(1) have "s = JObj d" by simp
    with s(2) that(2) assms(1) show ?thesis
      by (auto simp: validate_schema_def after_listings_config split: if_splits)
  qed
  with s(1) show ?thesis by (auto simp: Let_def)
qed

definition demo_registered :: validation_engine where
  "demo_registered = demo_validation\<lparr>ve_schemas := [(JStr ''t'', JObj [(''type'', JStr ''object'')])]\<rparr>"

theorem schema_is_pinned_witness:
  "vl_check demo_valid (JObj [(''type'', JStr ''object''), (''additionalProperties'', JBool False)]) (JObj [(''!'', JStr ''!'')]) = Conforms"
proof -
  let ?ls = "[[JObj [(''name'', JStr ''t''), (''inputSchema'', JNull)]]]"
  have "fst (validation_on_request demo_valid demo_valid_ctx demo_call (after_listings ?ls demo_registered)) = Inr demo_valid_ctx"
    by code_simp
  from schema_is_pinned [OF _ _ _ _ this, where tool = "''t''"] show ?thesis
    by (simp add: demo_registered_def demo_validation_def new_validation_engine_def demo_call_def get_or_null_def Let_def)
qed

text \<open>The pattern for device paths asks for two backslashes after the dot, so such a path passes it.\<close>

lemma device_path_not_found: "scan_injection False ([CHR 0x5C, CHR 0x5C, CHR ''.'', CHR 0x5C, CHR ''C'']) = Inr ()"
  by code_simp

end
