(* ===== verification/Responses.thy ===== *)
theory Responses
  imports Engine
begin

text \<open>
  Responses as the detectors see them (\<open>normalize_for_scan\<close> and \<open>MCPResponse\<close> in
  \<open>mcp_armor/types.py\<close>): the bounded decoding of HTML entities, the escaped and capped body for
  rendering and the full body for scanning.  \<open>html.unescape\<close>, NFKC and \<open>str\<close> of a dictionary
  are the fields of \<open>text_lib\<close>.
\<close>

record text_lib =
  tl_unescape :: "string \<Rightarrow> string"
  tl_nfkc :: "string \<Rightarrow> string"
  tl_str :: "(string, json) dict \<Rightarrow> string"

section \<open>Scan view\<close>

text \<open>At most \<open>n\<close> passes, stopping at a fixed point.\<close>

fun unescape_passes :: "text_lib \<Rightarrow> nat \<Rightarrow> string \<Rightarrow> string" where
  "unescape_passes lib 0 s = s"
| "unescape_passes lib (Suc n) s =
     (let t = tl_unescape lib s in if t = s then s else unescape_passes lib n t)"

definition bidi_char :: "char \<Rightarrow> bool" where
  "bidi_char c = ((8234 \<le> ord_of c \<and> ord_of c \<le> 8238) \<or> (8294 \<le> ord_of c \<and> ord_of c \<le> 8297))"

definition strip_bidi :: "string \<Rightarrow> string" where
  "strip_bidi s = filter (\<lambda>c. \<not> bidi_char c) s"

definition normalize_for_scan :: "text_lib \<Rightarrow> string \<Rightarrow> string" where
  "normalize_for_scan lib s = tl_nfkc lib (strip_bidi (unescape_passes lib 3 s))"

section \<open>Escaped view\<close>

text \<open>\<open>html.escape(s, quote=True)\<close>.\<close>

definition escape_char :: "char \<Rightarrow> string" where
  "escape_char c =
     (if c = CHR ''&'' then ''&amp;'' else if c = CHR ''<'' then ''&lt;'' else if c = CHR ''>'' then ''&gt;''
      else if c = CHR 0x22 then ''&quot;'' else if c = CHR 0x27 then ''&#x27;'' else [c])"

definition html_escape :: "string \<Rightarrow> string" where
  "html_escape s = concat (map escape_char s)"

definition render_cap :: nat where "render_cap = 65536"

section \<open>Construction\<close>

text \<open>\<open>__post_init__\<close>: a missing scan view is derived from the rendered one.\<close>

definition new_response :: "text_lib \<Rightarrow> (string, json) dict option \<Rightarrow> (string, json) dict option
    \<Rightarrow> string \<Rightarrow> string \<Rightarrow> mcp_response" where
  "new_response lib result err raw scan =
     \<lparr>rs_result = result, rs_error = err, rs_raw_body = raw,
      rs_scan_body = (if scan = [] \<and> raw \<noteq> [] then normalize_for_scan lib raw else scan)\<rparr>"

definition dict_field :: "(string, json) dict \<Rightarrow> string \<Rightarrow> (string, json) dict option" where
  "dict_field d k = (case dget d k of Some (JObj kvs) \<Rightarrow> Some kvs | _ \<Rightarrow> None)"

definition response_from_dict :: "text_lib \<Rightarrow> (string, json) dict \<Rightarrow> mcp_response" where
  "response_from_dict lib d =
     (let raw = tl_str lib d in
      new_response lib (dict_field d ''result'') (dict_field d ''error'')
        (html_escape (take render_cap raw)) (normalize_for_scan lib raw))"

definition response_from_text :: "text_lib \<Rightarrow> string \<Rightarrow> mcp_response" where
  "response_from_text lib s =
     new_response lib None None (html_escape (take render_cap s)) (normalize_for_scan lib s)"

section \<open>Facts\<close>

lemma escape_char_safe: "c \<in> set (escape_char d) \<Longrightarrow> c \<notin> {CHR ''<'', CHR ''>'', CHR 0x22, CHR 0x27}"
  by (auto simp: escape_char_def split: if_splits)

lemma escape_char_length: "1 \<le> length (escape_char c)" "length (escape_char c) \<le> 6"
  by (auto simp: escape_char_def)

lemma html_escape_safe: "c \<in> set (html_escape s) \<Longrightarrow> c \<notin> {CHR ''<'', CHR ''>'', CHR 0x22, CHR 0x27}"
  using escape_char_safe by (fastforce simp: html_escape_def)

lemma html_escape_length: "length s \<le> length (html_escape s)" "length (html_escape s) \<le> 6 * length s"
proof (induction s)
  case (Cons c s)
  { case 1 then show ?case using Cons escape_char_length [of c] by (simp add: html_escape_def) }
  { case 2 then show ?case using Cons escape_char_length [of c] by (simp add: html_escape_def) }
qed (simp_all add: html_escape_def)

lemma escape_char_prefix_free: "escape_char c @ u = escape_char d @ v \<Longrightarrow> c = d \<and> u = v"
  by (auto simp: escape_char_def split: if_splits)

text \<open>Escaping loses nothing: different texts have different renderings.\<close>

lemma html_escape_inj: "html_escape s = html_escape t \<longleftrightarrow> s = t"
proof
  show "html_escape s = html_escape t \<Longrightarrow> s = t"
  proof (induction s arbitrary: t)
    case Nil
    then have "html_escape t = []" by (simp add: html_escape_def)
    with html_escape_length(1) [of t] show ?case by simp
  next
    case (Cons c s)
    have "t \<noteq> []"
    proof
      assume "t = []"
      with Cons.prems have "html_escape (c # s) = []" by (simp add: html_escape_def)
      with html_escape_length(1) [of "c # s"] show False by simp
    qed
    then obtain d t' where t: "t = d # t'" by (cases t) auto
    with Cons.prems have "escape_char c @ html_escape s = escape_char d @ html_escape t'"
      by (simp add: html_escape_def)
    from escape_char_prefix_free [OF this] Cons.IH t show ?case by blast
  qed
qed simp

lemma strip_bidi_id: "strip_bidi s = s"
proof -
  have "\<not> bidi_char c" for c
  proof -
    have "ord_of c < 256" by (simp add: ord_of_def)
    then show ?thesis by (simp add: bidi_char_def)
  qed
  then show ?thesis by (simp add: strip_bidi_def)
qed

end
