(* ===== verification/Protection.thy ===== *)
theory Protection
  imports Regex Responses
begin

text \<open>
  T5: data protection (\<open>mcp_armor/engines/protection.py\<close>): the profiles, the patterns of
  personal data and secrets, and the response hook that blocks a body showing one of them.
\<close>

section \<open>Profiles and patterns\<close>

definition profiles :: "(string, string list) dict" where
  "profiles =
     [(''minimal'', [''jwt'', ''api_key'']),
      (''pci'', [''ssn'', ''credit_card'', ''jwt'', ''api_key'']),
      (''hipaa'', [''ssn'', ''credit_card'', ''email'', ''phone'', ''jwt'', ''api_key'']),
      (''gdpr'', [''ssn'', ''credit_card'', ''email'', ''phone'', ''jwt'', ''api_key'']),
      (''strict'', [''ssn'', ''credit_card'', ''email'', ''phone'', ''jwt'', ''api_key''])]"

definition active_types :: "string \<Rightarrow> string list" where
  "active_types profile = (case dget profiles profile of
     Some ts \<Rightarrow> ts | None \<Rightarrow> [''ssn'', ''credit_card'', ''jwt'', ''api_key''])"

definition ascii_digit :: re where "ascii_digit = Chr is_digit"
definition range_of :: "string \<Rightarrow> re" where "range_of cs = Chr (\<lambda>c. is_alpha c \<or> is_digit c \<or> c \<in> set cs)"
definition at_least :: "nat \<Rightarrow> re \<Rightarrow> re" where "at_least n r = Seq (rep n r) (Star r)"

definition ssn_pattern :: re where
  "ssn_pattern = seqs [Edge, rep 3 dg, lit ''-'', rep 2 dg, lit ''-'', rep 4 dg, Edge]"

definition credit_card_pattern :: re where
  "credit_card_pattern = seqs [Edge, alts
     [seqs [lit ''4'', rep 12 ascii_digit, opt (rep 3 ascii_digit)],
      seqs [lit ''5'', any_of ''12345'', rep 14 ascii_digit],
      seqs [lit ''3'', any_of ''47'', rep 13 ascii_digit]], Edge]"

definition email_pattern :: re where
  "email_pattern = seqs [Edge, plus (range_of ''._%+-''), lit ''@'', plus (range_of ''.-''), lit ''.'',
     at_least 2 (Chr is_alpha), Edge]"

definition phone_sep :: re where "phone_sep = opt (Chr (\<lambda>c. c = CHR ''-'' \<or> c = CHR ''.'' \<or> py_space c))"

definition phone_pattern :: re where
  "phone_pattern = seqs [Edge, opt (seqs [opt (lit ''+''), lit ''1'', phone_sep]), opt (lit ''(''), rep 3 dg,
     opt (lit '')''), phone_sep, rep 3 dg, phone_sep, rep 4 dg, Edge]"

definition jwt_pattern :: re where
  "jwt_pattern = seqs [lit ''eyJ'', at_least 10 (range_of ''_-''), lit ''.'', at_least 10 (range_of ''_-''), lit ''.'',
     at_least 10 (range_of ''_-'')]"

definition quote_mark :: re where "quote_mark = opt (Chr (\<lambda>c. c = CHR 0x22 \<or> c = CHR 0x27))"

definition api_key_pattern :: re where
  "api_key_pattern = seqs [alts [seqs [ilit ''api'', opt (any_of ''_-''), ilit ''key''], ilit ''token'', ilit ''secret''],
     quote_mark, Star sp, any_of '':='', Star sp, quote_mark, at_least 16 (range_of ''_-'')]"

definition all_patterns :: "(string \<times> re) list" where
  "all_patterns = [(''ssn'', ssn_pattern), (''credit_card'', credit_card_pattern), (''email'', email_pattern),
     (''phone'', phone_pattern), (''jwt'', jwt_pattern), (''api_key'', api_key_pattern)]"

section \<open>Engine\<close>

record protection_engine =
  pe_active :: "string list"
  pe_patterns :: "(string \<times> re) list"

definition new_protection_engine :: "string \<Rightarrow> protection_engine" where
  "new_protection_engine profile = (let ts = active_types profile in
     \<lparr>pe_active = ts, pe_patterns = filter (\<lambda>p. fst p \<in> set ts) all_patterns\<rparr>)"

definition pii_error :: exn where "pii_error = Cosai PIILeakError ''PII detected in tool response''"

definition protection_on_response :: "protection_engine response_hook_fn" where
  "protection_on_response c resp e =
     ((if rs_scan_body resp = [] then Inr c
       else if list_ex (\<lambda>p. found (snd p) (rs_scan_body resp)) (pe_patterns e) then Inl pii_error
       else Inr c), e)"

interpretation protection_rs: response_hook protection_on_response
  by unfold_locales (auto simp: protection_on_response_def split: if_splits)

section \<open>What is blocked\<close>

text \<open>A match between non-word characters is found, wherever it stands.\<close>

lemma found_delimited:
  assumes "matches r (None, u) (Some (last u), [])" and "u \<noteq> []"
    and "a = [] \<or> \<not> re_word (last a)" and "b = [] \<or> \<not> re_word (hd b)"
    and "re_word (hd u)" and "re_word (last u)" and "edge_free r"
  shows "found (seqs [Edge, r, Edge]) (a @ u @ b)"
proof -
  let ?p = "prev_of None a"
  have "matches r (?p, u @ b) (prev_of ?p u, b)"
    by (rule matches_local [of r None u "[]" "Some (last u)"]) (use assms(1,7) in \<open>simp_all add: fits_def\<close>)
  moreover have "matches Edge (?p, u @ b) (?p, u @ b)"
    using assms(2,3,5) by (cases u) (auto simp: word_before_def word_after_def prev_of_def)
  moreover have "matches Edge (prev_of ?p u, b) (prev_of ?p u, b)"
    using assms(2,4,6) by (cases b) (auto simp: word_before_def word_after_def prev_of_def)
  ultimately have "matches (seqs [Edge, r, Edge]) (?p, u @ b) (prev_of ?p u, b)" by auto
  then show ?thesis unfolding found_iff by blast
qed

lemma digit_word: "is_digit c \<Longrightarrow> re_word c"
  by (simp add: re_word_def word_char_def)

lemma matches_rep_chars:
  "matches (rep n (Chr P)) (p, s) y \<longleftrightarrow> (\<exists>u v. s = u @ v \<and> length u = n \<and> (\<forall>c \<in> set u. P c) \<and> y = (prev_of p u, v))"
proof (induction n arbitrary: p s)
  case (Suc n)
  have "matches (rep (Suc n) (Chr P)) (p, s) y \<longleftrightarrow>
      (\<exists>d t. s = d # t \<and> P d \<and> matches (rep n (Chr P)) (Some d, t) y)" by auto
  also have "\<dots> \<longleftrightarrow> (\<exists>d u v. s = d # u @ v \<and> P d \<and> length u = n \<and> (\<forall>c \<in> set u. P c) \<and> y = (prev_of (Some d) u, v))"
    unfolding Suc.IH by blast
  also have "\<dots> \<longleftrightarrow> (\<exists>u v. s = u @ v \<and> length u = Suc n \<and> (\<forall>c \<in> set u. P c) \<and> y = (prev_of p u, v))"
    unfolding length_Suc_conv by (rule iffI) (force simp: prev_of_def)+
  finally show ?case .
qed auto

text \<open>The shape of a social security number.\<close>

definition is_ssn :: "string \<Rightarrow> bool" where
  "is_ssn u = (\<exists>x y z. u = x @ ''-'' @ y @ ''-'' @ z \<and> length x = 3 \<and> length y = 2 \<and> length z = 4
     \<and> (\<forall>c \<in> set (x @ y @ z). is_digit c))"

lemma ssn_found:
  assumes "is_ssn u" and "a = [] \<or> \<not> re_word (last a)" and "b = [] \<or> \<not> re_word (hd b)"
  shows "found ssn_pattern (a @ u @ b)"
proof -
  from assms(1) obtain x y z where u: "u = x @ ''-'' @ y @ ''-'' @ z" "length x = 3" "length y = 2" "length z = 4"
    and d: "\<forall>c \<in> set (x @ y @ z). is_digit c" by (auto simp: is_ssn_def)
  let ?r = "seqs [rep 3 dg, lit ''-'', rep 2 dg, lit ''-'', rep 4 dg]"
  have ne: "x \<noteq> []" "z \<noteq> []" using u by auto
  have digits: "matches (rep (length w) dg) (p, w @ v) (prev_of p w, v)" if "\<forall>c \<in> set w. is_digit c" for w p v
    using that unfolding dg_def matches_rep_chars by blast
  have dash: "matches (lit ''-'') (p, ''-'' @ v) (Some (CHR ''-''), v)" for p v by (simp add: lit_def)
  have "matches (rep 3 dg) (None, u) (prev_of None x, ''-'' @ y @ ''-'' @ z)"
    "matches (rep 2 dg) (Some (CHR ''-''), y @ ''-'' @ z) (prev_of (Some (CHR ''-'')) y, ''-'' @ z)"
    "matches (rep 4 dg) (Some (CHR ''-''), z) (Some (last u), [])"
    using digits [of x None "''-'' @ y @ ''-'' @ z"] digits [of y "Some (CHR ''-'')" "''-'' @ z"]
      digits [of z "Some (CHR ''-'')" "[]"] u d ne by (simp_all add: prev_of_def)
  then have "matches ?r (None, u) (Some (last u), [])"
    using dash unfolding seqs.simps matches.simps by (blast intro: relcomppI)
  moreover have "re_word (hd u)" "re_word (last u)"
    using d ne u by (auto simp: digit_word hd_append last_append intro!: digit_word)
  moreover have "edge_free (rep n dg)" for n by (induction n) simp_all
  then have "edge_free ?r" by simp
  ultimately have "found (seqs [Edge, ?r, Edge]) (a @ u @ b)"
    using found_delimited [of ?r u a b] assms(2,3) u by simp
  then show ?thesis by (simp add: found_iff ssn_pattern_def relcompp_assoc)
qed

lemma matches_at_least:
  assumes "n \<le> length u" and "\<forall>c \<in> set u. P c"
  shows "matches (at_least n (Chr P)) (p, u @ v) (prev_of p u, v)"
proof -
  have u: "u = take n u @ drop n u" by simp
  have t: "\<forall>c \<in> set (take n u). P c" and d: "\<forall>c \<in> set (drop n u). P c"
    using assms(2) by (auto dest: in_set_takeD in_set_dropD)
  have "matches (rep n (Chr P)) (p, u @ v) (prev_of p (take n u), drop n u @ v)"
    unfolding matches_rep_chars
    by (rule exI [of _ "take n u"], rule exI [of _ "drop n u @ v"]) (use assms t in simp)
  moreover have "matches (Star (Chr P)) (prev_of p (take n u), drop n u @ v) (prev_of p u, v)"
    using matches_star_chars [OF d, of "prev_of p (take n u)" v] by simp
  ultimately show ?thesis unfolding at_least_def matches.simps by blast
qed

text \<open>The shape of a signed token.\<close>

definition is_jwt :: "string \<Rightarrow> bool" where
  "is_jwt u = (\<exists>x y z. u = ''eyJ'' @ x @ ''.'' @ y @ ''.'' @ z \<and> 10 \<le> length x \<and> 10 \<le> length y \<and> 10 \<le> length z
     \<and> (\<forall>c \<in> set (x @ y @ z). is_alpha c \<or> is_digit c \<or> c \<in> {CHR ''_'', CHR ''-''}))"

lemma edge_free_rep [simp]: "edge_free r \<Longrightarrow> edge_free (rep n r)"
  by (induction n) auto

lemma jwt_found:
  assumes "is_jwt u"
  shows "found jwt_pattern (a @ u @ b)"
proof -
  from assms obtain x y z where u: "u = ''eyJ'' @ x @ ''.'' @ y @ ''.'' @ z"
    and l: "10 \<le> length x" "10 \<le> length y" "10 \<le> length z"
    and d: "\<forall>c \<in> set (x @ y @ z). is_alpha c \<or> is_digit c \<or> c \<in> {CHR ''_'', CHR ''-''}" by (auto simp: is_jwt_def)
  have run: "matches (at_least 10 (range_of ''_-'')) (p, w @ v) (prev_of p w, v)"
    if "10 \<le> length w" "\<forall>c \<in> set w. is_alpha c \<or> is_digit c \<or> c \<in> {CHR ''_'', CHR ''-''}" for w p v
    unfolding range_of_def by (rule matches_at_least) (use that in auto)
  have "matches (lit ''eyJ'') (None, u) (Some (CHR ''J''), x @ ''.'' @ y @ ''.'' @ z)"
    unfolding u using matches_lit [of "''eyJ''" None "x @ ''.'' @ y @ ''.'' @ z"] by (simp add: prev_of_def)
  moreover have "matches (lit ''.'') (p, ''.'' @ v) (Some (CHR ''.''), v)" for p v by (simp add: lit_def)
  moreover have "matches (at_least 10 (range_of ''_-'')) (Some (CHR ''J''), x @ ''.'' @ y @ ''.'' @ z)
      (prev_of (Some (CHR ''J'')) x, ''.'' @ y @ ''.'' @ z)"
    "matches (at_least 10 (range_of ''_-'')) (Some (CHR ''.''), y @ ''.'' @ z) (prev_of (Some (CHR ''.'')) y, ''.'' @ z)"
    by (rule run; use l d in simp)+
  moreover have "matches (at_least 10 (range_of ''_-'')) (Some (CHR ''.''), z @ []) (prev_of (Some (CHR ''.'')) z, [])"
    by (rule run; use l d in simp)
  ultimately have "matches jwt_pattern (None, u) (prev_of (Some (CHR ''.'')) z, [])"
    unfolding jwt_pattern_def seqs.simps matches.simps(4) append_Nil2 by (blast intro: relcomppI)
  then show ?thesis by (rule found_edge_free) (simp add: jwt_pattern_def at_least_def range_of_def)
qed

lemma patterns_of_profile:
  "(''jwt'', jwt_pattern) \<in> set (pe_patterns (new_protection_engine profile))"
  "profile \<noteq> ''minimal'' \<Longrightarrow> (''ssn'', ssn_pattern) \<in> set (pe_patterns (new_protection_engine profile))"
  by (auto simp: new_protection_engine_def all_patterns_def active_types_def profiles_def Let_def split: if_splits)

lemma response_blocked_iff:
  "protection_on_response c resp e = (Inl pii_error, e) \<longleftrightarrow>
     rs_scan_body resp \<noteq> [] \<and> (\<exists>p \<in> set (pe_patterns e). found (snd p) (rs_scan_body resp))"
  by (auto simp: protection_on_response_def list_ex_iff)

text \<open>
  A response that shows a social security number between other text (in every profile but
  the minimal one) or a signed token (in every profile, in any surroundings) is refused as a
  whole, wherever in the body it stands and however long the body is.
\<close>

theorem leaking_response_blocked:
  assumes "rs_scan_body resp = a @ u @ b"
    and "is_jwt u \<or> profile \<noteq> ''minimal'' \<and> is_ssn u \<and> (a = [] \<or> \<not> re_word (last a)) \<and> (b = [] \<or> \<not> re_word (hd b))"
  shows "protection_on_response c resp (new_protection_engine profile)
    = (Inl pii_error, new_protection_engine profile)"
  unfolding response_blocked_iff
proof
  show "\<exists>p \<in> set (pe_patterns (new_protection_engine profile)). found (snd p) (rs_scan_body resp)"
    using assms(2) jwt_found ssn_found patterns_of_profile unfolding assms(1) by (metis snd_conv)
  show "rs_scan_body resp \<noteq> []" using assms by (auto simp: is_jwt_def is_ssn_def)
qed

theorem leaking_response_blocked_witness:
  "\<not> is_ok (fst (protection_on_response (new_context 0 ''s'' ''http'') \<lparr>rs_result = None, rs_error = None, rs_raw_body = [],
      rs_scan_body = ''id 123-45-6789.''\<rparr> (new_protection_engine ''pci'')))"
proof -
  have "is_ssn ''123-45-6789''"
    unfolding is_ssn_def
    by (rule exI [of _ "''123''"], rule exI [of _ "''45''"], rule exI [of _ "''6789''"]) (simp add: is_digit_def ord_of_def)
  moreover have "\<not> re_word (CHR '' '')" "\<not> re_word (CHR ''.'')" by code_simp+
  ultimately show ?thesis
    using leaking_response_blocked [where a = "''id ''" and u = "''123-45-6789''" and b = "''.''" and profile = "''pci''"]
    by simp
qed

end
