(* ===== verification/Boundary.thy ===== *)
theory Boundary
  imports Regex Responses Bytes "HOL-Library.Sublist"
begin

text \<open>
  T4: the data/control boundary (\<open>mcp_armor/engines/boundary.py\<close>) and T9, which scans with it
  (\<open>mcp_armor/engines/trust.py\<close>): the normalisation that undoes split words, the decoding of
  base64 tokens, the overlapping scan windows, the injection patterns and the hooks.  UTF-8
  decoding and the matcher of \<open>re2\<close> are fields of \<open>boundary_lib\<close>.  The lemmas show that the
  windows terminate and miss no short match, and what an accepted request cannot contain.
\<close>

section \<open>Normalisation\<close>

definition zero_width :: "char \<Rightarrow> bool" where
  "zero_width c = (ord_of c \<in> {8203, 8204, 8205, 65279, 173})"

definition is_letter_at :: "string \<Rightarrow> bool" where
  "is_letter_at s = (case s of [] \<Rightarrow> False | c # _ \<Rightarrow> is_alpha c)"

text \<open>A hyphen between two letters of the text goes; \<open>p\<close> says a letter stands before.\<close>

fun drop_split_hyphens :: "bool \<Rightarrow> string \<Rightarrow> string" where
  "drop_split_hyphens p [] = []"
| "drop_split_hyphens p (c # s) =
     (if c = CHR ''-'' \<and> p \<and> is_letter_at s then drop_split_hyphens False s
      else c # drop_split_hyphens (is_alpha c) s)"

fun collapse_space :: "bool \<Rightarrow> string \<Rightarrow> string" where
  "collapse_space in_run [] = []"
| "collapse_space in_run (c # s) =
     (if py_space c then (if in_run then collapse_space True s else CHR '' '' # collapse_space True s)
      else c # collapse_space False s)"

definition normalize_for_injection_scan :: "text_lib \<Rightarrow> string \<Rightarrow> string" where
  "normalize_for_injection_scan lib s =
     tl_nfkc lib (strip (collapse_space False (drop_split_hyphens False
       (filter (\<lambda>c. \<not> zero_width c) (strip_bidi (unescape_passes lib 3 s))))))"

section \<open>Base64 tokens\<close>

definition b64_token_char :: "char \<Rightarrow> bool" where
  "b64_token_char c = (is_alpha c \<or> is_digit c \<or> c \<in> set ''+/=_-'')"

text \<open>The maximal runs of token characters that have at least 16.\<close>

function b64_tokens :: "string \<Rightarrow> string list" where
  "b64_tokens s = (case dropWhile (\<lambda>c. \<not> b64_token_char c) s of
     [] \<Rightarrow> []
   | c # t \<Rightarrow>
       (let tok = c # takeWhile b64_token_char t
        in (if 16 \<le> length tok then [tok] else []) @ b64_tokens (dropWhile b64_token_char t)))"
  by pat_completeness auto
termination
proof (relation "measure length")
  fix s c t tok
  assume "dropWhile (\<lambda>c. \<not> b64_token_char c) s = c # t"
  then have "length (c # t) \<le> length s" by (metis length_dropWhile_le)
  moreover have "length (dropWhile b64_token_char t) \<le> length t" by (rule length_dropWhile_le)
  ultimately show "(dropWhile b64_token_char t, s) \<in> measure length" by simp
qed simp

declare b64_tokens.simps [simp del]

record boundary_lib =
  bl_text :: text_lib
  bl_utf8 :: "bytes \<Rightarrow> string option"    \<comment> \<open>\<open>bytes.decode("utf-8")\<close>\<close>
  bl_re2 :: "re \<Rightarrow> string \<Rightarrow> bool"       \<comment> \<open>\<open>pattern.search\<close> of \<open>re2\<close>\<close>

text \<open>
  \<open>base64.b64decode(s + padding, validate=False)\<close>: the standard alphabet, other characters
  discarded (\<open>a2b\<close> itself would also read the URL-safe ones).
\<close>

definition b64decode :: "string \<Rightarrow> bytes option" where
  "b64decode s = a2b (filter (\<lambda>c. c \<noteq> CHR ''-'' \<and> c \<noteq> CHR ''_'')
     (s @ replicate ((4 - length s mod 4) mod 4) (CHR ''=''))) 0 0 0"

definition to_standard :: "char \<Rightarrow> char" where
  "to_standard c = (if c = CHR ''-'' then CHR ''+'' else if c = CHR ''_'' then CHR ''/'' else c)"

definition decode_token :: "boundary_lib \<Rightarrow> string \<Rightarrow> string option" where
  "decode_token lib tok =
     (case Option.bind (b64decode tok) (bl_utf8 lib) of
        Some s \<Rightarrow> Some s
      | None \<Rightarrow> Option.bind (b64decode (map to_standard tok)) (bl_utf8 lib))"

fun decode_tokens :: "boundary_lib \<Rightarrow> int \<Rightarrow> string list \<Rightarrow> string list" where
  "decode_tokens lib room [] = []"
| "decode_tokens lib room (tok # toks) = (case decode_token lib tok of
     None \<Rightarrow> if room \<le> 0 then [] else decode_tokens lib room toks
   | Some d \<Rightarrow>
       if int (length d) \<le> room
       then d # (if room - int (length d) \<le> 0 then [] else decode_tokens lib (room - int (length d)) toks)
       else [take (nat room) d])"

definition try_decode_base64_tokens :: "boundary_lib \<Rightarrow> string \<Rightarrow> string option" where
  "try_decode_base64_tokens lib s = (case decode_tokens lib 512 (take 8 (b64_tokens s)) of
     [] \<Rightarrow> None | ds \<Rightarrow> Some (join_with (CHR '' '') ds))"

section \<open>Windows\<close>

text \<open>The loop of \<open>_scan_windows\<close>; without a positive stride it does not return.\<close>

partial_function (option) windows_from :: "int \<Rightarrow> int \<Rightarrow> string \<Rightarrow> string list option" where
  "windows_from window stride s =
     (if int (length s) \<le> window then Some [take (nat window) s]
      else Option.bind (windows_from window stride (drop (nat stride) s)) (\<lambda>ws. Some (take (nat window) s # ws)))"

definition scan_windows :: "int \<Rightarrow> int \<Rightarrow> string \<Rightarrow> string list option" where
  "scan_windows window overlap s =
     (if int (length s) \<le> window then Some [s] else windows_from window (window - overlap) s)"

definition max_scan_len :: int where "max_scan_len = 8192"
definition scan_window_overlap :: int where "scan_window_overlap = 1024"

section \<open>Patterns\<close>

definition core_patterns :: "re list" where
  "core_patterns =
     [seqs [ilit ''ignore'', plus sp, alts [ilit ''previous'', ilit ''all'', ilit ''above'', ilit ''prior''], plus sp,
        ilit ''instruction'', opt (ilit ''s'')],
      seqs [ilit ''new'', plus sp, ilit ''system'', plus sp, ilit ''prompt''],
      seqs [ilit ''you'', plus sp, ilit ''are'', plus sp, ilit ''now'', plus sp, opt (seqs [ilit ''a'', plus sp]),
        opt (seqs [plus wd, plus sp]), ilit ''assistant''],
      seqs [ilit ''disregard'', plus sp, alts [ilit ''your'', ilit ''all'', ilit ''previous'']],
      ilit ''jailbreak'',
      seqs [ilit ''developer'', plus sp, ilit ''mode''],
      seqs [ilit ''dan'', plus sp, ilit ''mode''],
      seqs [ilit ''prompt'', plus sp, ilit ''injection''],
      ilit ''<|im_start|>'', ilit ''<|system|>'', ilit ''[inst]'',
      seqs [ilit ''###'', Star sp, ilit ''instruction''],
      seqs [ilit ''act'', plus sp, ilit ''as'', plus sp,
        alts [seqs [ilit ''if'', plus sp, ilit ''you'', plus sp, ilit ''are''], ilit ''a''], plus sp, plus wd],
      seqs [ilit ''forget'', plus sp, alts [ilit ''everything'', ilit ''all'', ilit ''your''], plus sp,
        alts [seqs [ilit ''you'', plus sp, ilit ''know''], seqs [ilit ''instruction'', opt (ilit ''s'')], ilit ''training'']],
      seqs [lit ''<!--'', Star dot, alts [lit ''inject'', lit ''override'', lit ''system''], Star dot, lit ''-->''],
      seqs [ilit ''override'', plus sp, alts [ilit ''safety'', ilit ''content'', ilit ''system''], plus sp,
        alts [ilit ''filter'', ilit ''policy'', ilit ''prompt'']],
      seqs [ilit ''bypass'', plus sp, alts [seqs [ilit ''restriction'', opt (ilit ''s'')], ilit ''safety'', ilit ''filter'']],
      seqs [ilit ''do'', plus sp, ilit ''anything'', plus sp, ilit ''now'']]"

definition call_arg_patterns :: "re list" where
  "call_arg_patterns =
     [seqs [ilit ''ignore'', plus sp, ilit ''previous'', plus sp, ilit ''instruction'', opt (ilit ''s'')],
      seqs [ilit ''ignore'', plus sp, ilit ''all'', plus sp, ilit ''previous'', Edge],
      seqs [ilit ''disregard'', plus sp, ilit ''your'', plus sp, ilit ''instruction'', opt (ilit ''s'')],
      seqs [ilit ''you'', plus sp, ilit ''are'', plus sp, ilit ''now'', Edge],
      seqs [ilit ''new'', plus sp, ilit ''instruction'', opt (ilit ''s''), lit '':''],
      seqs [ilit ''system'', plus sp, ilit ''prompt:'']]"

definition injection_patterns :: "re list" where
  "injection_patterns = core_patterns @ call_arg_patterns"

section \<open>Scanning\<close>

definition first_hit :: "(re \<Rightarrow> bool) \<Rightarrow> re option" where
  "first_hit hit = find hit injection_patterns"

fun first_of :: "(string \<Rightarrow> re option) \<Rightarrow> string list \<Rightarrow> re option" where
  "first_of f [] = None"
| "first_of f (s # ss) = (case f s of Some r \<Rightarrow> Some r | None \<Rightarrow> first_of f ss)"

definition sources_of :: "boundary_lib \<Rightarrow> string \<Rightarrow> string list" where
  "sources_of lib s =
     (let decoded = try_decode_base64_tokens lib (take (nat max_scan_len) s);
          decoded_norm = (case decoded of None \<Rightarrow> [] | Some d \<Rightarrow>
            if d = [] then [] else normalize_for_injection_scan (bl_text lib) d);
          normalized = normalize_for_injection_scan (bl_text lib) s
      in [s] @ (if normalized \<noteq> s then [normalized] else []) @ (if decoded_norm \<noteq> [] then [decoded_norm] else []))"

text \<open>\<open>the\<close> is on a loop that returns (\<open>scan_windows_total\<close>).\<close>

definition boundary_scan :: "boundary_lib \<Rightarrow> bool \<Rightarrow> string \<Rightarrow> re option" where
  "boundary_scan lib using_re2 s =
     (if using_re2 then first_of (\<lambda>src. first_hit (\<lambda>r. bl_re2 lib r src)) (sources_of lib s)
      else first_of (\<lambda>src. first_of (\<lambda>w. first_hit (\<lambda>r. found r w))
          (the (scan_windows max_scan_len scan_window_overlap src)))
        (sources_of lib s))"

fun scan_values :: "(string \<Rightarrow> re option) \<Rightarrow> json \<Rightarrow> re option"
  and scan_value_list :: "(string \<Rightarrow> re option) \<Rightarrow> json list \<Rightarrow> re option"
  and scan_value_items :: "(string \<Rightarrow> re option) \<Rightarrow> (string \<times> json) list \<Rightarrow> re option" where
  "scan_values sc (JStr s) = sc s"
| "scan_values sc (JArr xs) = scan_value_list sc xs"
| "scan_values sc (JObj d) = scan_value_items sc d"
| "scan_values sc _ = None"
| "scan_value_list sc [] = None"
| "scan_value_list sc (x # xs) = (case scan_values sc x of Some r \<Rightarrow> Some r | None \<Rightarrow> scan_value_list sc xs)"
| "scan_value_items sc [] = None"
| "scan_value_items sc ((k, v) # d) = (case sc k of Some r \<Rightarrow> Some r | None \<Rightarrow>
     (case scan_values sc v of Some r \<Rightarrow> Some r | None \<Rightarrow> scan_value_items sc d))"

section \<open>T4 engine\<close>

record boundary_engine =
  be_scan_call_args :: bool
  be_scan_responses :: bool
  be_using_re2 :: bool

definition injection_error :: "string \<Rightarrow> exn" where
  "injection_error site = Cosai InjectionDetectedError site"

definition no_hit :: "string \<Rightarrow> re option \<Rightarrow> unit result" where
  "no_hit site h = (case h of None \<Rightarrow> Inr () | Some _ \<Rightarrow> Inl (injection_error site))"

definition scan_if_text :: "(string \<Rightarrow> re option) \<Rightarrow> string \<Rightarrow> json option \<Rightarrow> unit result" where
  "scan_if_text sc site v = (case v of
     Some (JStr s) \<Rightarrow> if s = [] then Inr () else no_hit site (sc s) | _ \<Rightarrow> Inr ())"

definition boundary_on_request :: "(string \<Rightarrow> loads_result) \<Rightarrow> boundary_lib \<Rightarrow> boundary_engine request_hook_fn" where
  "boundary_on_request loads lib c req e =
     (bindR (scannable_strings loads req) (\<lambda>fs.
      let sc = boundary_scan lib (be_using_re2 e) in
      if fs = [] then Inr c
      else bindR (scan_if_text sc ''tool name'' (dget fs ''name'')) (\<lambda>_.
        bindR (scan_if_text sc ''resource uri'' (dget fs ''uri'')) (\<lambda>_.
        case dget fs ''arguments'' of
          None \<Rightarrow> Inr c
        | Some args \<Rightarrow>
            if \<not> be_scan_call_args e then Inr c
            else bindR (no_hit ''tool call arguments'' (case scan_values sc args of
                Some r \<Rightarrow> Some r
              | None \<Rightarrow> (case dget fs ''decoded_arguments'' of None \<Rightarrow> None | Some d \<Rightarrow> scan_values sc d)))
              (\<lambda>_. Inr c)))), e)"

text \<open>The elements \<open>for tool in tools\<close> yields: the keys of an object and the characters of a string are not objects.\<close>

definition iterate_tools :: "json \<Rightarrow> json list result" where
  "iterate_tools v =
     (if \<not> truthy v then Inr []
      else case v of
        JArr xs \<Rightarrow> Inr xs
      | JObj d \<Rightarrow> Inr (map (\<lambda>(k, _). JStr k) d)
      | JStr s \<Rightarrow> Inr (map (\<lambda>ch. JStr [ch]) s)
      | _ \<Rightarrow> Inl (PyExc TypeError ''not iterable''))"

fun scan_descriptions :: "(string \<Rightarrow> re option) \<Rightarrow> json list \<Rightarrow> unit result" where
  "scan_descriptions sc [] = Inr ()"
| "scan_descriptions sc (t # ts) = (case t of
     JObj d \<Rightarrow> bindR (scan_if_text sc ''tool description'' (dget d ''description'')) (\<lambda>_. scan_descriptions sc ts)
   | _ \<Rightarrow> scan_descriptions sc ts)"

definition boundary_on_response :: "boundary_lib \<Rightarrow> boundary_engine response_hook_fn" where
  "boundary_on_response lib c resp e =
     (let sc = boundary_scan lib (be_using_re2 e) in
      if \<not> be_scan_responses e then Inr c
      else bindR (case rs_result resp of
          None \<Rightarrow> Inr ()
        | Some d \<Rightarrow> (case dget d ''tools'' of
            None \<Rightarrow> Inr () | Some v \<Rightarrow> bindR (iterate_tools v) (scan_descriptions sc)))
        (\<lambda>_. bindR (scan_if_text sc ''tool response'' (Some (JStr (rs_scan_body resp)))) (\<lambda>_. Inr c)), e)"

section \<open>T9 engine\<close>

record trust_engine =
  te_max_len :: nat
  te_strip :: bool
  te_using_re2 :: bool

definition control_char :: "char \<Rightarrow> bool" where
  "control_char c = (ord_of c \<le> 8 \<or> (11 \<le> ord_of c \<and> ord_of c \<le> 12) \<or> (14 \<le> ord_of c \<and> ord_of c \<le> 31)
     \<or> ord_of c = 127)"

definition surrogate_or_private :: "char \<Rightarrow> bool" where
  "surrogate_or_private c = ((0xD800 \<le> ord_of c \<and> ord_of c \<le> 0xDFFF) \<or> (0xE000 \<le> ord_of c \<and> ord_of c \<le> 0xF8FF))"

definition sanitize :: "boundary_lib \<Rightarrow> trust_engine \<Rightarrow> string \<Rightarrow> string result" where
  "sanitize lib e s =
     (let t = filter (\<lambda>c. \<not> surrogate_or_private c) (filter (\<lambda>c. \<not> control_char c)
                (filter (\<lambda>c. ord_of c \<noteq> 0) (if length s > te_max_len e then take (te_max_len e) s else s)))
      in if te_strip e \<and> boundary_scan lib (te_using_re2 e) t \<noteq> None
         then Inl (Cosai TrustBoundaryViolation ''LLM output contains an injection pattern'')
         else Inr (html_escape t))"

definition trust_on_response :: "boundary_lib \<Rightarrow> trust_engine response_hook_fn" where
  "trust_on_response lib c resp e =
     ((if rs_scan_body resp \<noteq> [] \<and> te_strip e \<and> boundary_scan lib (te_using_re2 e) (rs_scan_body resp) \<noteq> None
       then Inl (Cosai TrustBoundaryViolation ''tool response contains an injection pattern'')
       else Inr c), e)"

interpretation boundary_rq: request_hook "boundary_on_request loads lib" for loads lib
  by unfold_locales (auto simp: boundary_on_request_def bindR_eq_Inr Let_def split: if_splits option.splits)

interpretation boundary_rs: response_hook "boundary_on_response lib" for lib
  by unfold_locales (auto simp: boundary_on_response_def bindR_eq_Inr Let_def split: if_splits option.splits)

interpretation trust_rs: response_hook "trust_on_response lib" for lib
  by unfold_locales (auto simp: trust_on_response_def split: if_splits)

section \<open>Windows miss no short match\<close>

declare windows_from.simps [code]

lemma windows_from_short: "int (length s) \<le> w \<Longrightarrow> windows_from w k s = Some [s]"
  by (subst windows_from.simps) simp

lemma windows_from_long: "w < int (length s) \<Longrightarrow> windows_from w k s
    = Option.bind (windows_from w k (drop (nat k) s)) (\<lambda>ws. Some (take (nat w) s # ws))"
  by (subst windows_from.simps) simp

text \<open>A window shows a chunk when it holds it at the same place of the text.\<close>

definition shows_chunk :: "string \<Rightarrow> string \<Rightarrow> string \<Rightarrow> string \<Rightarrow> bool" where
  "shows_chunk x a c b = (\<exists>a1 b1 a2 b2. a = a2 @ a1 \<and> b = b1 @ b2 \<and> x = a1 @ c @ b1)"

definition covers :: "string list \<Rightarrow> int \<Rightarrow> string \<Rightarrow> bool" where
  "covers ws ov s = (\<forall>a c b. s = a @ c @ b \<longrightarrow> int (length c) \<le> ov \<longrightarrow> (\<exists>x \<in> set ws. shows_chunk x a c b))"

lemma take_shows_chunk:
  assumes "int (length (a @ c)) \<le> w"
  shows "shows_chunk (take (nat w) (a @ c @ b)) a c b"
proof -
  have "length a + length c \<le> nat w" using assms by simp
  then have "take (nat w) (a @ c @ b) = a @ c @ take (nat w - length a - length c) b" by simp
  moreover have "b = take (nat w - length a - length c) b @ drop (nat w - length a - length c) b" by simp
  ultimately show ?thesis unfolding shows_chunk_def by (metis append_Nil)
qed

lemma covers_whole: "covers [s] ov s"
  unfolding covers_def shows_chunk_def by (metis append_Nil append_Nil2 list.set_intros(1))

lemma windows_from_covers:
  assumes "0 \<le> ov" and "ov < w"
  shows "\<exists>ws. windows_from w (w - ov) s = Some ws \<and> covers ws ov s
    \<and> (\<forall>x \<in> set ws. int (length x) \<le> w \<and> (\<exists>a b. s = a @ x @ b))"
proof (induction "length s" arbitrary: s rule: less_induct)
  case less
  let ?k = "nat (w - ov)"
  show ?case
  proof (cases "int (length s) \<le> w")
    case True
    with covers_whole [of s ov] show ?thesis by (auto simp: windows_from_short intro: exI [of _ "[]"])
  next
    case False
    have "length (drop ?k s) < length s" using assms False by simp
    from less [OF this] obtain ws where ws: "windows_from w (w - ov) (drop ?k s) = Some ws" "covers ws ov (drop ?k s)"
      "\<forall>x \<in> set ws. int (length x) \<le> w \<and> (\<exists>a b. drop ?k s = a @ x @ b)" by blast
    have cov: "covers (take (nat w) s # ws) ov s"
      unfolding covers_def
    proof (intro allI impI)
      fix a c b
      assume s: "s = a @ c @ b" and c: "int (length c) \<le> ov"
      show "\<exists>x \<in> set (take (nat w) s # ws). shows_chunk x a c b"
      proof (cases "int (length (a @ c)) \<le> w")
        case True
        with take_shows_chunk [of a c w b] s show ?thesis by auto
      next
        case far: False
        then have k: "?k \<le> length a" using c assms by simp
        then have "drop ?k s = drop ?k a @ c @ b" using s by simp
        with ws(2) c obtain x where x: "x \<in> set ws" "shows_chunk x (drop ?k a) c b" unfolding covers_def by blast
        then have "shows_chunk x a c b" unfolding shows_chunk_def by (metis append.assoc append_take_drop_id)
        with x(1) show ?thesis by auto
      qed
    qed
    have "\<exists>a b. s = a @ take (nat w) s @ b" by (metis append_Nil append_take_drop_id)
    moreover have "\<exists>a b. s = a @ x @ b" if "x \<in> set ws" for x
    proof -
      from ws(3) that obtain a b where "drop ?k s = a @ x @ b" by blast
      then have "s = (take ?k s @ a) @ x @ b" by (metis append.assoc append_take_drop_id)
      then show ?thesis by blast
    qed
    ultimately show ?thesis using ws cov False assms by (auto simp: windows_from_long)
  qed
qed

text \<open>A match that consumes at most \<open>n\<close> characters.\<close>

definition short_hit :: "nat \<Rightarrow> re \<Rightarrow> string \<Rightarrow> bool" where
  "short_hit n r s = (\<exists>a u b. s = a @ u @ b \<and> length u \<le> n \<and> matches r (prev_of None a, u @ b) (prev_of None (a @ u), b))"

lemma covered_hit:
  assumes "covers ws ov s" and "int n + 2 \<le> ov" and "short_hit n r s"
  shows "\<exists>x \<in> set ws. found r x"
proof -
  from assms(3) obtain a u b where s: "s = a @ u @ b" and l: "length u \<le> n"
    and m: "matches r (prev_of None a, u @ b) (prev_of None (a @ u), b)" by (auto simp: short_hit_def)
  define pre where "pre = (if a = [] then [] else [last a])"
  define post where "post = take 1 b"
  have a: "a = butlast a @ pre" and b: "b = post @ drop 1 b" by (auto simp: pre_def post_def)
  have "s = butlast a @ (pre @ u @ post) @ drop 1 b" using s a b by (metis append.assoc)
  moreover have "int (length (pre @ u @ post)) \<le> ov" using l assms(2) by (auto simp: pre_def post_def)
  ultimately obtain x where x: "x \<in> set ws" "shows_chunk x (butlast a) (pre @ u @ post) (drop 1 b)"
    using assms(1) unfolding covers_def by blast
  then obtain a1 b1 a2 b2 where p: "butlast a = a2 @ a1" "drop 1 b = b1 @ b2" "x = (a1 @ pre) @ u @ (post @ b1)"
    by (auto simp: shows_chunk_def)
  have "prev_of None a = prev_of None (a1 @ pre)"
    using p(1) by (auto simp: prev_of_def pre_def)
  moreover have "same_next b (post @ b1)"
    using p(2) by (cases b) (auto simp: same_next_def post_def)
  ultimately have "found r x"
    unfolding p(3) by (intro found_inside [of r "prev_of None a" u b "prev_of None (a @ u)"]) (use m in \<open>simp_all add: fits_def\<close>)
  with x(1) show ?thesis by blast
qed

text \<open>
  C38: The window loop returns exactly when the overlap is smaller than the window or one window
  is enough.  Then every window is a part of the text of at most the window's size, and no
  match is lost at a seam: a match of up to two characters less than the overlap, with the
  characters its word boundaries look at, is found in some window.
\<close>

theorem scan_windows_complete:
  assumes "0 \<le> ov"
  shows "(scan_windows w ov s = None \<longleftrightarrow> w < int (length s) \<and> w \<le> ov)
    \<and> (\<forall>ws. scan_windows w ov s = Some ws \<longrightarrow>
        (\<forall>x \<in> set ws. int (length x) \<le> w \<and> (\<exists>a b. s = a @ x @ b))
        \<and> (\<forall>n r. int n + 2 \<le> ov \<longrightarrow> short_hit n r s \<longrightarrow> (\<exists>x \<in> set ws. found r x)))"
proof (cases "int (length s) \<le> w")
  case True
  with covered_hit [OF covers_whole, of _ ov _ s] show ?thesis
    by (auto simp: scan_windows_def intro: exI [of _ "[]"])
next
  case long: False
  then have eq: "scan_windows w ov s = windows_from w (w - ov) s" by (simp add: scan_windows_def)
  show ?thesis
  proof (cases "ov < w")
    case True
    from windows_from_covers [OF assms this, of s] covered_hit show ?thesis
      unfolding eq using True long by fastforce
  next
    case False
    have "windows_from w (w - ov) s \<noteq> Some ws" for ws
    proof
      assume "windows_from w (w - ov) s = Some ws"
      with windows_from_long [of w s "w - ov"] long False have "ws = take (nat w) s # ws" by simp
      then show False by (metis not_Cons_self)
    qed
    then have "windows_from w (w - ov) s = None" by (metis option.exhaust)
    with eq long False show ?thesis by simp
  qed
qed

theorem scan_windows_complete_witness:
  "scan_windows 8 4 ''123456789'' \<noteq> None \<and> scan_windows 4 4 ''123456789'' = None"
  using scan_windows_complete [of 4 8 "''123456789''"] scan_windows_complete [of 4 4 "''123456789''"] by simp

section \<open>What the scan finds\<close>

lemma first_of_None: "first_of f ss = None \<longleftrightarrow> (\<forall>s \<in> set ss. f s = None)"
  by (induction ss) (auto split: option.splits)

lemma first_hit_None: "first_hit hit = None \<longleftrightarrow> (\<forall>r \<in> set injection_patterns. \<not> hit r)"
  by (auto simp: first_hit_def find_None_iff)

lemma scan_windows_default:
  obtains ws where "scan_windows max_scan_len scan_window_overlap s = Some ws"
    and "short_hit 1022 r s \<Longrightarrow> \<exists>x \<in> set ws. found r x"
proof -
  obtain ws where "scan_windows max_scan_len scan_window_overlap s = Some ws" "covers ws scan_window_overlap s"
  proof (cases "int (length s) \<le> max_scan_len")
    case True
    with that [of "[s]"] covers_whole show thesis by (simp add: scan_windows_def)
  next
    case False
    have "0 \<le> scan_window_overlap" "scan_window_overlap < max_scan_len"
      by (simp_all add: scan_window_overlap_def max_scan_len_def)
    from windows_from_covers [OF this, of s] that False show thesis by (auto simp: scan_windows_def)
  qed
  with that covered_hit [of ws scan_window_overlap s 1022 r] show thesis by (simp add: scan_window_overlap_def)
qed

text \<open>Nothing of a pattern is left in a text, nor in its normalised form.\<close>

definition uninjected :: "boundary_lib \<Rightarrow> string \<Rightarrow> bool" where
  "uninjected lib s = (\<forall>r \<in> set injection_patterns.
     \<not> short_hit 1022 r s \<and> \<not> short_hit 1022 r (normalize_for_injection_scan (bl_text lib) s))"

lemma boundary_scan_clean:
  assumes "boundary_scan lib False s = None"
  shows "uninjected lib s"
proof -
  let ?n = "normalize_for_injection_scan (bl_text lib) s"
  have src: "s \<in> set (sources_of lib s)" "?n \<in> set (sources_of lib s)"
    by (auto simp: sources_of_def Let_def)
  have none: "\<not> found r w" if "src \<in> set (sources_of lib s)" "r \<in> set injection_patterns"
    "w \<in> set (the (scan_windows max_scan_len scan_window_overlap src))" for src r w
    using assms that by (auto simp: boundary_scan_def first_of_None first_hit_None)
  have "\<not> short_hit 1022 r src" if "src \<in> set (sources_of lib s)" "r \<in> set injection_patterns" for src r
  proof
    assume "short_hit 1022 r src"
    with scan_windows_default [of src r thesis] none [OF that] show False
      by (metis option.sel scan_windows_default)
  qed
  with src show ?thesis by (simp add: uninjected_def)
qed

lemma scan_values_None:
  "scan_values sc v = None \<longleftrightarrow> (\<forall>(l, s) \<in> set (texts leaf v). sc s = None)"
  "scan_value_list sc xs = None \<longleftrightarrow> (\<forall>(l, s) \<in> set (list_texts leaf xs). sc s = None)"
  "scan_value_items sc d = None \<longleftrightarrow> (\<forall>(l, s) \<in> set (item_texts d). sc s = None)"
  by (induction leaf v and leaf xs and d rule: texts_list_texts_item_texts.induct)
     (auto split: option.splits simp: ball_Un)

lemma scan_if_text_ok: "scan_if_text sc site (Some (JStr s)) = Inr () \<longleftrightarrow> s = [] \<or> sc s = None"
  by (auto simp: scan_if_text_def no_hit_def split: option.splits)

lemma no_hit_ok [simp]: "no_hit site h = Inr () \<longleftrightarrow> h = None"
  by (auto simp: no_hit_def split: option.splits)

lemma uninjected_text: "s = [] \<or> boundary_scan lib False s = None \<Longrightarrow> s \<noteq> [] \<Longrightarrow> uninjected lib s"
  by (blast intro: boundary_scan_clean)

text \<open>
  A request the boundary engine lets through (with the standard matcher and the argument
  scan on) shows no injection pattern in the tool name, the URI, or any text of its arguments,
  keys and decoded JSON included: neither as written nor after undoing entities, invisible
  characters, split words and stretched spaces is there a match of up to 1022 characters.
\<close>

theorem boundary_request_uninjected:
  assumes "fst (boundary_on_request loads lib c req e) = Inr c'"
    and "scannable_strings loads req = Inr fs" and "\<not> be_using_re2 e"
    and "dget fs k = Some v" and "k \<in> {''name'', ''uri''} \<and> v = JStr s
      \<or> be_scan_call_args e \<and> (k = ''arguments'' \<or> k = ''decoded_arguments'' \<and> dget fs ''arguments'' \<noteq> None) \<and> (l, s) \<in> set (texts None v)"
    and "s \<noteq> []"
  shows "uninjected lib s"
proof (rule uninjected_text [OF _ assms(6)])
  let ?sc = "boundary_scan lib False"
  have ne: "fs \<noteq> []" using assms(4) by auto
  have st: "scan_if_text ?sc ''tool name'' (dget fs ''name'') = Inr ()" "scan_if_text ?sc ''resource uri'' (dget fs ''uri'') = Inr ()"
    "be_scan_call_args e \<Longrightarrow> dget fs ''arguments'' = Some a \<Longrightarrow> scan_values ?sc a = None
       \<and> (\<forall>d. dget fs ''decoded_arguments'' = Some d \<longrightarrow> scan_values ?sc d = None)" for a
    using assms(1,3) ne unfolding boundary_on_request_def assms(2)
    by (auto simp: bindR_eq_Inr Let_def split: option.splits if_splits)
  show "s = [] \<or> ?sc s = None"
    using assms(5)
  proof
    assume "k \<in> {''name'', ''uri''} \<and> v = JStr s"
    with st(1,2) assms(4) show ?thesis by (auto simp: scan_if_text_ok)
  next
    assume a: "be_scan_call_args e \<and> (k = ''arguments'' \<or> k = ''decoded_arguments'' \<and> dget fs ''arguments'' \<noteq> None) \<and> (l, s) \<in> set (texts None v)"
    with st(3) assms(4) have "scan_values ?sc v = None" by auto
    with a show ?thesis by (auto simp: scan_values_None(1) [of _ _ None])
  qed
qed

text \<open>
  What \<open>sanitize\<close> returns is inert: it has no markup or quote characters and at most six
  times the length limit, it is the rendering of a part of the input without control
  characters, and that part shows no injection pattern.
\<close>

theorem sanitized_text_is_inert:
  assumes "sanitize lib e s = Inr out"
  shows "(\<forall>ch \<in> set out. ch \<notin> {CHR ''<'', CHR ''>'', CHR 0x22, CHR 0x27}) \<and> length out \<le> 6 * te_max_len e
    \<and> (\<exists>t. out = html_escape t \<and> subseq t s \<and> (\<forall>ch \<in> set t. \<not> control_char ch)
         \<and> (te_strip e \<and> \<not> te_using_re2 e \<longrightarrow> uninjected lib t))"
proof -
  let ?cut = "if length s > te_max_len e then take (te_max_len e) s else s"
  let ?t = "filter (\<lambda>c. \<not> surrogate_or_private c) (filter (\<lambda>c. \<not> control_char c) (filter (\<lambda>c. ord_of c \<noteq> 0) ?cut))"
  have out: "out = html_escape ?t" and scan: "te_strip e \<longrightarrow> boundary_scan lib (te_using_re2 e) ?t = None"
    using assms by (auto simp: sanitize_def Let_def simp del: filter_filter split: if_splits)
  have "subseq ?cut s" by (simp add: prefix_imp_subseq take_is_prefix)
  then have sub: "subseq ?t s" by (meson subseq_filter_left subseq_order.trans)
  have "length ?t \<le> length ?cut" by (meson le_trans length_filter_le)
  also have "\<dots> \<le> te_max_len e" by simp
  finally have "length out \<le> 6 * te_max_len e" using html_escape_length(2) [of ?t] out by (simp del: filter_filter)
  moreover have "\<forall>ch \<in> set out. ch \<notin> {CHR ''<'', CHR ''>'', CHR 0x22, CHR 0x27}" using html_escape_safe out by blast
  moreover have "\<forall>ch \<in> set ?t. \<not> control_char ch" by simp
  moreover have "te_strip e \<and> \<not> te_using_re2 e \<longrightarrow> uninjected lib ?t" using scan boundary_scan_clean by auto
  ultimately show ?thesis using out sub by blast
qed

section \<open>Examples\<close>

definition demo_text :: text_lib where
  "demo_text = \<lparr>tl_unescape = (\<lambda>s. s), tl_nfkc = (\<lambda>s. s), tl_str = (\<lambda>d. [])\<rparr>"

definition demo_boundary :: boundary_lib where
  "demo_boundary = \<lparr>bl_text = demo_text, bl_utf8 = (\<lambda>b. None), bl_re2 = found\<rparr>"

lemma demo_scan: "boundary_scan demo_boundary False ''!'' = None"
proof -
  have "normalize_for_injection_scan demo_text ''!'' = ''!''"
    by (simp add: normalize_for_injection_scan_def demo_text_def strip_bidi_id zero_width_def string_defs
        numeral_3_eq_3)
  moreover have "b64_tokens ''!'' = []" by code_simp
  ultimately have src: "sources_of demo_boundary ''!'' = [''!'']"
    by (simp add: sources_of_def try_decode_base64_tokens_def demo_boundary_def max_scan_len_def)
  have lits: "\<not> found (seqs (ilit (a # b # cs) # rs)) ''!''" "\<not> found (seqs (lit (a # b # cs) # rs)) ''!''"
    "\<not> found (ilit (a # b # cs)) ''!''" for a b cs rs
    using found_seqs_first found_ilit_length [of "a # b # cs" "''!''"] found_lit_length [of "a # b # cs" "''!''"] by fastforce+
  have "list_all (\<lambda>r. \<not> found r ''!'') injection_patterns"
    unfolding injection_patterns_def core_patterns_def call_arg_patterns_def list_all_append list.pred_inject(2)
    by (intro conjI list.pred_inject(1) lits)
  then have "first_hit (\<lambda>r. found r ''!'') = None" by (simp only: first_hit_None list_all_iff)
  then show ?thesis
    by (simp add: boundary_scan_def src scan_windows_def max_scan_len_def)
qed

theorem boundary_request_uninjected_witness: "uninjected demo_boundary ''!''"
proof -
  let ?req = "\<lparr>rq_method = ''tools/call'', rq_params = [(''name'', JStr ''!'')], rq_session_id = ''s'',
     rq_headers = [], rq_query = [], rq_transport = ''http'', rq_header_pairs = []\<rparr>"
  let ?e = "\<lparr>be_scan_call_args = True, be_scan_responses = True, be_using_re2 = False\<rparr>"
  have fs: "scannable_strings (\<lambda>s. NotJson) ?req = Inr [(''name'', JStr ''!'')]"
    by (simp add: scannable_strings_def content_bearing_methods_def)
  have "fst (boundary_on_request (\<lambda>s. NotJson) demo_boundary (new_context 0 ''s'' ''http'') ?req ?e) = Inr (new_context 0 ''s'' ''http'')"
    by (simp add: boundary_on_request_def fs scan_if_text_def demo_scan no_hit_def)
  then show ?thesis
    by (rule boundary_request_uninjected [OF _ fs, where k = "''name''" and v = "JStr ''!''"]) simp_all
qed

theorem sanitized_text_is_inert_witness:
  "is_ok (sanitize demo_boundary \<lparr>te_max_len = 5, te_strip = True, te_using_re2 = False\<rparr> ''!'')
   \<and> (\<exists>out. length out \<le> 30 \<and> sanitize demo_boundary \<lparr>te_max_len = 5, te_strip = True, te_using_re2 = False\<rparr> ''!'' = Inr out)"
proof -
  have "filter (\<lambda>c. \<not> surrogate_or_private c) (filter (\<lambda>c. \<not> control_char c) (filter (\<lambda>c. ord_of c \<noteq> 0) ''!'')) = ''!''"
    by (simp add: surrogate_or_private_def control_char_def ord_of_def)
  then have s: "sanitize demo_boundary \<lparr>te_max_len = 5, te_strip = True, te_using_re2 = False\<rparr> ''!'' = Inr (html_escape ''!'')"
    by (simp add: sanitize_def demo_scan Let_def del: filter.simps filter_filter)
  from sanitized_text_is_inert [OF s] show ?thesis by (simp add: s)
qed

text \<open>
  The seam: a comment whose two ends are further apart than the overlap matches in the whole
  text and in no window.
\<close>

definition comment_pattern :: re where
  "comment_pattern = seqs [lit ''<!--'', Star dot, alts [lit ''inject'', lit ''override'', lit ''system''], Star dot, lit ''-->'']"

definition long_comment :: string where
  "long_comment = ''<!--system'' @ replicate 9000 (CHR ''x'') @ ''-->''"

lemma comment_pattern_listed: "comment_pattern \<in> set injection_patterns"
  by (simp add: injection_patterns_def core_patterns_def comment_pattern_def)

lemma comment_needs_both_ends: "found comment_pattern w \<Longrightarrow> CHR ''<'' \<in> set w \<and> CHR ''>'' \<in> set w"
proof -
  assume "found comment_pattern w"
  then obtain u v y z1 z2 where w: "w = u @ v" and m: "matches (lit ''<!--'') (prev_of None u, v) z1"
    "consumes z1 z2" "matches (lit ''-->'') z2 y"
  proof -
    obtain u v y z1 z2 z3 z4 where "w = u @ v" "matches (lit ''<!--'') (prev_of None u, v) z1"
      "matches (Star dot) z1 z2" "matches (alts [lit ''inject'', lit ''override'', lit ''system'']) z2 z3"
      "matches (Star dot) z3 z4" "matches (lit ''-->'') z4 y"
      using \<open>found comment_pattern w\<close> unfolding found_iff comment_pattern_def seqs.simps matches.simps(4)
      by (elim exE conjE relcomppE)
    moreover from this(3-5) have "consumes z1 z4" by (meson consumes_trans matches_consumes)
    ultimately show ?thesis using that by blast
  qed
  obtain p1 v1 where z1: "v = ''<!--'' @ v1" "z1 = (p1, v1)"
    using m(1) unfolding lit_def matches_chars by (auto simp: list_all2_Cons1)
  obtain p2 v2 where z2: "z2 = (p2, ''-->'' @ v2)"
    using m(3) unfolding lit_def by (cases z2) (auto simp: matches_chars list_all2_Cons1)
  from m(2) z1 z2 obtain t where "v1 = t @ ''-->'' @ v2" by (auto simp: consumes_def)
  with w z1 show ?thesis by simp
qed

lemma long_comment_escapes_windows:
  "found comment_pattern long_comment
   \<and> scan_windows max_scan_len scan_window_overlap long_comment = Some [take 8192 long_comment, drop 7168 long_comment]
   \<and> \<not> found comment_pattern (take 8192 long_comment) \<and> \<not> found comment_pattern (drop 7168 long_comment)"
proof (intro conjI)
  let ?xs = "replicate 9000 (CHR ''x'')"
  have len: "length long_comment = 9013" by (simp add: long_comment_def)
  have "matches (lit ''<!--'') (None, long_comment) (Some (CHR ''-''), ''system'' @ ?xs @ ''-->'')"
    using matches_lit [of "''<!--''" None "''system'' @ ?xs @ ''-->''"] by (simp add: long_comment_def prev_of_def)
  moreover have "matches (Star dot) (Some (CHR ''-''), ''system'' @ ?xs @ ''-->'') (Some (CHR ''-''), ''system'' @ ?xs @ ''-->'')"
    by simp
  moreover have "matches (alts [lit ''inject'', lit ''override'', lit ''system'']) (Some (CHR ''-''), ''system'' @ ?xs @ ''-->'')
      (Some (CHR ''m''), ?xs @ ''-->'')"
    using matches_lit [of "''system''" "Some (CHR ''-'')" "?xs @ ''-->''"] by (simp add: prev_of_def)
  moreover have "matches (Star dot) (Some (CHR ''m''), ?xs @ ''-->'') (prev_of (Some (CHR ''m'')) ?xs, ''-->'')"
    unfolding dot_def by (rule matches_star_chars) simp
  moreover have "matches (lit ''-->'') (prev_of (Some (CHR ''m'')) ?xs, ''-->'') (Some (CHR ''>''), [])"
    using matches_lit [of "''-->''" "prev_of (Some (CHR ''m'')) ?xs" "[]"] by (simp add: prev_of_def)
  ultimately have "matches comment_pattern (None, long_comment) (Some (CHR ''>''), [])"
    unfolding comment_pattern_def seqs.simps matches.simps(4) by (blast intro: relcomppI)
  then show "found comment_pattern long_comment"
    using found_edge_free [of comment_pattern long_comment _ "[]" "[]"] by (simp add: comment_pattern_def)
  show "scan_windows max_scan_len scan_window_overlap long_comment = Some [take 8192 long_comment, drop 7168 long_comment]"
    by (simp add: scan_windows_def windows_from_long windows_from_short len max_scan_len_def scan_window_overlap_def)
  have "CHR ''>'' \<notin> set (take 8192 long_comment)" by (simp add: long_comment_def)
  then show "\<not> found comment_pattern (take 8192 long_comment)" using comment_needs_both_ends by blast
  have "CHR ''<'' \<notin> set (drop 7168 long_comment)" by (simp add: long_comment_def)
  then show "\<not> found comment_pattern (drop 7168 long_comment)" using comment_needs_both_ends by blast
qed

end
