(* ===== verification/Identity.thy ===== *)
theory Identity
  imports Protocol
begin

text \<open>
  Identity-bearing keys (\<open>mcp_armor/meta_identity.py\<close>): the names and words that denote an
  identity, the views of a key under the MCP prefix grammar, its candidate names and word
  tokens.  Characters are below 256; there NFKD followed by dropping combining and invisible
  characters is the table \<open>clean_char\<close>, and NFKC changes nothing afterwards.  The fraction
  slash of the vulgar fractions lies outside the range and is represented by the division sign: like it, it
  is no word character, separates no segments and occurs in no name.
\<close>

section \<open>Names and words\<close>

text \<open>The names as \<open>_norm\<close> leaves them: lower case, without underscores.\<close>

definition subject_names :: "string list" where
  "subject_names = [''user'', ''userid'', ''uid'', ''sub'', ''subject'', ''principal'', ''onbehalfof'', ''act'', ''actor'',
     ''username'', ''email'', ''enduser'', ''enduserid'', ''impersonate'', ''impersonateuser'', ''runas'', ''owner'',
     ''ownerid'', ''identity'', ''caller'', ''customerid'', ''oid'', ''upn'', ''login'', ''preferredusername'',
     ''uniquename'', ''givenname'', ''familyname'', ''nickname'']"

definition tenant_names :: "string list" where
  "tenant_names = [''tenant'', ''tenantid'', ''org'', ''orgid'', ''organization'', ''organisation'', ''account'',
     ''accountid'', ''workspace'', ''workspaceid'', ''project'', ''projectid'', ''team'', ''teamid'', ''customer'',
     ''realm'', ''tid'']"

definition client_names :: "string list" where
  "client_names = [''clientid'', ''azp'', ''appid'', ''cid'']"

definition scope_names :: "string list" where
  "scope_names = [''role'', ''roles'', ''scope'', ''scopes'', ''scp'', ''permissions'', ''groups'', ''entitlements'',
     ''authorities'', ''enduserrole'', ''enduserscope'', ''wids'', ''resourceaccess'']"

definition admin_names :: "string list" where
  "admin_names = [''admin'', ''isadmin'', ''superuser'', ''root'', ''sudo'', ''elevated'']"

definition identity_names :: "string list" where
  "identity_names = subject_names @ tenant_names @ client_names @ scope_names @ admin_names"

definition identity_tokens :: "string list" where
  "identity_tokens = [''tenant'', ''tenants'', ''org'', ''orgs'', ''organization'', ''organisation'', ''user'', ''users'',
     ''username'', ''subject'', ''sub'', ''principal'', ''role'', ''roles'', ''scope'', ''scopes'', ''admin'',
     ''email'', ''owner'', ''account'', ''actor'', ''acting'', ''impersonate'', ''impersonation'',
     ''delegate'', ''delegated'', ''delegation'', ''sudo'', ''uid'', ''enduser'', ''identity'',
     ''customer'', ''workspace'', ''permission'', ''permissions'', ''entitlement'', ''entitlements'',
     ''superuser'', ''realm'', ''team'', ''teams'', ''project'', ''projects'', ''group'', ''groups'',
     ''caller'', ''authorities'', ''authority'', ''elevated'', ''runas'', ''actas'', ''actingas'',
     ''azp'', ''scp'', ''tid'', ''oid'', ''upn'', ''wids'', ''appid'', ''cid'', ''idp'', ''sid'', ''nickname'',
     ''iss'', ''aud'']"

definition token_exempt_words :: "string list" where
  "token_exempt_words = [''root'', ''client'', ''act'', ''id'', ''login'']"

definition affix_tokens :: "string list" where
  "affix_tokens = filter (\<lambda>t. 4 \<le> length t) identity_tokens"

definition affix_qualifiers :: "string list" where
  "affix_qualifiers = [''id'', ''ids'', ''uid'', ''uuid'', ''guid'', ''name'', ''names'', ''role'', ''roles'', ''handle'',
     ''email'', ''mail'', ''slug'', ''key'', ''mode'', ''type'', ''info'', ''scope'', ''scopes'', ''level'', ''list'',
     ''ref'', ''code'', ''num'', ''number'', ''claim'', ''claims'', ''context'', ''ctx'', ''override'']"

definition affix_prefixes :: "string list" where
  "affix_prefixes = [''is'', ''super'', ''end'', ''run'', ''runas'', ''act'', ''actas'', ''acting'', ''as'', ''my'',
     ''current'', ''effective'', ''delegated'', ''impersonated'', ''on'', ''for'', ''target'', ''real'']"

section \<open>Matching form of a key\<close>

text \<open>The letters whose decomposition is a base letter and a combining mark.\<close>

definition base_letters :: "(nat \<times> nat \<times> string) list" where
  "base_letters = [(192, 197, ''A''), (199, 199, ''C''), (200, 203, ''E''), (204, 207, ''I''), (209, 209, ''N''),
     (210, 214, ''O''), (217, 220, ''U''), (221, 221, ''Y''), (224, 229, ''a''), (231, 231, ''c''), (232, 235, ''e''),
     (236, 239, ''i''), (241, 241, ''n''), (242, 246, ''o''), (249, 252, ''u''), (253, 253, ''y''), (255, 255, ''y''),
     (160, 160, '' ''), (168, 168, '' ''), (175, 175, '' ''), (180, 180, '' ''), (184, 184, '' ''),
     (170, 170, ''a''), (178, 178, ''2''), (179, 179, ''3''), (185, 185, ''1''), (186, 186, ''o''),
     (188, 188, ''1'' @ [CHR 0xF7] @ ''4''), (189, 189, ''1'' @ [CHR 0xF7] @ ''2''), (190, 190, ''3'' @ [CHR 0xF7] @ ''4'')]"

definition clean_char :: "char \<Rightarrow> string" where
  "clean_char c = (let n = ord_of c in
     if n < 32 \<or> (127 \<le> n \<and> n < 160) \<or> n = 173 then []
     else if n < 127 then [c]
     else case find (\<lambda>(a, b, t). a \<le> n \<and> n \<le> b) base_letters of Some (_, _, t) \<Rightarrow> t | None \<Rightarrow> [c])"

definition clean_key :: "string \<Rightarrow> string" where
  "clean_key key = concat (map clean_char key)"

definition norm_name :: "string \<Rightarrow> string" where
  "norm_name s = filter (\<lambda>c. re_word c \<and> c \<noteq> CHR ''_'') (casefold s)"

text \<open>\<open>re.split\<close> at every character of a class.\<close>

fun split_if :: "(char \<Rightarrow> bool) \<Rightarrow> string \<Rightarrow> string list" where
  "split_if P [] = [[]]"
| "split_if P (c # s) =
     (if P c then [] # split_if P s
      else case split_if P s of [] \<Rightarrow> [[c]] | w # ws \<Rightarrow> (c # w) # ws)"

definition segments :: "string \<Rightarrow> string list" where
  "segments s = split_if (\<lambda>c. c \<in> set ''/.:@='') s"

definition views :: "string \<Rightarrow> bool \<Rightarrow> string list" where
  "views key prefixed =
     (if \<not> prefixed \<or> CHR ''/'' \<notin> set key then [key]
      else case split_on1 (CHR ''/'') key of
        [prefix, name] \<Rightarrow>
          (let labels = filter (\<lambda>l. l \<noteq> []) (split_on (CHR ''.'') prefix);
               kept = (if length labels > 1 then tl labels else labels)
           in if kept = [] then [name] else [name, join_with (CHR ''.'') (kept @ [name])])
      | _ \<Rightarrow> [key])"

section \<open>Tokens\<close>

text \<open>A space between a lower-case letter or digit and an upper-case letter.\<close>

fun camel_split :: "bool \<Rightarrow> string \<Rightarrow> string" where
  "camel_split low [] = []"
| "camel_split low (c # s) =
     (let n = ord_of c; up = 65 \<le> n \<and> n \<le> 90
      in (if low \<and> up then [CHR '' '', c] else [c]) @ camel_split (97 \<le> n \<and> n \<le> 122 \<or> is_digit c) s)"

definition tokens_of :: "string \<Rightarrow> string list" where
  "tokens_of name = filter (\<lambda>t. t \<noteq> [])
     (split_if (\<lambda>c. \<not> re_word c \<or> c = CHR ''_'') (casefold (camel_split False name)))"

definition name_tokens :: "string \<Rightarrow> bool \<Rightarrow> string list" where
  "name_tokens key prefixed = concat (map tokens_of (views (clean_key key) prefixed))"

definition view_names :: "string \<Rightarrow> string list" where
  "view_names view =
     (let parts = filter (\<lambda>p. p \<noteq> []) (segments view)
      in norm_name view #
         (if parts = [] then []
          else norm_name (last parts)
            # (if 2 \<le> length parts then [norm_name (last (butlast parts) @ last parts)] else [])
            @ (if lower (take 2 (last parts)) \<in> {''x-'', ''x_''} then [norm_name (drop 2 (last parts))] else [])))"

definition candidate_names :: "string \<Rightarrow> bool \<Rightarrow> string list" where
  "candidate_names key prefixed = concat (map view_names (views (clean_key key) prefixed))"

definition compound :: "string \<Rightarrow> bool" where
  "compound t = list_ex (\<lambda>w. (starts_with w t \<and> drop (length w) t \<in> set affix_qualifiers)
     \<or> (ends_with w t \<and> take (length t - length w) t \<in> set affix_prefixes)) affix_tokens"

definition has_identity_word :: "string \<Rightarrow> bool \<Rightarrow> bool" where
  "has_identity_word key prefixed =
     (let toks = name_tokens key prefixed;
          normed = map norm_name toks @ map norm_name (concat (map segments (views (clean_key key) prefixed)))
      in list_ex (\<lambda>t. t \<in> set identity_tokens) toks
         \<or> list_ex (\<lambda>t. t \<in> set identity_names \<and> t \<notin> set token_exempt_words) normed
         \<or> list_ex compound toks)"

definition shares :: "string list \<Rightarrow> string list \<Rightarrow> bool" where
  "shares xs ys = list_ex (\<lambda>x. x \<in> set ys) xs"

section \<open>Percent decoding\<close>

text \<open>\<open>urllib.parse.unquote_to_bytes\<close> of an ASCII run.\<close>

definition hex_digit :: "char \<Rightarrow> nat option" where
  "hex_digit c = (let n = ord_of c in
     if 48 \<le> n \<and> n \<le> 57 then Some (n - 48)
     else if 65 \<le> n \<and> n \<le> 70 then Some (n - 55)
     else if 97 \<le> n \<and> n \<le> 102 then Some (n - 87) else None)"

fun pct_bytes :: "string \<Rightarrow> bytes" where
  "pct_bytes (c # a # b # s) =
     (if c = CHR ''%'' \<and> hex_digit a \<noteq> None \<and> hex_digit b \<noteq> None
      then of_nat (16 * the (hex_digit a) + the (hex_digit b)) # pct_bytes s
      else of_nat (ord_of c) # pct_bytes (a # b # s))"
| "pct_bytes s = map (\<lambda>c. of_nat (ord_of c)) s"

text \<open>\<open>unquote\<close>: every ASCII run is decoded; \<open>dec\<close> is \<open>bytes.decode("utf-8", "replace")\<close>.\<close>

function unquote_runs :: "(bytes \<Rightarrow> string) \<Rightarrow> string \<Rightarrow> string" where
  "unquote_runs dec [] = []"
| "unquote_runs dec (c # s) =
     (if ord_of c < 128
      then dec (pct_bytes (takeWhile (\<lambda>x. ord_of x < 128) (c # s)))
           @ unquote_runs dec (dropWhile (\<lambda>x. ord_of x < 128) s)
      else c # unquote_runs dec s)"
  by pat_completeness auto
termination
  by (relation "measure (\<lambda>(_, s). length s)") (auto simp: le_imp_less_Suc length_dropWhile_le)

definition unquote :: "(bytes \<Rightarrow> string) \<Rightarrow> string \<Rightarrow> string" where
  "unquote dec s = (if CHR ''%'' \<in> set s then unquote_runs dec s else s)"

definition unquote_plus :: "(bytes \<Rightarrow> string) \<Rightarrow> string \<Rightarrow> string" where
  "unquote_plus dec s = unquote dec (map (\<lambda>c. if c = CHR ''+'' then CHR '' '' else c) s)"

text \<open>\<open>is_identity_key\<close> behind the decoding.\<close>

definition identity_text :: "string \<Rightarrow> bool \<Rightarrow> bool" where
  "identity_text k prefixed = (shares (candidate_names k prefixed) identity_names \<or> has_identity_word k prefixed)"

definition is_identity_key :: "(bytes \<Rightarrow> string) \<Rightarrow> string \<Rightarrow> bool \<Rightarrow> bool" where
  "is_identity_key dec key prefixed = identity_text (unquote_plus dec key) prefixed"

section \<open>Facts\<close>

lemma shares_iff: "shares xs ys \<longleftrightarrow> set xs \<inter> set ys \<noteq> {}"
  by (auto simp: shares_def list_ex_iff)

lemma unquote_plus_plain: "CHR ''%'' \<notin> set s \<Longrightarrow> CHR ''+'' \<notin> set s \<Longrightarrow> unquote_plus dec s = s"
proof -
  assume p: "CHR ''%'' \<notin> set s" "CHR ''+'' \<notin> set s"
  then have "map (\<lambda>c. if c = CHR ''+'' then CHR '' '' else c) s = s" by (auto intro: map_idI)
  with p show ?thesis by (simp add: unquote_plus_def unquote_def)
qed

end
