(* ===== verification/Trace.thy ===== *)
theory Trace
  imports Identity
begin

text \<open>
  Trace context in \<open>_meta\<close> (\<open>mcp_armor/tracecontext.py\<close>): the traceparent parser, the
  sanitising of baggage and the rule that a server may not replace the client's trace, with the
  key check of \<open>request_envelope.py\<close> that uses them.
\<close>

section \<open>Traceparent\<close>

definition lower_hex :: "char \<Rightarrow> bool" where
  "lower_hex c = (is_digit c \<or> c \<in> set ''abcdef'')"

definition parse_traceparent :: "json \<Rightarrow> (string \<times> string \<times> string) option" where
  "parse_traceparent v = (case v of
     JStr s \<Rightarrow> (case split_on (CHR ''-'') (strip s) of
       [z, t, p, f] \<Rightarrow>
         if z = ''00'' \<and> length t = 32 \<and> length p = 16 \<and> length f = 2
            \<and> list_all lower_hex t \<and> list_all lower_hex p \<and> list_all lower_hex f
            \<and> t \<noteq> replicate 32 (CHR ''0'') \<and> p \<noteq> replicate 16 (CHR ''0'')
         then Some (t, p, f) else None
     | _ \<Rightarrow> None)
   | _ \<Rightarrow> None)"

definition format_traceparent :: "string \<times> string \<times> string \<Rightarrow> string" where
  "format_traceparent tp = (case tp of (t, p, f) \<Rightarrow> ''00-'' @ t @ ''-'' @ p @ ''-'' @ f)"

definition preserve_client_trace :: "(string, json) dict \<Rightarrow> (string, json) dict \<Rightarrow> (string, json) dict \<times> bool" where
  "preserve_client_trace cm sm =
     (let sent = (\<lambda>tp. [(''traceparent'', JStr (format_traceparent tp))]);
          server = parse_traceparent (get_or_null sm ''traceparent'')
      in case parse_traceparent (get_or_null cm ''traceparent'') of
           None \<Rightarrow> (case server of None \<Rightarrow> [] | Some tp \<Rightarrow> sent tp, False)
         | Some ctp \<Rightarrow>
             (case server of
                Some stp \<Rightarrow> if fst stp = fst ctp then (sent stp, False) else (sent ctp, True)
              | None \<Rightarrow> (sent ctp, dhas sm ''traceparent'')))"

section \<open>Baggage\<close>

definition sensitive_baggage_keys :: "string list" where
  "sensitive_baggage_keys = [''user'', ''userid'', ''username'', ''email'', ''sub'', ''subject'', ''principal'',
     ''tenant'', ''tenantid'', ''org'', ''orgid'', ''organization'', ''organisation'', ''account'', ''accountid'',
     ''session'', ''sessionid'', ''token'', ''accesstoken'', ''authorization'', ''clientid'',
     ''enduser'', ''enduserid'', ''enduserrole'', ''enduserscope'', ''apikey'', ''password'',
     ''secret'', ''customerid'', ''uid'']"

definition norm_key :: "string \<Rightarrow> string" where
  "norm_key key = filter (\<lambda>c. c \<notin> set ''-._'' \<and> \<not> py_space c) (lower key)"

definition baggage_key :: "string \<Rightarrow> bool" where
  "baggage_key k = (1 \<le> length k \<and> length k \<le> 64
     \<and> list_all (\<lambda>c. is_alpha c \<or> is_digit c \<or> c \<in> set ''!#$%&*+.^_`|~-'' \<or> c = CHR 0x27) k)"

text \<open>\<open>urllib.parse.quote(s, safe="")\<close>.\<close>

definition unreserved :: "char \<Rightarrow> bool" where
  "unreserved c = (is_alpha c \<or> is_digit c \<or> c \<in> set ''_.-~'')"

definition upper_hex :: "nat \<Rightarrow> char" where
  "upper_hex n = char_of (if n < 10 then 48 + n else 55 + n)"

definition quote_byte :: "8 word \<Rightarrow> string" where
  "quote_byte b = (let n = unat b in
     if n < 128 \<and> unreserved (char_of n) then [char_of n]
     else [CHR ''%'', upper_hex (n div 16), upper_hex (n mod 16)])"

definition quote_all :: "string \<Rightarrow> string" where
  "quote_all s = concat (map quote_byte (utf8 s))"

definition allowed_baggage :: "(bytes \<Rightarrow> string) \<Rightarrow> string list \<Rightarrow> string list" where
  "allowed_baggage dec keys = map lower (filter (\<lambda>k. norm_key k \<notin> set sensitive_baggage_keys
     \<and> \<not> is_identity_key dec k False) keys)"

text \<open>One member as the entry it becomes; \<open>None\<close> skips it.\<close>

definition baggage_entry :: "(bytes \<Rightarrow> string) \<Rightarrow> string list \<Rightarrow> nat \<Rightarrow> string \<Rightarrow> string option" where
  "baggage_entry dec allowed max_bytes member =
     (if length member > max_bytes then None
      else let m = strip member; key = strip (takeWhile (\<lambda>c. c \<noteq> CHR ''='') m);
               rest = tl (dropWhile (\<lambda>c. c \<noteq> CHR ''='') m)
           in if CHR ''='' \<notin> set m \<or> \<not> baggage_key key \<or> lower key \<notin> set allowed
                \<or> CHR ''%'' \<in> set key \<or> CHR ''+'' \<in> set key then None
              else Some (key @ ''='' @ quote_all (unquote dec (strip (hd (split_on1 (CHR '';'') rest))))))"

text \<open>The loop: an entry that does not fit ends it.\<close>

fun keep_baggage :: "(string \<Rightarrow> string option) \<Rightarrow> nat \<Rightarrow> string list \<Rightarrow> nat \<Rightarrow> string list \<Rightarrow> string list" where
  "keep_baggage entry max_bytes kept used [] = kept"
| "keep_baggage entry max_bytes kept used (m # ms) = (case entry m of
     None \<Rightarrow> keep_baggage entry max_bytes kept used ms
   | Some e \<Rightarrow>
       if used + length e + (if kept \<noteq> [] then 1 else 0) > max_bytes then kept
       else keep_baggage entry max_bytes (kept @ [e]) (used + length e + (if kept \<noteq> [] then 1 else 0)) ms)"

definition sanitize_baggage :: "(bytes \<Rightarrow> string) \<Rightarrow> nat \<Rightarrow> string list \<Rightarrow> json \<Rightarrow> string option" where
  "sanitize_baggage dec max_bytes keys v = (case v of
     JStr s \<Rightarrow>
       if length s > 8192 then None
       else let kept = keep_baggage (baggage_entry dec (allowed_baggage dec keys) max_bytes) max_bytes [] 0
                         (take 64 (split_on (CHR '','') s))
            in if kept = [] then None else Some (join_with (CHR '','') kept)
   | _ \<Rightarrow> None)"

section \<open>Trace keys of a request\<close>

text \<open>A key with neither \<open>%\<close> nor \<open>+\<close> is its own decoding (\<open>unquote_plus_plain\<close>).\<close>

definition suspect_part :: "string \<Rightarrow> bool" where
  "suspect_part part = (let k = strip (takeWhile (\<lambda>c. c \<noteq> CHR ''='') part)
     in CHR ''%'' \<in> set k \<or> CHR ''+'' \<in> set k \<or> identity_text k False)"

definition trace_key_invalid :: "string \<Rightarrow> json \<Rightarrow> bool" where
  "trace_key_invalid key v = (case v of
     JStr s \<Rightarrow>
       if length s > 8192 then True
       else if key = ''traceparent'' then parse_traceparent v = None
       else if key = ''baggage'' then
         list_ex (\<lambda>m. list_ex suspect_part (split_on (CHR '';'') m)) (split_on (CHR '','') s)
       else if key = ''tracestate'' then list_ex suspect_part (split_on (CHR '','') s)
       else False
   | _ \<Rightarrow> True)"

lemma suspect_part_decoded:
  "suspect_part part \<longleftrightarrow> (let k = strip (takeWhile (\<lambda>c. c \<noteq> CHR ''='') part)
     in CHR ''%'' \<in> set k \<or> CHR ''+'' \<in> set k \<or> is_identity_key dec k False)"
proof -
  let ?k = "strip (takeWhile (\<lambda>c. c \<noteq> CHR ''='') part)"
  show ?thesis
  proof (cases "CHR ''%'' \<in> set ?k \<or> CHR ''+'' \<in> set ?k")
    case False
    then have "unquote_plus dec ?k = ?k" by (simp add: unquote_plus_plain)
    then show ?thesis by (simp add: suspect_part_def is_identity_key_def)
  qed (auto simp: suspect_part_def Let_def)
qed

section \<open>What is kept\<close>

lemma keep_baggage_bounds:
  assumes "length (join_with (CHR '','') kept) = used" and "used \<le> max_bytes"
  shows "length (join_with (CHR '','') (keep_baggage entry max_bytes kept used ms)) \<le> max_bytes"
  using assms
proof (induction ms arbitrary: kept used)
  case (Cons m ms)
  show ?case
  proof (cases "entry m")
    case (Some e)
    have "length (join_with (CHR '','') (kept @ [e])) = used + length e + (if kept \<noteq> [] then 1 else 0)"
      unfolding Cons.prems(1) [symmetric] by (cases kept) (simp_all add: join_with_def)
    with Cons.IH [OF this] Cons.prems Some show ?thesis by simp
  qed (simp add: Cons.IH [OF Cons.prems])
qed simp

lemma keep_baggage_entries:
  "e \<in> set (keep_baggage entry max_bytes kept used ms) \<Longrightarrow> e \<in> set kept \<or> (\<exists>m \<in> set ms. entry m = Some e)"
proof (induction ms arbitrary: kept used)
  case (Cons m ms)
  show ?case
  proof (cases "entry m")
    case None
    with Cons.prems Cons.IH [of kept used] show ?thesis by auto
  next
    case (Some x)
    with Cons.prems Cons.IH [of "kept @ [x]"] show ?thesis by (fastforce split: if_splits)
  qed
qed simp

lemma keep_baggage_length: "length (keep_baggage entry max_bytes kept used ms) \<le> length kept + length ms"
proof (induction ms arbitrary: kept used)
  case (Cons m ms)
  then show ?case using Cons.IH [of kept used] Cons.IH [of "kept @ [x]" for x] by (auto split: option.split intro: le_trans [OF Cons.IH])
qed simp

lemma quote_all_chars: "c \<in> set (quote_all s) \<Longrightarrow> unreserved c \<or> c = CHR ''%''"
proof -
  assume "c \<in> set (quote_all s)"
  then obtain b where c: "c \<in> set (quote_byte b)" by (auto simp: quote_all_def)
  have hex: "unreserved (upper_hex n)" if "n < 16" for n
    using that by (auto simp: unreserved_def upper_hex_def is_alpha_def is_digit_def ord_of_def)
  have "unat b < 256" by (rule unat_byte)
  then have "unat b div 16 < 16" "unat b mod 16 < 16" by auto
  with c hex show ?thesis by (auto simp: quote_byte_def Let_def split: if_splits)
qed

text \<open>
  Sanitised baggage is bounded by the byte limit and carries allowlisted keys only: every
  member is a key that equals, up to case, an allowed key that is neither sensitive nor an
  identity key, with a value of unreserved characters and percent escapes, so no member can
  smuggle another one.
\<close>

theorem sanitized_baggage_allowlisted:
  assumes "sanitize_baggage dec max_bytes keys v = Some out"
  shows "length out \<le> max_bytes \<and> (\<exists>es. out = join_with (CHR '','') es \<and> es \<noteq> [] \<and> length es \<le> 64
    \<and> (\<forall>e \<in> set es. \<exists>k q. e = k @ ''='' @ q \<and> (\<forall>c \<in> set q. unreserved c \<or> c = CHR ''%'')
        \<and> (\<exists>a \<in> set keys. lower k = lower a \<and> norm_key a \<notin> set sensitive_baggage_keys \<and> \<not> is_identity_key dec a False)))"
proof -
  let ?entry = "baggage_entry dec (allowed_baggage dec keys) max_bytes"
  from assms obtain s where s: "out = join_with (CHR '','') (keep_baggage ?entry max_bytes [] 0 (take 64 (split_on (CHR '','') s)))"
    "keep_baggage ?entry max_bytes [] 0 (take 64 (split_on (CHR '','') s)) \<noteq> []"
    by (auto simp: sanitize_baggage_def Let_def split: json.splits if_splits)
  let ?es = "keep_baggage ?entry max_bytes [] 0 (take 64 (split_on (CHR '','') s))"
  from keep_baggage_length [of ?entry max_bytes "[]" 0 "take 64 (split_on (CHR '','') s)"] have "length ?es \<le> 64" by simp
  moreover have "length out \<le> max_bytes"
    unfolding s(1) by (rule keep_baggage_bounds) (simp_all add: join_with_def)
  moreover have "\<exists>k q. e = k @ ''='' @ q \<and> (\<forall>c \<in> set q. unreserved c \<or> c = CHR ''%'')
      \<and> (\<exists>a \<in> set keys. lower k = lower a \<and> norm_key a \<notin> set sensitive_baggage_keys \<and> \<not> is_identity_key dec a False)"
    if "e \<in> set ?es" for e
  proof -
    from keep_baggage_entries [OF that] obtain m where "?entry m = Some e" by auto
    then obtain k q where e: "e = k @ ''='' @ quote_all q" and "lower k \<in> set (allowed_baggage dec keys)"
      by (auto simp: baggage_entry_def Let_def split: if_splits)
    then obtain a where "a \<in> set keys" "lower k = lower a" "norm_key a \<notin> set sensitive_baggage_keys"
      "\<not> is_identity_key dec a False" by (auto simp: allowed_baggage_def)
    moreover have "\<forall>c \<in> set (quote_all q). unreserved c \<or> c = CHR ''%''" using quote_all_chars by blast
    ultimately show ?thesis using e by blast
  qed
  ultimately show ?thesis using s by blast
qed

theorem sanitized_baggage_allowlisted_witness:
  "\<exists>out. sanitize_baggage (\<lambda>b. []) 20 [''k''] (JStr ''k=!'') = Some out \<and> length out \<le> 20"
proof -
  have s: "sanitize_baggage (\<lambda>b. []) 20 [''k''] (JStr ''k=!'') = Some ''k=%21''" by code_simp
  from sanitized_baggage_allowlisted [OF s] s show ?thesis by simp
qed

text \<open>
  The allowlist compares lower-case keys, so a camel-case spelling of an allowed key passes
  although it names an identity.
\<close>

lemma camel_case_identity_key_passes:
  "sanitize_baggage (\<lambda>b. []) 20 [''xuser''] (JStr ''xUser=!'') = Some ''xUser=%21''"
  "is_identity_key (\<lambda>b. []) ''xUser'' False"
  by code_simp+

section \<open>The client's trace\<close>

lemma lower_hex_chars: "lower_hex c \<Longrightarrow> c \<noteq> CHR ''-'' \<and> \<not> py_space c"
  by (auto simp: lower_hex_def is_digit_def py_space_def ord_of_def Let_def)

lemma parse_format:
  assumes "parse_traceparent v = Some tp"
  shows "parse_traceparent (JStr (format_traceparent tp)) = Some tp"
proof -
  obtain t p f where tp: "tp = (t, p, f)" by (cases tp)
  from assms have c: "length t = 32" "length p = 16" "length f = 2" "list_all lower_hex t" "list_all lower_hex p"
    "list_all lower_hex f" "t \<noteq> replicate 32 (CHR ''0'')" "p \<noteq> replicate 16 (CHR ''0'')"
    by (auto simp: tp parse_traceparent_def split: json.splits list.splits if_splits)
  then have nd: "CHR ''-'' \<notin> set t" "CHR ''-'' \<notin> set p" "CHR ''-'' \<notin> set f"
    using lower_hex_chars by (auto simp: list_all_iff)
  let ?s = "''00-'' @ t @ ''-'' @ p @ ''-'' @ f"
  have "\<not> py_space (last f)" using c(3,6) lower_hex_chars by (cases f rule: rev_cases) (auto simp: list_all_iff)
  then have "strip ?s = ?s" by (intro strip_id) (use c(3) in \<open>auto simp: py_space_def ord_of_def\<close>)
  moreover have "split_on (CHR ''-'') ?s = [''00'', t, p, f]"
    using nd by (simp add: split_on_append_sep split_on_none)
  ultimately show ?thesis using c by (simp add: parse_traceparent_def tp format_traceparent_def)
qed

text \<open>
  A server cannot replace the client's trace.  When the client sent a valid traceparent,
  what is kept is a valid traceparent with the client's trace id, and the report of an attempt
  is true exactly when the server sent a traceparent that does not continue this trace.
\<close>

theorem client_trace_is_kept:
  assumes "parse_traceparent (get_or_null cm ''traceparent'') = Some (t, p, f)"
  shows "\<exists>s p' f'. fst (preserve_client_trace cm sm) = [(''traceparent'', JStr s)]
    \<and> parse_traceparent (JStr s) = Some (t, p', f')
    \<and> (snd (preserve_client_trace cm sm) \<longleftrightarrow> dhas sm ''traceparent''
        \<and> (\<forall>p f. parse_traceparent (get_or_null sm ''traceparent'') \<noteq> Some (t, p, f)))"
proof (cases "parse_traceparent (get_or_null sm ''traceparent'')")
  case None
  with assms parse_format [OF assms] show ?thesis by (auto simp: preserve_client_trace_def)
next
  case (Some stp)
  then have "dhas sm ''traceparent''"
    by (auto simp: get_or_null_def dhas_conv_dget parse_traceparent_def split: option.splits)
  with assms parse_format [OF assms] Some parse_format [OF Some] show ?thesis
    by (cases stp) (auto simp: preserve_client_trace_def)
qed

theorem client_trace_is_kept_witness:
  "\<exists>s. fst (preserve_client_trace [(''traceparent'', JStr (format_traceparent (replicate 32 (CHR ''1''), replicate 16 (CHR ''2''), ''00'')))] [])
     = [(''traceparent'', JStr s)]"
proof -
  let ?tp = "(replicate 32 (CHR ''1''), replicate 16 (CHR ''2''), ''00'')"
  have "parse_traceparent (get_or_null [(''traceparent'', JStr (format_traceparent ?tp))] ''traceparent'') = Some ?tp"
    by code_simp
  from client_trace_is_kept [OF this] show ?thesis by blast
qed

end
