(* ===== verification/Envelope.thy ===== *)
theory Envelope
  imports Trace Engine
begin

text \<open>
  The request envelope (\<open>mcp_armor/request_envelope.py\<close>, \<open>engines/envelope.py\<close>): routing
  headers against the JSON-RPC body, \<open>_meta\<close> claims against the authenticated principal, and
  the engine that applies both.  \<open>loads\<close> is \<open>json.loads\<close>.  A \<open>RequestMetadataError\<close> carries
  its code in the class and its \<open>reason\<close> as the site.
\<close>

section \<open>Headers\<close>

definition mismatch :: "string \<Rightarrow> exn" where
  "mismatch header = Cosai (RequestMetadataError (-32020)) header"

definition routing_names :: "string list" where
  "routing_names = [''mcp-protocol-version'', ''mcp-method'', ''mcp-name'']"

definition is_routing :: "string \<Rightarrow> bool" where
  "is_routing name = (name \<in> set routing_names \<or> starts_with ''mcp-param-'' name)"

definition dashed :: "string \<Rightarrow> string" where
  "dashed s = map (\<lambda>c. if c = CHR ''_'' then CHR ''-'' else c) s"

definition alias_of :: "string \<Rightarrow> string" where
  "alias_of name = (let a = dashed name in if starts_with ''http-'' a then drop 5 a else a)"

definition add_value :: "string \<Rightarrow> 'a \<Rightarrow> (string, 'a list) dict \<Rightarrow> (string, 'a list) dict" where
  "add_value k v d = AList.update k ((case dget d k of None \<Rightarrow> [] | Some vs \<Rightarrow> vs) @ [v]) d"

fun wsgi_headers :: "(string \<times> string) list \<Rightarrow> (string, string list) dict \<Rightarrow> (string, string list) dict" where
  "wsgi_headers [] out = out"
| "wsgi_headers ((k, v) # ps) out =
     wsgi_headers ps (if starts_with ''HTTP_'' k then add_value (dashed (lower (drop 5 k))) v out else out)"

fun pair_headers :: "(string \<times> string) list \<Rightarrow> (string, string list) dict \<Rightarrow> (string, string list) dict result" where
  "pair_headers [] out = Inr out"
| "pair_headers ((k, v) # ps) out =
     (let name = lower (strip k) in
      if alias_of name \<noteq> name \<and> is_routing (alias_of name) then Inl (mismatch ''header-alias'')
      else pair_headers ps (add_value name v out))"

definition header_multimap :: "bool \<Rightarrow> (string \<times> string) list \<Rightarrow> (string, string list) dict result" where
  "header_multimap wsgi ps = (if wsgi then Inr (wsgi_headers ps []) else pair_headers ps [])"

definition single :: "(string, string list) dict \<Rightarrow> string \<Rightarrow> string option result" where
  "single hdrs name = (case dget hdrs (lower name) of
     None \<Rightarrow> Inr None
   | Some [v] \<Rightarrow> Inr (Some v)
   | Some _ \<Rightarrow> Inl (mismatch name))"

section \<open>The envelope\<close>

definition unsupported :: exn where
  "unsupported = Cosai (RequestMetadataError (-32022)) ''unsupported_version''"

definition param_headers :: "(string, string list) dict \<Rightarrow> string list" where
  "param_headers hdrs = filter (starts_with (lower header_param_prefix)) (map fst hdrs)"

definition legacy_gate :: "string list \<Rightarrow> (string, string list) dict \<Rightarrow> unit result" where
  "legacy_gate supported hdrs =
     (if dhas hdrs (lower header_method) then Inl (mismatch header_method)
      else if dhas hdrs (lower header_name) then Inl (mismatch header_name)
      else if param_headers hdrs \<noteq> [] then Inl (mismatch (header_param_prefix @ ''*''))
      else bindR (single hdrs header_protocol_version) (\<lambda>hv. case hv of
        None \<Rightarrow> Inr ()
      | Some v \<Rightarrow> if v \<in> set legacy_versions then Inr ()
                 else if v \<in> set supported then Inl (mismatch header_protocol_version) else Inl unsupported))"

text \<open>The version: \<open>Inl\<close> of an error or the version header and body agree on.\<close>

definition check_version :: "string list \<Rightarrow> (string, string list) dict \<Rightarrow> json \<Rightarrow> string result" where
  "check_version supported hdrs raw_meta =
     bindR (single hdrs header_protocol_version) (\<lambda>header_version.
       let version = (case raw_meta of JObj d \<Rightarrow> get_or_null d meta_protocol_version | _ \<Rightarrow> JNull);
           present = (case raw_meta of JObj d \<Rightarrow> dhas d meta_protocol_version | _ \<Rightarrow> False)
       in if (raw_meta \<noteq> JNull \<and> \<not> is_obj raw_meta) \<or> (present \<and> \<not> is_str version)
          then Inl (Cosai (RequestMetadataError (-32602)) ''invalid_meta'')
          else case version of
            JStr v \<Rightarrow>
              if header_version \<noteq> Some v then Inl (mismatch header_protocol_version)
              else if v \<notin> set supported then Inl unsupported
              else Inr v
          | _ \<Rightarrow> bindR (legacy_gate supported hdrs) (\<lambda>_.
              Inl (Cosai (RequestMetadataError (-32602)) ''missing_meta'')))"

definition check_method :: "(string, string list) dict \<Rightarrow> string \<Rightarrow> unit result" where
  "check_method hdrs m = bindR (single hdrs header_method) (\<lambda>h.
     if h \<noteq> Some m then Inl (mismatch header_method) else Inr ())"

definition check_name :: "(string, string list) dict \<Rightarrow> string \<Rightarrow> (string, json) dict \<Rightarrow> unit result" where
  "check_name hdrs m params = bindR (single hdrs header_name) (\<lambda>raw.
     if dhas name_bearing_methods m then
       (case mcp_name_for m params of
          None \<Rightarrow> Inl (Cosai (RequestMetadataError (-32602)) ''invalid_name'')
        | Some n \<Rightarrow> if raw \<noteq> Some (encode_header_value n) then Inl (mismatch header_name) else Inr ())
     else if raw \<noteq> None then Inl (mismatch header_name) else Inr ())"

definition passes_through :: "json \<Rightarrow> string list" where
  "passes_through schema = map (\<lambda>a. hd (snd a)) (filter (\<lambda>a. length (snd a) > 1) (x_mcp_header_annotations schema))"

text \<open>The arguments as the server will run them: all decoded, and decoded where an annotation reaches through.\<close>

definition argument_views :: "(string \<Rightarrow> loads_result) \<Rightarrow> json \<Rightarrow> json \<Rightarrow> (json \<times> json) result" where
  "argument_views loads schema raw = (case raw of
     JObj kvs \<Rightarrow> bindR (decoded_json_string_arguments loads raw) (\<lambda>decoded.
       Inr (JObj (dict_merge kvs decoded),
            JObj (dict_merge kvs (filter (\<lambda>p. fst p \<in> set (passes_through schema)) decoded))))
   | _ \<Rightarrow> Inr (raw, raw))"

definition check_annotation :: "(string, string list) dict \<Rightarrow> (string, string) dict \<Rightarrow> json \<Rightarrow> string \<times> string list \<Rightarrow> unit result" where
  "check_annotation hdrs expected args a = (case a of (name, path) \<Rightarrow>
     let header = lower (header_param_prefix @ name) in
     bindR (single hdrs header) (\<lambda>raw. case dget expected header of
       None \<Rightarrow> if arg_at args path \<noteq> JNull \<or> raw \<noteq> None then Inl (mismatch (header_param_prefix @ name)) else Inr ()
     | Some want \<Rightarrow> if raw \<noteq> Some want then Inl (mismatch (header_param_prefix @ name)) else Inr ()))"

fun check_annotations :: "(string, string list) dict \<Rightarrow> (string, string) dict \<Rightarrow> json \<Rightarrow> (string \<times> string list) list \<Rightarrow> unit result" where
  "check_annotations hdrs expected args [] = Inr ()"
| "check_annotations hdrs expected args (a # as) =
     bindR (check_annotation hdrs expected args a) (\<lambda>_. check_annotations hdrs expected args as)"

definition lower_keys :: "(string, 'a) dict \<Rightarrow> (string, 'a) dict" where
  "lower_keys d = foldl (\<lambda>acc (k, v). AList.update (lower k) v acc) [] d"

definition check_params :: "(string \<Rightarrow> loads_result) \<Rightarrow> (string, json) dict option \<Rightarrow> (string, string list) dict
    \<Rightarrow> string \<Rightarrow> (string, json) dict \<Rightarrow> unit result" where
  "check_params loads schemas hdrs m params =
     (case (if m = ''tools/call'' then schemas else None) of
        None \<Rightarrow> if param_headers hdrs \<noteq> [] then Inl (mismatch (header_param_prefix @ ''*'')) else Inr ()
      | Some known \<Rightarrow>
          (case (case get_or_null params ''name'' of JStr t \<Rightarrow> dget known t | _ \<Rightarrow> None) of
             None \<Rightarrow> Inl (Cosai (RequestMetadataError (-32602)) ''unknown_tool'')
           | Some schema \<Rightarrow>
               (let raw = get_or_null params ''arguments''; as = x_mcp_header_annotations schema in
                bindR (argument_views loads schema raw) (\<lambda>(decoded, effective).
                  if schema_case_variant_keys schema raw \<noteq> [] \<or> schema_case_variant_keys schema decoded \<noteq> []
                  then Inl (Cosai (RequestMetadataError (-32602)) ''case_variant_argument'')
                  else if \<not> list_all (\<lambda>h. h \<in> set (map (\<lambda>a. lower (header_param_prefix @ fst a)) as)) (param_headers hdrs)
                  then Inl (mismatch (header_param_prefix @ ''*''))
                  else check_annotations hdrs (lower_keys (x_mcp_param_headers schema effective)) effective as))))"

definition request_params :: "(string, json) dict \<Rightarrow> (string, json) dict" where
  "request_params d = (case get_or_null d ''params'' of JObj p \<Rightarrow> p | _ \<Rightarrow> [])"

definition validate_request_metadata :: "(string \<Rightarrow> loads_result) \<Rightarrow> string list \<Rightarrow> (string, json) dict option
    \<Rightarrow> bool \<Rightarrow> (string \<times> string) list \<Rightarrow> json \<Rightarrow> string result" where
  "validate_request_metadata loads supported schemas wsgi headers body =
     bindR (header_multimap wsgi headers) (\<lambda>hdrs. case body of
       JArr _ \<Rightarrow> bindR (legacy_gate supported hdrs) (\<lambda>_. Inl (Cosai (RequestMetadataError (-32600)) ''batch''))
     | JObj d \<Rightarrow>
         (case dget d ''method'' of
            None \<Rightarrow> Inl (Cosai (RequestMetadataError (-32600)) ''not_a_request'')
          | Some (JStr m) \<Rightarrow>
              (let params = request_params d in
               bindR (check_version supported hdrs (get_or_null params ''_meta'')) (\<lambda>v.
               bindR (check_method hdrs m) (\<lambda>_.
               bindR (check_name hdrs m params) (\<lambda>_.
               bindR (check_params loads schemas hdrs m params) (\<lambda>_. Inr v)))))
          | Some _ \<Rightarrow> Inl (Cosai (RequestMetadataError (-32600)) ''invalid_request''))
     | _ \<Rightarrow> Inl (Cosai (RequestMetadataError (-32600)) ''invalid_request''))"

section \<open>Identity claims in \<open>_meta\<close>\<close>

record principal_info =
  pi_subject :: json
  pi_tenant :: json
  pi_client :: json
  pi_scopes :: "string list"

definition as_set :: "json \<Rightarrow> string list option" where
  "as_set v = (case v of
     JStr s \<Rightarrow> Some (split_ws (map (\<lambda>c. if c = CHR '','' then CHR '' '' else c) s))
   | JArr xs \<Rightarrow> if list_all is_str xs then Some (map (\<lambda>x. case x of JStr s \<Rightarrow> s | _ \<Rightarrow> []) xs) else None
   | _ \<Rightarrow> None)"

definition admin_conflict :: "json \<Rightarrow> string list \<Rightarrow> bool" where
  "admin_conflict v ss = (case v of
     JFloat _ \<Rightarrow> True | JArr _ \<Rightarrow> True | JObj _ \<Rightarrow> True
   | _ \<Rightarrow> v \<notin> {JBool False, JNull, JInt 0, JStr ''false''} \<and> ''admin'' \<notin> set ss)"

definition claim_conflicts :: "string list \<Rightarrow> json \<Rightarrow> principal_info \<Rightarrow> bool" where
  "claim_conflicts names v p =
     (if shares names subject_names then \<not> (is_str v \<and> py_eq v (pi_subject p))
      else if shares names tenant_names then \<not> (is_str v \<and> py_eq v (pi_tenant p))
      else if shares names client_names then \<not> (is_str v \<and> py_eq v (pi_client p))
      else if shares names scope_names then
        (case as_set v of None \<Rightarrow> True | Some claimed \<Rightarrow> \<not> list_all (\<lambda>s. s \<in> set (pi_scopes p)) claimed)
      else if shares names admin_names then admin_conflict v (pi_scopes p)
      else False)"

text \<open>The verdict of \<open>_visit\<close> on a key; otherwise the value is descended into.\<close>

definition key_refused :: "principal_info \<Rightarrow> string \<Rightarrow> json \<Rightarrow> bool \<Rightarrow> bool \<Rightarrow> bool" where
  "key_refused p key v prefixed approved =
     (let names = candidate_names key prefixed in
      if shares names identity_names then claim_conflicts names v p
      else \<not> approved \<and> has_identity_word key prefixed)"

text \<open>\<open>_descend\<close>, as the list of paths it reports; \<open>depth\<close> and \<open>limit\<close> as in the source.\<close>

fun descend :: "principal_info \<Rightarrow> nat \<Rightarrow> nat \<Rightarrow> string \<Rightarrow> json \<Rightarrow> string list"
  and visit_items :: "principal_info \<Rightarrow> nat \<Rightarrow> nat \<Rightarrow> string \<Rightarrow> (string \<times> json) list \<Rightarrow> string list"
  and descend_list :: "principal_info \<Rightarrow> nat \<Rightarrow> nat \<Rightarrow> string \<Rightarrow> nat \<Rightarrow> json list \<Rightarrow> string list" where
  "descend p limit depth path (JObj d) =
     (if d = [] then [] else if depth + 1 \<ge> limit then [path] else visit_items p limit (depth + 1) path d)"
| "descend p limit depth path (JArr xs) =
     (if xs = [] then [] else if depth + 1 \<ge> limit then [path]
      else descend_list p limit (depth + 1) path 0 xs @ (if length xs > 256 then [path] else []))"
| "descend p limit depth path _ = []"
| "visit_items p limit depth path [] = []"
| "visit_items p limit depth path ((k, v) # d) =
     (let sub = path @ ''>'' @ k in if key_refused p k v False False then [sub] else descend p limit depth sub v)
     @ visit_items p limit depth path d"
| "descend_list p limit depth path i [] = []"
| "descend_list p limit depth path i (x # xs) =
     (if i \<ge> 256 then []
      else descend p limit depth (path @ ''>'' @ show_nat i) x @ descend_list p limit depth path (Suc i) xs)"

definition max_meta_depth :: nat where "max_meta_depth = 4"
definition max_self_reported_depth :: nat where "max_self_reported_depth = 8"

definition trace_keys :: "string list" where
  "trace_keys = [''traceparent'', ''tracestate'', ''baggage'']"

definition self_reported_keys :: "string list" where
  "self_reported_keys = [meta_client_info, meta_client_capabilities]"

definition slashes_in :: "string \<Rightarrow> nat" where
  "slashes_in k = length (filter (\<lambda>c. c = CHR ''/'') k)"

definition top_level :: "principal_info \<Rightarrow> string list option \<Rightarrow> string \<times> json \<Rightarrow> string list" where
  "top_level p allow kv = (case kv of (k, v) \<Rightarrow>
     if k = meta_protocol_version then
       (case v of JStr s \<Rightarrow> if length s \<le> 64 then [] else [k] | _ \<Rightarrow> [k])
     else if slashes_in k > 1 then [k]
     else if k \<in> set trace_keys then (if trace_key_invalid k v then [k] else [])
     else if k \<in> set self_reported_keys then descend p max_self_reported_depth 0 k v
     else if (case allow of None \<Rightarrow> False | Some ks \<Rightarrow> k \<notin> set ks) then [k]
     else if key_refused p k v True (allow \<noteq> None) then [k]
     else descend p max_meta_depth 0 k v)"

definition printable :: "char \<Rightarrow> bool" where
  "printable c = (let n = ord_of c in (32 \<le> n \<and> n < 127) \<or> (160 < n \<and> n \<noteq> 173))"

definition safe_key :: "string \<Rightarrow> string" where
  "safe_key k = map (\<lambda>c. if printable c then c else CHR ''?'') (take 128 k)"

text \<open>The message names the offending keys only.\<close>

definition meta_error :: "string list \<Rightarrow> exn" where
  "meta_error ks = Cosai MetaTrustError (take 300 (join_sep '', '' (sort ks)))"

definition reconcile_meta :: "(string, json) dict \<Rightarrow> principal_info \<Rightarrow> string list option \<Rightarrow> unit result" where
  "reconcile_meta meta p allowed =
     (let bad = concat (map (top_level p allowed) meta)
      in if bad = [] then Inr () else Inl (meta_error (take 32 (sort (map safe_key bad)))))"

section \<open>The engine\<close>

record envelope_engine =
  ee_allowed :: "string list option"
  ee_schemas :: "(string, json) dict"
  ee_cap_warned :: bool

definition new_envelope_engine :: "string list option \<Rightarrow> envelope_engine" where
  "new_envelope_engine allowed = \<lparr>ee_allowed = allowed, ee_schemas = [], ee_cap_warned = False\<rparr>"

definition max_registered_tools :: nat where "max_registered_tools = 4096"

definition named_tool :: "json \<Rightarrow> (string \<times> json) option" where
  "named_tool t = (case t of
     JObj d \<Rightarrow> (case get_or_null d ''name'' of JStr n \<Rightarrow> Some (n, get_or_null d ''inputSchema'') | _ \<Rightarrow> None)
   | _ \<Rightarrow> None)"

fun learn_tools :: "json list \<Rightarrow> (string, json) dict \<Rightarrow> nat \<Rightarrow> (string, json) dict \<times> nat" where
  "learn_tools [] schemas dropped = (schemas, dropped)"
| "learn_tools (t # ts) schemas dropped = (case named_tool t of
     None \<Rightarrow> learn_tools ts schemas dropped
   | Some (n, s) \<Rightarrow>
       if dhas schemas n then learn_tools ts schemas dropped
       else if length schemas \<ge> max_registered_tools then learn_tools ts schemas (dropped + 1)
       else learn_tools ts (schemas @ [(n, s)]) dropped)"

definition envelope_register_tools :: "json list \<Rightarrow> envelope_engine \<Rightarrow> envelope_engine" where
  "envelope_register_tools ts e = (case learn_tools ts (ee_schemas e) 0 of (schemas, dropped) \<Rightarrow>
     e\<lparr>ee_schemas := schemas, ee_cap_warned := ee_cap_warned e \<or> dropped > 0\<rparr>)"

definition principal_of :: "ctx \<Rightarrow> principal_info" where
  "principal_of c = \<lparr>pi_subject = or_else (user_id c) (JStr []), pi_tenant = tenant_id c, pi_client = JNull,
     pi_scopes = scopes c\<rparr>"

definition envelope_body :: "mcp_request \<Rightarrow> json" where
  "envelope_body req = JObj [(''jsonrpc'', JStr ''2.0''), (''method'', JStr (rq_method req)), (''params'', JObj (rq_params req))]"

text \<open>A missing \<open>_meta\<close> version without routing headers is a legacy request and passes.\<close>

definition check_envelope :: "(string \<Rightarrow> loads_result) \<Rightarrow> mcp_request \<Rightarrow> envelope_engine \<Rightarrow> unit result" where
  "check_envelope loads req e =
     (case validate_request_metadata loads modern_versions (Some (ee_schemas e)) False
             (if rq_header_pairs req \<noteq> [] then rq_header_pairs req else rq_headers req) (envelope_body req) of
        Inr _ \<Rightarrow> Inr ()
      | Inl x \<Rightarrow> if x = Cosai (RequestMetadataError (-32602)) ''missing_meta'' then Inr () else Inl x)"

definition envelope_on_request :: "(string \<Rightarrow> loads_result) \<Rightarrow> envelope_engine request_hook_fn" where
  "envelope_on_request loads c req e =
     (bindR (case get_or_null (rq_params req) ''_meta'' of
         JNull \<Rightarrow> Inr ()
       | JObj meta \<Rightarrow> reconcile_meta meta (principal_of c) (ee_allowed e)
       | _ \<Rightarrow> Inl (meta_error [''_meta''])) (\<lambda>_.
      if rq_transport req \<noteq> ''http'' then Inr c
      else bindR (check_envelope loads req e) (\<lambda>_. Inr c)), e)"

interpretation envelope_rq: request_hook "envelope_on_request loads" for loads
  by unfold_locales (auto simp: envelope_on_request_def bindR_eq_Inr split: if_splits)

section \<open>Headers agree with the body\<close>

text \<open>The values sent under a name, and the values the multimap holds.\<close>

definition values_of :: "(string \<times> string) list \<Rightarrow> string \<Rightarrow> string list" where
  "values_of headers name = map snd (filter (\<lambda>h. lower (strip (fst h)) = name) headers)"

definition held :: "(string, string list) dict \<Rightarrow> string \<Rightarrow> string list" where
  "held d name = (case dget d name of None \<Rightarrow> [] | Some vs \<Rightarrow> vs)"

definition no_empty :: "(string, string list) dict \<Rightarrow> bool" where
  "no_empty d = (\<forall>name. dget d name \<noteq> Some [])"

lemma held_add: "held (add_value k v d) name = (if name = k then held d k @ [v] else held d name)"
  by (auto simp: held_def add_value_def update_conv')

lemma no_empty_add: "no_empty d \<Longrightarrow> no_empty (add_value k v d)"
  by (auto simp: no_empty_def add_value_def update_conv')

lemma pair_headers_held:
  "pair_headers ps out = Inr hdrs \<Longrightarrow> no_empty out \<Longrightarrow> no_empty hdrs \<and> held hdrs name = held out name @ values_of ps name"
  by (induction ps out rule: pair_headers.induct)
     (auto simp: Let_def values_of_def held_add no_empty_add split: if_splits)

lemma multimap_held:
  assumes "header_multimap False headers = Inr hdrs"
  shows "held hdrs = values_of headers" and "no_empty hdrs"
  using pair_headers_held [of headers "[]" hdrs] assms
  by (auto simp: header_multimap_def no_empty_def held_def)

lemma single_held: "no_empty hdrs \<Longrightarrow> single hdrs name = Inr r \<Longrightarrow>
    held hdrs (lower name) = (case r of None \<Rightarrow> [] | Some v \<Rightarrow> [v])"
  by (auto simp: single_def held_def no_empty_def split: option.splits list.splits)

lemma held_keys: "no_empty hdrs \<Longrightarrow> dhas hdrs name \<longleftrightarrow> held hdrs name \<noteq> []"
  by (auto simp: held_def no_empty_def dhas_conv_dget split: option.splits)

lemma lower_idem [simp]: "lower (lower s) = lower s"
proof -
  have "lower_char (lower_char c) = lower_char c" for c
    by (auto simp: lower_char_def ord_of_def Let_def)
  then show ?thesis by (simp add: lower_def)
qed

section \<open>Expected parameter headers\<close>

lemma fold_update_new:
  "distinct (map fst acc @ map key as) \<Longrightarrow>
   foldl (\<lambda>hs a. case val a of None \<Rightarrow> hs | Some v \<Rightarrow> AList.update (key a) v hs) acc as
     = acc @ concat (map (\<lambda>a. case val a of None \<Rightarrow> [] | Some v \<Rightarrow> [(key a, v)]) as)"
proof (induction as arbitrary: acc)
  case (Cons a as)
  have new: "\<not> dhas acc (key a)" using Cons.prems by auto
  have d: "distinct (map fst acc @ map key as)" "distinct (map fst (acc @ [(key a, v)]) @ map key as)" for v
    using Cons.prems by auto
  show ?case
    using Cons.IH [OF d(1)] Cons.IH [OF d(2)] new by (auto simp: wf_dict_update_new split: option.splits)
qed simp

lemma expected_header:
  fixes schema args
  defines "as \<equiv> x_mcp_header_annotations schema" and "h \<equiv> \<lambda>a. lower (header_param_prefix @ fst a)"
  assumes "a \<in> set as"
  shows "dget (lower_keys (x_mcp_param_headers schema args)) (h a)
    = (if is_obj args then header_param_value (arg_at args (snd a)) else None)"
proof (cases "is_obj args")
  case True
  let ?key = "\<lambda>a. header_param_prefix @ fst a" and ?val = "\<lambda>a. header_param_value (arg_at args (snd a))"
  let ?L = "concat (map (\<lambda>a. case ?val a of None \<Rightarrow> [] | Some v \<Rightarrow> [(?key a, v)]) as)"
  have dl: "distinct (map h as)"
  proof -
    have "distinct (map (\<lambda>a. lower (fst a)) as)"
      unfolding as_def x_mcp_header_annotations_def by (rule valid_annotations_distinct)
    then show ?thesis by (simp add: h_def lower_def distinct_map inj_on_def)
  qed
  then have dk: "distinct (map ?key as)" unfolding h_def distinct_map inj_on_def by metis
  have x: "x_mcp_param_headers schema args = ?L"
    using fold_update_new [of "[]" ?key as ?val] dk True
    by (simp add: x_mcp_param_headers_def as_def case_prod_unfold)
  have lk: "lower_keys ?L = concat (map (\<lambda>a. case ?val a of None \<Rightarrow> [] | Some v \<Rightarrow> [(h a, v)]) as)"
  proof -
    have "foldl (\<lambda>acc (k, v). AList.update (lower k) v acc) acc ?L
        = foldl (\<lambda>hs a. case ?val a of None \<Rightarrow> hs | Some v \<Rightarrow> AList.update (h a) v hs) acc as" for acc
      unfolding h_def by (induction as arbitrary: acc) (auto split: option.splits)
    with fold_update_new [of "[]" h as ?val] dl show ?thesis by (simp add: lower_keys_def)
  qed
  have "dget (concat (map (\<lambda>a. case ?val a of None \<Rightarrow> [] | Some v \<Rightarrow> [(h a, v)]) as)) (h a) = ?val a"
    using dl \<open>a \<in> set as\<close>
  proof (induction as)
    case (Cons b bs)
    have "dget (concat (map (\<lambda>a. case ?val a of None \<Rightarrow> [] | Some v \<Rightarrow> [(h a, v)]) bs)) (h b) = None"
      using Cons.prems(1) by (force simp: map_of_eq_None_iff split: option.splits)
    moreover have "h a \<noteq> h b" if "a \<in> set bs" using Cons.prems(1) that by (metis distinct.simps(2) image_eqI list.set_map list.simps(9))
    ultimately show ?case using Cons by (auto simp: map_add_def split: option.splits)
  qed simp
  then show ?thesis using True unfolding x lk by simp
next
  case False
  then show ?thesis by (simp add: x_mcp_param_headers_def lower_keys_def)
qed

lemma annotation_path: "(name, path, t) \<in> set (walk_props n schema pre) \<Longrightarrow> path \<noteq> []"
  "(name, path, t) \<in> set (walk_items n ps pre) \<Longrightarrow> path \<noteq> []"
  by (induction n schema pre and n ps pre rule: walk_props_walk_items.induct)
     (fastforce split: json.splits option.splits if_splits)+

definition arg_rendered :: "json \<Rightarrow> string list \<Rightarrow> string list" where
  "arg_rendered args path = (case header_param_value (arg_at args path) of None \<Rightarrow> [] | Some w \<Rightarrow> [w])"

lemma arg_at_other: "\<not> is_obj args \<Longrightarrow> path \<noteq> [] \<Longrightarrow> arg_at args path = JNull"
  by (cases path; cases args) auto

lemma check_annotations_ok:
  assumes "check_annotations hdrs expected args as = Inr ()" and "(name, path) \<in> set as"
  shows "check_annotation hdrs expected args (name, path) = Inr ()"
  using assms by (induction as) (auto simp: bindR_eq_Inr)

text \<open>What the parameter headers of an accepted call look like.\<close>

definition params_mirrored :: "(string \<Rightarrow> loads_result) \<Rightarrow> (string, json) dict \<Rightarrow> (string, json) dict \<Rightarrow> (string \<Rightarrow> string list) \<Rightarrow> bool" where
  "params_mirrored loads known params sent =
     (\<exists>t schema decoded args. get_or_null params ''name'' = JStr t \<and> dget known t = Some schema
        \<and> argument_views loads schema (get_or_null params ''arguments'') = Inr (decoded, args)
        \<and> (\<forall>(name, path) \<in> set (x_mcp_header_annotations schema).
             sent (lower (header_param_prefix @ name)) = arg_rendered args path
             \<and> (arg_rendered args path = [] \<longrightarrow> arg_at args path = JNull))
        \<and> (\<forall>h. starts_with (lower header_param_prefix) h \<and> sent h \<noteq> [] \<longrightarrow>
             h \<in> (\<lambda>a. lower (header_param_prefix @ fst a)) ` set (x_mcp_header_annotations schema)))"

lemma check_annotation_ok:
  assumes "check_annotation hdrs (lower_keys (x_mcp_param_headers schema args)) args (name, path) = Inr ()"
    and "(name, path) \<in> set (x_mcp_header_annotations schema)" and "no_empty hdrs"
  shows "held hdrs (lower (header_param_prefix @ name)) = arg_rendered args path"
    and "arg_rendered args path = [] \<longrightarrow> arg_at args path = JNull"
proof -
  let ?h = "lower (header_param_prefix @ name)"
  have ll: "lower ?h = ?h" by simp
  from assms(2) obtain t where "(name, path, t) \<in> set (walk_props 17 schema [])"
    unfolding x_mcp_header_annotations_def by (auto dest: valid_annotations_ok)
  then have p: "path \<noteq> []" by (rule annotation_path)
  have e: "dget (lower_keys (x_mcp_param_headers schema args)) ?h = header_param_value (arg_at args path)"
    using expected_header [OF assms(2), of args] arg_at_other [OF _ p, of args] by auto
  from assms(1) obtain raw where r: "single hdrs ?h = Inr raw"
    "(case header_param_value (arg_at args path) of None \<Rightarrow> arg_at args path = JNull \<and> raw = None | Some w \<Rightarrow> raw = Some w)"
    unfolding check_annotation_def e [symmetric] by (auto simp: bindR_eq_Inr Let_def split: option.splits if_splits)
  from single_held [OF assms(3) r(1)] r(2) show "held hdrs ?h = arg_rendered args path"
    unfolding ll by (auto simp: arg_rendered_def split: option.splits)
  from r(2) show "arg_rendered args path = [] \<longrightarrow> arg_at args path = JNull"
    by (auto simp: arg_rendered_def split: option.splits)
qed

lemma check_params_call:
  assumes "check_params loads (Some known) hdrs ''tools/call'' params = Inr ()" and "no_empty hdrs"
  shows "params_mirrored loads known params (held hdrs)"
proof -
  from assms(1) obtain t schema decoded args where
    s: "get_or_null params ''name'' = JStr t" "dget known t = Some schema"
      "argument_views loads schema (get_or_null params ''arguments'') = Inr (decoded, args)"
    and d: "\<forall>h \<in> set (param_headers hdrs). h \<in> (\<lambda>a. lower (header_param_prefix @ fst a)) ` set (x_mcp_header_annotations schema)"
    and c: "check_annotations hdrs (lower_keys (x_mcp_param_headers schema args)) args (x_mcp_header_annotations schema) = Inr ()"
    by (auto simp: check_params_def bindR_eq_Inr Let_def list_all_iff split: json.splits option.splits if_splits)
  have "h \<in> set (param_headers hdrs)" if "starts_with (lower header_param_prefix) h" "held hdrs h \<noteq> []" for h
    using that held_keys [OF assms(2), of h] by (simp add: param_headers_def)
  with s d check_annotation_ok [OF check_annotations_ok [OF c] _ assms(2)] show ?thesis
    unfolding params_mirrored_def by blast
qed

lemma check_params_none:
  assumes "check_params loads schemas hdrs m params = Inr ()" and "no_empty hdrs" and "m \<noteq> ''tools/call'' \<or> schemas = None"
    and "starts_with (lower header_param_prefix) h"
  shows "held hdrs h = []"
proof -
  have "param_headers hdrs = []" using assms(1,3) by (auto simp: check_params_def split: if_splits)
  with assms(4) have "\<not> dhas hdrs h" by (auto simp: param_headers_def filter_empty_conv)
  with held_keys [OF assms(2)] show ?thesis by blast
qed

lemma check_version_ok:
  assumes "check_version supported hdrs raw = Inr v" and "no_empty hdrs"
  shows "\<exists>meta. raw = JObj meta \<and> get_or_null meta meta_protocol_version = JStr v" and "v \<in> set supported"
    and "held hdrs (lower header_protocol_version) = [v]"
proof -
  from assms(1) obtain hv where s: "single hdrs header_protocol_version = Inr hv"
    by (auto simp: check_version_def bindR_eq_Inr)
  let ?ver = "case raw of JObj d \<Rightarrow> get_or_null d meta_protocol_version | _ \<Rightarrow> JNull"
  have c: "?ver = JStr v \<and> hv = Some v \<and> v \<in> set supported"
    using assms(1) s by (cases ?ver) (auto simp: check_version_def bindR_eq_Inr Let_def split: if_splits)
  then show "\<exists>meta. raw = JObj meta \<and> get_or_null meta meta_protocol_version = JStr v" and "v \<in> set supported"
    by (cases raw; auto)+
  show "held hdrs (lower header_protocol_version) = [v]" using single_held [OF assms(2) s] c by simp
qed

lemma check_method_ok: "check_method hdrs m = Inr () \<Longrightarrow> no_empty hdrs \<Longrightarrow> held hdrs (lower header_method) = [m]"
  using single_held [of hdrs header_method] by (auto simp: check_method_def bindR_eq_Inr split: if_splits)

lemma check_name_ok:
  assumes "check_name hdrs m params = Inr ()" and "no_empty hdrs"
  shows "held hdrs (lower header_name) = (case mcp_name_for m params of None \<Rightarrow> [] | Some n \<Rightarrow> [encode_header_value n])"
proof -
  from assms(1) obtain raw where s: "single hdrs header_name = Inr raw" by (auto simp: check_name_def bindR_eq_Inr)
  have "raw = map_option encode_header_value (mcp_name_for m params)"
  proof (cases "dget name_bearing_methods m")
    case None
    then have "\<not> dhas name_bearing_methods m" by (simp add: dhas_conv_dget)
    with assms(1) s None show ?thesis by (auto simp: check_name_def mcp_name_for_def split: if_splits)
  next
    case (Some f)
    then have "dhas name_bearing_methods m" by (simp add: dhas_conv_dget)
    with assms(1) s show ?thesis by (auto simp: check_name_def split: if_splits option.splits)
  qed
  with single_held [OF assms(2) s] show ?thesis by (auto split: option.splits)
qed

lemma validate_stages:
  assumes "validate_request_metadata loads supported schemas wsgi headers body = Inr v"
  obtains hdrs d m where "header_multimap wsgi headers = Inr hdrs" "body = JObj d" "dget d ''method'' = Some (JStr m)"
    "check_version supported hdrs (get_or_null (request_params d) ''_meta'') = Inr v"
    "check_method hdrs m = Inr ()" "check_name hdrs m (request_params d) = Inr ()"
    "check_params loads schemas hdrs m (request_params d) = Inr ()"
proof -
  from assms obtain hdrs where h: "header_multimap wsgi headers = Inr hdrs"
    by (auto simp: validate_request_metadata_def bindR_eq_Inr)
  note r = assms [unfolded validate_request_metadata_def h bindR_simps]
  from r obtain d where b: "body = JObj d" by (cases body) (simp_all add: bindR_eq_Inr)
  note r = r [unfolded b json.case]
  from r obtain j where j: "dget d ''method'' = Some j" by (cases "dget d ''method''") simp_all
  note r = r [unfolded j option.case]
  from r obtain m where "j = JStr m" by (cases j) simp_all
  with r j b h that show thesis by (auto simp: bindR_eq_Inr Let_def)
qed

text \<open>
  A modern request that passes has headers that agree with its body, so an intermediary
  that routes on the headers sees what the server executes: exactly one version header, equal
  to the version in \<open>_meta\<close> and supported; exactly one method header, equal to the method; one
  name header with the canonical encoding of the name or URI, and none for methods without
  one; and on a tool call every annotated parameter has exactly its canonical header, absent
  parameters and unannotated names have none.
\<close>

lemma accepted_envelope_agrees:
  assumes "validate_request_metadata loads supported schemas False headers body = Inr v"
  shows "\<exists>d m params meta. body = JObj d \<and> get_or_null d ''method'' = JStr m \<and> params = request_params d
    \<and> get_or_null params ''_meta'' = JObj meta
    \<and> get_or_null meta meta_protocol_version = JStr v \<and> v \<in> set supported
    \<and> values_of headers (lower header_protocol_version) = [v]
    \<and> values_of headers (lower header_method) = [m]
    \<and> values_of headers (lower header_name) = (case mcp_name_for m params of None \<Rightarrow> [] | Some n \<Rightarrow> [encode_header_value n])
    \<and> (case (if m = ''tools/call'' then schemas else None) of
         Some known \<Rightarrow> params_mirrored loads known params (values_of headers)
       | None \<Rightarrow> \<forall>h. starts_with (lower header_param_prefix) h \<longrightarrow> values_of headers h = [])"
proof -
  from assms obtain hdrs d m where h: "header_multimap False headers = Inr hdrs" and b: "body = JObj d" "dget d ''method'' = Some (JStr m)"
    and st: "check_version supported hdrs (get_or_null (request_params d) ''_meta'') = Inr v"
      "check_method hdrs m = Inr ()" "check_name hdrs m (request_params d) = Inr ()"
      "check_params loads schemas hdrs m (request_params d) = Inr ()"
    by (rule validate_stages)
  define params where "params = request_params d"
  note st = st [folded params_def]
  note v = multimap_held [OF h]
  note cv = check_version_ok [OF st(1) v(2)]
  have "case (if m = ''tools/call'' then schemas else None) of
      Some known \<Rightarrow> params_mirrored loads known params (values_of headers)
    | None \<Rightarrow> \<forall>h. starts_with (lower header_param_prefix) h \<longrightarrow> values_of headers h = []"
    using st(4) check_params_call [OF _ v(2)] check_params_none [OF _ v(2)] v(1) by (auto split: option.splits)
  moreover have "get_or_null d ''method'' = JStr m" using b(2) by (simp add: get_or_null_def)
  ultimately show ?thesis
    using cv check_method_ok [OF st(2) v(2)] check_name_ok [OF st(3) v(2)] b(1) params_def unfolding v(1) by blast
qed

text \<open>A small modern request.\<close>

definition demo_headers :: "(string \<times> string) list" where
  "demo_headers = [(''MCP-Protocol-Version'', ''2026-07-28''), (''Mcp-Method'', ''m'')]"

definition demo_meta :: "(string, json) dict" where
  "demo_meta = [(meta_protocol_version, JStr ''2026-07-28'')]"

definition demo_body :: json where
  "demo_body = JObj [(''method'', JStr ''m''), (''params'', JObj [(''_meta'', JObj demo_meta)])]"

lemma demo_envelope: "validate_request_metadata (\<lambda>s. NotJson) modern_versions None False demo_headers demo_body = Inr ''2026-07-28''"
  by code_simp

section \<open>Legacy requests carry no routing signal\<close>

lemma legacy_gate_ok:
  assumes "legacy_gate supported hdrs = Inr ()" and "no_empty hdrs"
  shows "held hdrs (lower header_method) = []" and "held hdrs (lower header_name) = []"
    and "starts_with (lower header_param_prefix) h \<Longrightarrow> held hdrs h = []"
    and "\<exists>hv. held hdrs (lower header_protocol_version) = (case hv of None \<Rightarrow> [] | Some v \<Rightarrow> [v]) \<and> (\<forall>v. hv = Some v \<longrightarrow> v \<in> set legacy_versions)"
proof -
  have e: "\<not> dhas hdrs (lower header_method)" "\<not> dhas hdrs (lower header_name)" "param_headers hdrs = []"
    using assms(1) by (auto simp: legacy_gate_def split: if_splits)
  then show "held hdrs (lower header_method) = []" "held hdrs (lower header_name) = []"
    using held_keys [OF assms(2)] by blast+
  show "held hdrs h = []" if "starts_with (lower header_param_prefix) h"
    using e(3) that held_keys [OF assms(2), of h] by (auto simp: param_headers_def filter_empty_conv)
  from assms(1) e obtain hv where hv: "single hdrs header_protocol_version = Inr hv"
    by (auto simp: legacy_gate_def bindR_eq_Inr)
  moreover have "\<forall>v. hv = Some v \<longrightarrow> v \<in> set legacy_versions"
    using assms(1) e hv by (auto simp: legacy_gate_def split: if_splits)
  ultimately show "\<exists>hv. held hdrs (lower header_protocol_version) = (case hv of None \<Rightarrow> [] | Some v \<Rightarrow> [v]) \<and> (\<forall>v. hv = Some v \<longrightarrow> v \<in> set legacy_versions)"
    using single_held [OF assms(2)] by blast
qed

text \<open>The refusals of the envelope; a missing version in \<open>_meta\<close> is none.\<close>

definition missing_meta :: exn where
  "missing_meta = Cosai (RequestMetadataError (-32602)) ''missing_meta''"

definition refusal :: "exn \<Rightarrow> bool" where
  "refusal x = ((\<exists>h. x = mismatch h) \<or> x = unsupported
     \<or> (\<exists>r \<in> {''invalid_meta'', ''invalid_name'', ''unknown_tool'', ''case_variant_argument''}. x = Cosai (RequestMetadataError (-32602)) r)
     \<or> (\<exists>r \<in> {''batch'', ''not_a_request'', ''invalid_request''}. x = Cosai (RequestMetadataError (-32600)) r)
     \<or> (\<exists>r. x = Cosai ValidationError r))"

lemma refusal_simps [simp]:
  "refusal (mismatch h)" "refusal unsupported" "refusal (Cosai ValidationError r)"
  "refusal (Cosai (RequestMetadataError (-32602)) ''invalid_meta'')" "refusal (Cosai (RequestMetadataError (-32602)) ''invalid_name'')"
  "refusal (Cosai (RequestMetadataError (-32602)) ''unknown_tool'')" "refusal (Cosai (RequestMetadataError (-32602)) ''case_variant_argument'')"
  "refusal (Cosai (RequestMetadataError (-32600)) ''batch'')" "refusal (Cosai (RequestMetadataError (-32600)) ''not_a_request'')"
  "refusal (Cosai (RequestMetadataError (-32600)) ''invalid_request'')" "\<not> refusal missing_meta"
  by (auto simp: refusal_def missing_meta_def mismatch_def unsupported_def)

lemma single_error: "single hdrs name = Inl x \<Longrightarrow> refusal x"
  by (auto simp: single_def split: option.splits list.splits)

lemma multimap_error: "header_multimap wsgi ps = Inl x \<Longrightarrow> refusal x"
proof -
  have "pair_headers ps out = Inl x \<Longrightarrow> refusal x" for out
    by (induction ps out rule: pair_headers.induct) (auto simp: Let_def split: if_splits)
  then show "header_multimap wsgi ps = Inl x \<Longrightarrow> refusal x" by (auto simp: header_multimap_def split: if_splits)
qed

lemma legacy_gate_error: "legacy_gate supported hdrs = Inl x \<Longrightarrow> refusal x"
  by (auto simp: legacy_gate_def bindR_eq_Inl split: if_splits option.splits dest: single_error)

lemma check_version_error:
  assumes "check_version supported hdrs raw = Inl x"
  shows "refusal x \<or> x = missing_meta \<and> legacy_gate supported hdrs = Inr ()"
proof (cases "single hdrs header_protocol_version")
  case (Inr hv)
  let ?ver = "case raw of JObj d \<Rightarrow> get_or_null d meta_protocol_version | _ \<Rightarrow> JNull"
  show ?thesis
    using assms Inr legacy_gate_error [of supported hdrs x]
    by (cases ?ver) (auto simp: check_version_def bindR_eq_Inl missing_meta_def Let_def split: if_splits)
qed (use assms single_error in \<open>auto simp: check_version_def\<close>)

lemma check_method_error: "check_method hdrs m = Inl x \<Longrightarrow> refusal x"
  by (auto simp: check_method_def bindR_eq_Inl split: if_splits dest: single_error)

lemma check_name_error: "check_name hdrs m params = Inl x \<Longrightarrow> refusal x"
  by (auto simp: check_name_def bindR_eq_Inl split: if_splits option.splits dest: single_error)

lemma argument_views_error: "argument_views loads schema raw = Inl x \<Longrightarrow> refusal x"
proof -
  have "decode_items loads d = Inl x \<Longrightarrow> refusal x" for d
    by (induction loads d rule: decode_items.induct)
      (auto simp: bindR_eq_Inl decode_string_argument_def Let_def split: json.splits if_splits loads_result.splits)
  then show "argument_views loads schema raw = Inl x \<Longrightarrow> refusal x"
    by (auto simp: argument_views_def bindR_eq_Inl decoded_json_string_arguments_def split: json.splits)
qed

lemma check_annotations_error: "check_annotations hdrs expected args as = Inl x \<Longrightarrow> refusal x"
  by (induction as)
    (auto simp: check_annotation_def bindR_eq_Inl Let_def split: if_splits option.splits dest: single_error)

lemma check_params_error: "check_params loads schemas hdrs m params = Inl x \<Longrightarrow> refusal x"
  by (auto simp: check_params_def bindR_eq_Inl Let_def split: if_splits option.splits
      dest: argument_views_error check_annotations_error)

lemma validate_error:
  assumes "validate_request_metadata loads supported schemas wsgi headers body = Inl x"
  shows "refusal x \<or> x = missing_meta \<and> (\<exists>hdrs. header_multimap wsgi headers = Inr hdrs \<and> legacy_gate supported hdrs = Inr ())"
proof (cases "header_multimap wsgi headers")
  case (Inr hdrs)
  note r = assms [unfolded validate_request_metadata_def Inr bindR_simps]
  show ?thesis
  proof (cases body)
    case (JArr xs)
    with r legacy_gate_error show ?thesis by (auto simp: bindR_eq_Inl)
  next
    case (JObj d)
    note r = r [unfolded JObj json.case]
    show ?thesis
    proof (cases "dget d ''method''")
      case None
      with r show ?thesis by auto
    next
      case (Some j)
      note r = r [unfolded Some option.case]
      show ?thesis
      proof (cases j)
        case (JStr m)
        with r check_version_error check_method_error check_name_error check_params_error Inr show ?thesis
          by (fastforce simp: bindR_eq_Inl Let_def)
      qed (use r in auto)
    qed
  qed (use r in auto)
qed (use assms multimap_error in \<open>auto simp: validate_request_metadata_def\<close>)

text \<open>
  C23: On HTTP the engine lets through two kinds of requests only.  A modern one: its version,
  method, name and parameter headers are exactly what its body says.  A legacy one: it has no
  method, name or parameter header at all, and any version header is a legacy version.  So no
  routing header of an admitted request disagrees with what the server executes.
\<close>

theorem routing_headers_are_trustworthy:
  assumes "fst (envelope_on_request loads c req e) = Inr c'" and "rq_transport req = ''http''"
    and "sent = values_of (if rq_header_pairs req \<noteq> [] then rq_header_pairs req else rq_headers req)"
  shows "(\<exists>v meta. get_or_null (rq_params req) ''_meta'' = JObj meta \<and> get_or_null meta meta_protocol_version = JStr v
      \<and> v \<in> set modern_versions \<and> sent (lower header_protocol_version) = [v]
      \<and> sent (lower header_method) = [rq_method req]
      \<and> sent (lower header_name) = (case mcp_name_for (rq_method req) (rq_params req) of None \<Rightarrow> [] | Some n \<Rightarrow> [encode_header_value n])
      \<and> (if rq_method req = ''tools/call'' then params_mirrored loads (ee_schemas e) (rq_params req) sent
         else \<forall>h. starts_with (lower header_param_prefix) h \<longrightarrow> sent h = []))
    \<or> (sent (lower header_method) = [] \<and> sent (lower header_name) = []
      \<and> (\<forall>h. starts_with (lower header_param_prefix) h \<longrightarrow> sent h = [])
      \<and> set (sent (lower header_protocol_version)) \<subseteq> set legacy_versions)"
proof -
  let ?hs = "if rq_header_pairs req \<noteq> [] then rq_header_pairs req else rq_headers req"
  let ?val = "validate_request_metadata loads modern_versions (Some (ee_schemas e)) False ?hs (envelope_body req)"
  from assms(1,2) have "check_envelope loads req e = Inr ()"
    by (auto simp: envelope_on_request_def bindR_eq_Inr)
  then consider v where "?val = Inr v" | "?val = Inl missing_meta"
    by (auto simp: check_envelope_def missing_meta_def Let_def split: sum.splits if_splits)
  then show ?thesis
  proof cases
    case 1
    from accepted_envelope_agrees [OF this] assms(3) show ?thesis
      by (intro disjI1) (auto simp: envelope_body_def get_or_null_def request_params_def split: if_splits)
  next
    case 2
    from validate_error [OF this] obtain hdrs where h: "header_multimap False ?hs = Inr hdrs"
      and g: "legacy_gate modern_versions hdrs = Inr ()" by auto
    note v = multimap_held [OF h]
    from legacy_gate_ok [OF g v(2)] show ?thesis
      unfolding assms(3) v(1) [symmetric] by (intro disjI2) (auto split: option.splits)
  qed
qed

definition demo_envelope_req :: mcp_request where
  "demo_envelope_req = \<lparr>rq_method = ''m'', rq_params = [(''_meta'', JObj demo_meta)], rq_session_id = ''s'',
     rq_headers = [], rq_query = [], rq_transport = ''http'', rq_header_pairs = demo_headers\<rparr>"

lemma demo_envelope_accepted:
  "fst (envelope_on_request (\<lambda>s. NotJson) (new_context 0 ''s'' ''http'') demo_envelope_req (new_envelope_engine None))
     = Inr (new_context 0 ''s'' ''http'')"
  by code_simp

theorem routing_headers_are_trustworthy_witness:
  "values_of demo_headers (lower header_method) \<in> {[''m''], []}"
  using routing_headers_are_trustworthy [OF demo_envelope_accepted _ refl] by (auto simp: demo_envelope_req_def demo_headers_def)

section \<open>Every refusal is classified\<close>

definition envelope_class :: "exn \<Rightarrow> bool" where
  "envelope_class x = (\<exists>cls site. x = Cosai cls site \<and> (cls = MetaTrustError \<or> cls = ValidationError
      \<or> (\<exists>code \<in> {-32020, -32022, -32600, -32602}. cls = RequestMetadataError code))
    \<and> to_http_status cls = (if cls = MetaTrustError then 403 else 400))"

lemma envelope_statuses:
  "to_http_status MetaTrustError = 403" "to_http_status ValidationError = 400"
  "code \<in> {-32020, -32022, -32600, -32602} \<Longrightarrow> to_http_status (RequestMetadataError code) = 400"
  by (auto simp: to_http_status_def http_status_def)

lemma envelope_classI:
  "envelope_class (Cosai MetaTrustError site)" "envelope_class (Cosai ValidationError site)"
  "code \<in> {-32020, -32022, -32600, -32602} \<Longrightarrow> envelope_class (Cosai (RequestMetadataError code) site)"
  by (simp_all add: envelope_class_def envelope_statuses)

lemma refusal_classified: "refusal x \<Longrightarrow> envelope_class x"
  unfolding refusal_def mismatch_def unsupported_def by (auto intro: envelope_classI)

text \<open>
  C39: Whatever headers, parameters and \<open>_meta\<close> a request carries, the hook never fails with an
  exception of the interpreter: every refusal is one of the three CoSAI classes of the
  envelope, with HTTP status 400 or 403, and a mismatch of headers is always 400.
\<close>

theorem envelope_refusals_classified:
  assumes "fst (envelope_on_request loads c req e) = Inl x"
  shows "envelope_class x"
proof -
  have m: "\<exists>site. x = Cosai MetaTrustError site" if "reconcile_meta meta p allowed = Inl x" for meta p allowed
    using that by (auto simp: reconcile_meta_def meta_error_def Let_def split: if_splits)
  from assms have "(\<exists>site. x = Cosai MetaTrustError site) \<or> check_envelope loads req e = Inl x"
    by (auto simp: envelope_on_request_def bindR_eq_Inl meta_error_def split: json.splits if_splits dest: m)
  moreover have "refusal x" if "check_envelope loads req e = Inl x"
    using that validate_error by (fastforce simp: check_envelope_def missing_meta_def split: sum.splits if_splits)
  ultimately show ?thesis using refusal_classified envelope_classI(1) by blast
qed

theorem envelope_refusals_classified_witness:
  "\<exists>cls. to_http_status cls = 400 \<and> cls \<noteq> MetaTrustError"
proof -
  have "fst (envelope_on_request (\<lambda>s. NotJson) (new_context 0 ''s'' ''http'') (demo_envelope_req\<lparr>rq_method := ''n''\<rparr>)
      (new_envelope_engine None)) = Inl (mismatch header_method)" by code_simp
  from envelope_refusals_classified [OF this] show ?thesis by (auto simp: envelope_class_def mismatch_def)
qed

section \<open>Claims restate the principal\<close>

lemma visit_items_Nil:
  "visit_items p limit depth path d = [] \<longleftrightarrow>
     (\<forall>(k, v) \<in> set d. \<not> key_refused p k v False False \<and> descend p limit depth (path @ ''>'' @ k) v = [])"
  by (induction d) (auto simp: Let_def split: if_splits)

lemma descend_list_Nil:
  "descend_list p limit depth path i xs = [] \<Longrightarrow> i + length xs \<le> 256 \<Longrightarrow>
     x \<in> set xs \<Longrightarrow> \<exists>here. descend p limit depth here x = []"
  by (induction xs arbitrary: i) auto

text \<open>Whatever is nested in an inspected value is inspected: too much depth or width is refused.\<close>

lemma descend_inspects:
  assumes "sub_json x v" and "x = JObj d" and "(k, w) \<in> set d" and "descend p limit depth path v = []"
  shows "\<not> key_refused p k w False False"
  using assms
proof (induction arbitrary: depth path rule: sub_json.induct)
  case (here v)
  then have "visit_items p limit (depth + 1) path d = []" by (auto split: if_splits)
  with here show ?case by (auto simp: visit_items_Nil)
next
  case (obj k' w' d' x)
  then have "visit_items p limit (depth + 1) path d' = []" by (auto split: if_splits)
  with obj.hyps(1) have "descend p limit (depth + 1) (path @ ''>'' @ k') w' = []" by (auto simp: visit_items_Nil)
  with obj.IH obj.prems show ?case by blast
next
  case (arr w' xs x)
  then have "descend_list p limit (depth + 1) path 0 xs = []" "length xs \<le> 256" by (auto split: if_splits)
  with arr.hyps(1) descend_list_Nil [of p limit "depth + 1" path 0 xs w'] obtain at' where
    "descend p limit (depth + 1) at' w' = []" by auto
  with arr.IH arr.prems show ?case by blast
qed

text \<open>A claim that does not expand the identity: what each family of names must say.\<close>

definition restates :: "ctx \<Rightarrow> string list \<Rightarrow> json \<Rightarrow> bool" where
  "restates c names v =
     (if shares names subject_names then v = or_else (user_id c) (JStr [])
      else if shares names tenant_names then v = tenant_id c
      else if shares names client_names then False
      else if shares names scope_names then (\<exists>claimed. as_set v = Some claimed \<and> set claimed \<subseteq> set (scopes c))
      else if shares names admin_names then ''admin'' \<in> set (scopes c) \<or> v \<in> {JBool False, JNull, JInt 0, JStr ''false''}
      else True)"

lemma accepted_claim_restates: "\<not> claim_conflicts names v (principal_of c) \<Longrightarrow> restates c names v"
  by (auto simp: claim_conflicts_def restates_def principal_of_def admin_conflict_def list_all_iff
      split: option.splits json.splits if_splits elim: is_str.elims)

text \<open>
  C24: Claims in \<open>_meta\<close> never expand the caller's identity.  When a request passes, every key of
  \<open>_meta\<close>, at the top level and nested at any depth in any inspected value, that can denote an
  identity restates the authenticated principal: a subject is the user, a tenant the tenant,
  scopes and roles are a subset of the granted scopes, an admin flag is off unless the admin
  scope was granted; and no other nested key contains an identity word.
\<close>

theorem meta_claims_restate_principal:
  assumes "fst (envelope_on_request loads c req e) = Inr c'" and "get_or_null (rq_params req) ''_meta'' = JObj meta"
    and "(k0, v0) \<in> set meta" and "k0 \<notin> set (meta_protocol_version # trace_keys)"
    and "(pre, k, v) = (True, k0, v0) \<and> k0 \<notin> set self_reported_keys
      \<or> pre = False \<and> sub_json (JObj d) v0 \<and> (k, v) \<in> set d"
  shows "(if shares (candidate_names k pre) identity_names then restates c (candidate_names k pre) v
     else \<not> has_identity_word k pre \<or> pre \<and> ee_allowed e \<noteq> None)"
proof -
  from assms(1,2) have "reconcile_meta meta (principal_of c) (ee_allowed e) = Inr ()"
    by (auto simp: envelope_on_request_def bindR_eq_Inr split: if_splits)
  with assms(3) have t: "top_level (principal_of c) (ee_allowed e) (k0, v0) = []"
    by (auto simp: reconcile_meta_def Let_def split: if_splits)
  have "\<not> key_refused (principal_of c) k v pre (pre \<and> ee_allowed e \<noteq> None)"
    using assms(5)
  proof
    assume "(pre, k, v) = (True, k0, v0) \<and> k0 \<notin> set self_reported_keys"
    with t assms(4) show ?thesis by (auto simp: top_level_def split: if_splits option.splits)
  next
    assume n: "pre = False \<and> sub_json (JObj d) v0 \<and> (k, v) \<in> set d"
    from t assms(4) obtain limit where "descend (principal_of c) limit 0 k0 v0 = []"
      by (auto simp: top_level_def split: if_splits)
    with n descend_inspects [of "JObj d" v0 d k v] show ?thesis by auto
  qed
  then show ?thesis by (auto simp: key_refused_def Let_def accepted_claim_restates split: if_splits)
qed

definition demo_claim_ctx :: ctx where
  "demo_claim_ctx = (new_context 0 ''s'' ''stdio'')\<lparr>user_id := JStr ''!''\<rparr>"

definition demo_claim_req :: mcp_request where
  "demo_claim_req = \<lparr>rq_method = ''m'', rq_params = [(''_meta'', JObj [(''sub'', JStr ''!'')])], rq_session_id = ''s'',
     rq_headers = [], rq_query = [], rq_transport = ''stdio'', rq_header_pairs = []\<rparr>"

lemma demo_sub_names: "shares (candidate_names ''sub'' True) subject_names \<and> shares (candidate_names ''sub'' True) identity_names"
  by code_simp

theorem meta_claims_restate_principal_witness: "JStr ''!'' = or_else (user_id demo_claim_ctx) (JStr [])"
proof -
  have a: "fst (envelope_on_request (\<lambda>s. NotJson) demo_claim_ctx demo_claim_req (new_envelope_engine None)) = Inr demo_claim_ctx"
    using demo_sub_names
    by (simp add: envelope_on_request_def demo_claim_req_def get_or_null_def reconcile_meta_def top_level_def
        key_refused_def claim_conflicts_def principal_of_def demo_claim_ctx_def or_else_def new_envelope_engine_def
        meta_protocol_version_def slashes_in_def trace_keys_def self_reported_keys_def meta_client_info_def
        meta_client_capabilities_def Let_def)
  have m: "get_or_null (rq_params demo_claim_req) ''_meta'' = JObj [(''sub'', JStr ''!'')]"
    by (simp add: demo_claim_req_def get_or_null_def)
  have "if shares (candidate_names ''sub'' True) identity_names then restates demo_claim_ctx (candidate_names ''sub'' True) (JStr ''!'')
     else \<not> has_identity_word ''sub'' True \<or> True \<and> ee_allowed (new_envelope_engine None) \<noteq> None"
    by (rule meta_claims_restate_principal [OF a m, where ?k0.0 = "''sub''" and ?v0.0 = "JStr ''!''"])
      (simp_all add: meta_protocol_version_def trace_keys_def self_reported_keys_def meta_client_info_def meta_client_capabilities_def)
  with demo_sub_names show ?thesis by (simp add: restates_def)
qed

section \<open>The schema registry\<close>

lemma learn_tools_keeps:
  assumes "learn_tools ts schemas n = (schemas', m)"
  shows "dget schemas k = Some s \<Longrightarrow> dget schemas' k = Some s" and "wf_dict schemas \<Longrightarrow> wf_dict schemas'"
    and "length schemas \<le> max_registered_tools \<Longrightarrow> length schemas' \<le> max_registered_tools"
proof -
  have "(dget schemas k = Some s \<longrightarrow> dget schemas' k = Some s) \<and> (wf_dict schemas \<longrightarrow> wf_dict schemas')
    \<and> (length schemas \<le> max_registered_tools \<longrightarrow> length schemas' \<le> max_registered_tools)"
    using assms
    by (induction ts schemas n rule: learn_tools.induct)
      (auto simp: wf_dict_def map_add_Some_iff split: option.splits prod.splits if_splits)
  then show "dget schemas k = Some s \<Longrightarrow> dget schemas' k = Some s" and "wf_dict schemas \<Longrightarrow> wf_dict schemas'"
    and "length schemas \<le> max_registered_tools \<Longrightarrow> length schemas' \<le> max_registered_tools" by blast+
qed

text \<open>
  The registry the parameter headers are checked against is bounded and pinned: whatever
  manifests follow, it holds at most 4096 tools under distinct names, and a tool once
  registered keeps its schema.
\<close>

theorem envelope_registry_pinned:
  "let e' = foldl (\<lambda>e ts. envelope_register_tools ts e) (foldl (\<lambda>e ts. envelope_register_tools ts e) (new_envelope_engine allowed) before) after
   in length (ee_schemas e') \<le> max_registered_tools \<and> wf_dict (ee_schemas e')
      \<and> dget (ee_schemas (foldl (\<lambda>e ts. envelope_register_tools ts e) (new_envelope_engine allowed) before)) \<subseteq>\<^sub>m dget (ee_schemas e')"
proof -
  let ?run = "foldl (\<lambda>e ts. envelope_register_tools ts e)"
  have step: "ee_schemas (envelope_register_tools ts e) = fst (learn_tools ts (ee_schemas e) 0)" for ts e
    by (simp add: envelope_register_tools_def split: prod.split)
  have inv: "length (ee_schemas (?run e mss)) \<le> max_registered_tools \<and> wf_dict (ee_schemas (?run e mss))
      \<and> dget (ee_schemas e) \<subseteq>\<^sub>m dget (ee_schemas (?run e mss))"
    if "length (ee_schemas e) \<le> max_registered_tools" "wf_dict (ee_schemas e)" for e mss
    using that
  proof (induction mss arbitrary: e)
    case (Cons ts mss)
    obtain s n where l: "learn_tools ts (ee_schemas e) 0 = (s, n)" by (cases "learn_tools ts (ee_schemas e) 0")
    then have "dget (ee_schemas e) \<subseteq>\<^sub>m dget (ee_schemas (envelope_register_tools ts e))"
      using learn_tools_keeps(1) [OF l] by (auto simp: step map_le_def dom_def)
    with Cons.IH [of "envelope_register_tools ts e"] Cons.prems learn_tools_keeps(2,3) [OF l] l show ?case
      by (auto simp: step intro: map_le_trans)
  qed simp
  have "length (ee_schemas (?run (new_envelope_engine allowed) before)) \<le> max_registered_tools
      \<and> wf_dict (ee_schemas (?run (new_envelope_engine allowed) before))"
    using inv [of "new_envelope_engine allowed" before] by (simp add: new_envelope_engine_def)
  with inv [of "?run (new_envelope_engine allowed) before" after] show ?thesis by (simp add: Let_def)
qed

end
