(* ===== verification/Chain.thy ===== *)
theory Chain
  imports Guard Auth AuditLog Session Resources Integrity Numeric Validation Protection Boundary Envelope
begin

text \<open>
  The guard with its own engines: the state of all thirteen engines as one record, every hook
  of an engine lifted to it (\<open>CoSAIGuard._from_armor_config\<close> appends these engines), the chain of
  a configuration as an interpretation of \<open>guarded\<close>, and what a tool call that passes it is
  guaranteed to satisfy.
\<close>

section \<open>The composed state\<close>

record ('s, 'k) world =
  w_audit :: "audit_engine \<times> audit_disk"
  w_auth :: "'s auth_engine"
  w_session :: session_engine
  w_network :: network_engine
  w_supply :: "'k supply_engine"
  w_authz :: authz_engine
  w_envelope :: envelope_engine
  w_validation :: validation_engine
  w_boundary :: boundary_engine
  w_resource :: resource_engine
  w_integrity :: integrity_engine
  w_pii :: protection_engine
  w_trust :: trust_engine

text \<open>The libraries the engines use, and what one call reads from its environment.\<close>

record ('s, 'k) chain_lib =
  ch_audit :: audit_lib
  ch_jwt :: jwt_lib
  ch_replay :: "'s replay_check"
  ch_hmac :: "bytes \<Rightarrow> bytes \<Rightarrow> bytes"
  ch_loads :: "string \<Rightarrow> loads_result"
  ch_net :: net_lib
  ch_supply :: "'k supply_lib"
  ch_fr :: "pyfloat \<Rightarrow> string"
  ch_sha :: "bytes \<Rightarrow> string"
  ch_repr :: "json \<Rightarrow> string"
  ch_valid :: valid_lib
  ch_boundary :: boundary_lib
  ch_integrity :: integrity_lib

record call_env =
  ce_now :: time
  ce_entry_id :: string
  ce_str :: "(string, json) dict \<Rightarrow> string"   \<comment> \<open>\<open>str(req.params)\<close>\<close>
  ce_auth :: auth_env
  ce_authz :: authz_env
  ce_seen :: time
  ce_charged :: time
  ce_allow_unsigned :: bool
  ce_urandom :: bytes

definition lift_hook :: "('w \<Rightarrow> 's) \<Rightarrow> ('s \<Rightarrow> 'w \<Rightarrow> 'w) \<Rightarrow> (ctx \<Rightarrow> 'r \<Rightarrow> 's \<Rightarrow> ctx result \<times> 's)
    \<Rightarrow> ctx \<Rightarrow> 'r \<Rightarrow> 'w \<Rightarrow> ctx result \<times> 'w" where
  "lift_hook get put hook c r w = (case hook c r (get w) of (res, s) \<Rightarrow> (res, put s w))"

section \<open>The hooks of the chain\<close>

fun chain_request :: "('s, 'k) chain_lib \<Rightarrow> call_env \<Rightarrow> engine_kind \<Rightarrow> ('s, 'k) world request_hook_fn" where
  "chain_request lib env AuditE = lift_hook w_audit (\<lambda>s w. w\<lparr>w_audit := s\<rparr>)
     (\<lambda>c req. audit_on_request (ch_audit lib) (ce_now env) (ce_entry_id env) (ce_str env (rq_params req)) c req)"
| "chain_request lib env AuthE = lift_hook w_auth (\<lambda>s w. w\<lparr>w_auth := s\<rparr>)
     (auth_on_request (ch_jwt lib) (ch_replay lib) (ce_auth env))"
| "chain_request lib env SessionE = lift_hook w_session (\<lambda>s w. w\<lparr>w_session := s\<rparr>) (session_hook (ch_hmac lib))"
| "chain_request lib env NetworkE = lift_hook w_network (\<lambda>s w. w\<lparr>w_network := s\<rparr>) (network_on_request (ch_loads lib) (ch_net lib))"
| "chain_request lib env SupplyChainE = lift_hook w_supply (\<lambda>s w. w\<lparr>w_supply := s\<rparr>) (supply_on_request (ch_supply lib))"
| "chain_request lib env AuthzE = lift_hook w_authz (\<lambda>s w. w\<lparr>w_authz := s\<rparr>)
     (authz_on_request (ch_fr lib) (ch_sha lib) (ch_repr lib) (ce_authz env))"
| "chain_request lib env EnvelopeE = lift_hook w_envelope (\<lambda>s w. w\<lparr>w_envelope := s\<rparr>) (envelope_on_request (ch_loads lib))"
| "chain_request lib env ValidationE = lift_hook w_validation (\<lambda>s w. w\<lparr>w_validation := s\<rparr>) (validation_on_request (ch_valid lib))"
| "chain_request lib env BoundaryE = lift_hook w_boundary (\<lambda>s w. w\<lparr>w_boundary := s\<rparr>)
     (boundary_on_request (ch_loads lib) (ch_boundary lib))"
| "chain_request lib env ResourceE = lift_hook w_resource (\<lambda>s w. w\<lparr>w_resource := s\<rparr>)
     (resource_on_request (ch_loads lib) (ce_seen env) (ce_charged env))"
| "chain_request lib env IntegrityE = pass_request"
| "chain_request lib env PIIE = pass_request"
| "chain_request lib env TrustE = pass_request"

fun chain_response :: "('s, 'k) chain_lib \<Rightarrow> call_env \<Rightarrow> engine_kind \<Rightarrow> ('s, 'k) world response_hook_fn" where
  "chain_response lib env AuditE = lift_hook w_audit (\<lambda>s w. w\<lparr>w_audit := s\<rparr>)
     (audit_on_response (ch_audit lib) (ce_now env) (ce_entry_id env))"
| "chain_response lib env SupplyChainE = lift_hook w_supply (\<lambda>s w. w\<lparr>w_supply := s\<rparr>) (supply_on_response (ch_supply lib))"
| "chain_response lib env BoundaryE = lift_hook w_boundary (\<lambda>s w. w\<lparr>w_boundary := s\<rparr>) (boundary_on_response (ch_boundary lib))"
| "chain_response lib env IntegrityE = lift_hook w_integrity (\<lambda>s w. w\<lparr>w_integrity := s\<rparr>) (integrity_on_response (ch_integrity lib))"
| "chain_response lib env PIIE = lift_hook w_pii (\<lambda>s w. w\<lparr>w_pii := s\<rparr>) protection_on_response"
| "chain_response lib env TrustE = lift_hook w_trust (\<lambda>s w. w\<lparr>w_trust := s\<rparr>) (trust_on_response (ch_boundary lib))"
| "chain_response lib env _ = pass_response"

fun chain_startup :: "('s, 'k) chain_lib \<Rightarrow> call_env \<Rightarrow> engine_kind \<Rightarrow> ('s, 'k) world \<Rightarrow> unit result \<times> ('s, 'k) world" where
  "chain_startup lib env AuditE w = (case audit_on_startup (ch_audit lib) (ce_allow_unsigned env) (w_audit w) of
     (r, s) \<Rightarrow> (r, w\<lparr>w_audit := s\<rparr>))"
| "chain_startup lib env AuthE w = (auth_on_startup (w_auth w), w)"
| "chain_startup lib env NetworkE w = (network_on_startup (w_network w), w)"
| "chain_startup lib env SupplyChainE w = (supply_on_startup (w_supply w), w)"
| "chain_startup lib env ValidationE w = (validation_on_startup (ch_valid lib) (w_validation w), w)"
| "chain_startup lib env _ w = (Inr (), w)"

fun chain_session_start :: "('s, 'k) chain_lib \<Rightarrow> call_env \<Rightarrow> engine_kind \<Rightarrow> ctx \<Rightarrow> ('s, 'k) world \<Rightarrow> ctx result \<times> ('s, 'k) world" where
  "chain_session_start lib env AuditE c w =
     (Inr c, w\<lparr>w_audit := audit_session_event (ch_audit lib) ''session_start'' (ce_now env) (ce_entry_id env) c (w_audit w)\<rparr>)"
| "chain_session_start lib env ResourceE c w = (case resource_on_session_start (ce_seen env) c (w_resource w) of
     (r, s) \<Rightarrow> (r, w\<lparr>w_resource := s\<rparr>))"
| "chain_session_start lib env _ c w = (Inr c, w)"

fun chain_session_end :: "('s, 'k) chain_lib \<Rightarrow> call_env \<Rightarrow> engine_kind \<Rightarrow> ctx \<Rightarrow> ('s, 'k) world \<Rightarrow> unit result \<times> ('s, 'k) world" where
  "chain_session_end lib env AuditE c w =
     (Inr (), w\<lparr>w_audit := audit_session_event (ch_audit lib) ''session_end'' (ce_now env) (ce_entry_id env) c (w_audit w)\<rparr>)"
| "chain_session_end lib env ResourceE c w = (Inr (), w\<lparr>w_resource := resource_on_session_end c (w_resource w)\<rparr>)"
| "chain_session_end lib env _ c w = (Inr (), w)"

fun chain_tools :: "('s, 'k) chain_lib \<Rightarrow> engine_kind \<Rightarrow> json list \<Rightarrow> ('s, 'k) world \<Rightarrow> unit result \<times> ('s, 'k) world" where
  "chain_tools lib ValidationE ts w = (case register_tools ts (w_validation w) of (r, s) \<Rightarrow> (r, w\<lparr>w_validation := s\<rparr>))"
| "chain_tools lib EnvelopeE ts w = (Inr (), w\<lparr>w_envelope := envelope_register_tools ts (w_envelope w)\<rparr>)"
| "chain_tools lib SupplyChainE ts w = (validate_tools (ch_supply lib) (w_supply w) ts, w)"
| "chain_tools lib IntegrityE ts w = (scan_tool_manifest (ch_integrity lib) (w_integrity w) ts, w)"
| "chain_tools lib _ ts w = (Inr (), w)"

text \<open>The record of a waived violation: the class name and the message (here the raise site).\<close>

fun class_name :: "exc_class \<Rightarrow> string" where
  "class_name AuthenticationError = ''AuthenticationError''"
| "class_name SessionError = ''SessionError''"
| "class_name NetworkBindingError = ''NetworkBindingError''"
| "class_name SupplyChainError = ''SupplyChainError''"
| "class_name AuthorizationError = ''AuthorizationError''"
| "class_name ValidationError = ''ValidationError''"
| "class_name InjectionDetectedError = ''InjectionDetectedError''"
| "class_name IntegrityError = ''IntegrityError''"
| "class_name ResourceExceededError = ''ResourceExceededError''"
| "class_name PIILeakError = ''PIILeakError''"
| "class_name TrustBoundaryViolation = ''TrustBoundaryViolation''"
| "class_name AuditChainError = ''AuditChainError''"
| "class_name (RequestMetadataError _) = ''RequestMetadataError''"
| "class_name MetaTrustError = ''MetaTrustError''"
| "class_name StateVerificationError = ''StateVerificationError''"
| "class_name HandleError = ''HandleError''"

definition violation_extra :: "exn \<Rightarrow> (string, json) dict" where
  "violation_extra x = (case x of
     Cosai cls site \<Rightarrow> [(''dry_run'', JBool True), (''violation_class'', JStr (class_name cls)), (''violation_detail'', JStr site)]
   | PyExc _ _ \<Rightarrow> [])"

definition chain_dry_audit :: "('s, 'k) chain_lib \<Rightarrow> call_env \<Rightarrow> ctx \<Rightarrow> mcp_request \<Rightarrow> exn \<Rightarrow> ('s, 'k) world \<Rightarrow> unit result \<times> ('s, 'k) world" where
  "chain_dry_audit lib env c req x w =
     (Inr (), w\<lparr>w_audit := snd (audit_append (ch_audit lib) c \<lparr>ev_ts = ce_now env, ev_id = ce_entry_id env,
        ev_event = ''dry_run_violation'', ev_method = rq_method req, ev_digest = [], ev_extra = violation_extra x\<rparr> (w_audit w))\<rparr>)"

definition chain_engine :: "('s, 'k) chain_lib \<Rightarrow> call_env \<Rightarrow> ('s, 'k) world \<Rightarrow> engine_kind \<Rightarrow> ('s, 'k) world engine" where
  "chain_engine lib env w0 k = \<lparr>en_kind = k, en_startup = chain_startup lib env k, en_shutdown = (\<lambda>w. (Inr (), w)),
     en_session_start = chain_session_start lib env k, en_session_end = chain_session_end lib env k,
     en_request = chain_request lib env k, en_response = chain_response lib env k, en_tools = chain_tools lib k,
     en_dry_audit = chain_dry_audit lib env, en_filter = filter_tools_list (w_authz w0),
     en_mint = mint_token (ch_hmac lib) (se_secret (w_session w0)) (ce_urandom env)\<rparr>"

definition chain_guard :: "('s, 'k) chain_lib \<Rightarrow> call_env \<Rightarrow> ('s, 'k) world \<Rightarrow> armor_config \<Rightarrow> ('s, 'k) world guard" where
  "chain_guard lib env w0 cfg = \<lparr>gd_engines = map (chain_engine lib env w0) (config_kinds cfg),
     gd_dry_run = ac_dry_run cfg,
     gd_allow_stateless = (case ac_t7 cfg of None \<Rightarrow> False | Some c \<Rightarrow> c7_allow_stateless_requests c)\<rparr>"

section \<open>The chain keeps the frame\<close>

interpretation audit_rq: request_hook "\<lambda>c req. audit_on_request lib now eid (str (rq_params req)) c req" for lib now eid str
  by unfold_locales (auto simp: audit_on_request_def split: prod.splits)

interpretation audit_rs: response_hook "audit_on_response lib now eid" for lib now eid
  by unfold_locales (auto simp: audit_on_response_def split: prod.splits)

lemma validation_keeps: "validation_on_request lib c req e = (Inr c', e') \<Longrightarrow> c' = c \<and> e' = e"
  by (auto simp: validation_on_request_def bindR_eq_Inr Let_def split: if_splits)

interpretation validation_rq: request_hook "validation_on_request lib" for lib
  by unfold_locales (auto dest: validation_keeps)

lemma lift_hook_ok: "lift_hook get put hook c r w = (Inr c', w') \<longleftrightarrow> (\<exists>s. hook c r (get w) = (Inr c', s) \<and> w' = put s w)"
  by (auto simp: lift_hook_def split: prod.splits)

lemma lifted_request: "request_hook hook \<Longrightarrow> request_hook (lift_hook get put hook)"
  by unfold_locales (auto simp: lift_hook_ok dest: request_hook.frame)

lemma chain_request_frame: "request_hook (chain_request lib env k)"
  by (cases k) (simp_all add: lifted_request audit_rq.request_hook_axioms auth_rq.request_hook_axioms
      session_rq.request_hook_axioms network_rq.request_hook_axioms supply_rq.request_hook_axioms
      authz_rq.request_hook_axioms envelope_rq.request_hook_axioms validation_rq.request_hook_axioms
      boundary_rq.request_hook_axioms resource_rq.request_hook_axioms pass_req.request_hook_axioms)

interpretation armor: guarded "map (chain_engine lib env w0) ks" for lib env w0 ks
  by unfold_locales (auto simp: chain_engine_def intro: request_hook.frame [OF chain_request_frame])

section \<open>Stages of an accepted request\<close>

definition same_identity :: "ctx \<Rightarrow> ctx \<Rightarrow> bool" where
  "same_identity c c' = (user_id c' = user_id c \<and> tenant_id c' = tenant_id c \<and> scopes c' = scopes c)"

lemma resource_keeps_identity: "resource_on_request loads seen now c req e = (Inr c', e') \<Longrightarrow> same_identity c c'"
  by (cases rule: resource_on_request_cases [of req loads seen now c e]) (auto simp: same_identity_def)

lemma handshake_keeps: "handshake_gate c m = Inr c' \<Longrightarrow> same_identity c c' \<and> budget c' = budget c"
  by (auto simp: handshake_gate_def same_identity_def with_handshake_phase_def split: if_splits)

lemma session_keeps: "session_hook hmac c req e = (Inr c', e') \<Longrightarrow> same_identity c c' \<and> budget c' = budget c"
  by (auto simp: session_hook_def session_on_request_ok same_identity_def dest: handshake_keeps split: if_splits)

lemma network_keeps: "network_on_request loads lib c req e = (Inr c', e') \<Longrightarrow> c' = c"
  by (auto simp: network_on_request_def bindR_eq_Inr Let_def split: if_splits)

lemma supply_keeps: "supply_on_request lib c req e = (Inr c', e') \<Longrightarrow> c' = c"
  by (auto simp: supply_on_request_def bindR_eq_Inr split: if_splits json.splits)

lemma authz_keeps: "authz_on_request fr sha repr env c req e = (Inr c', e') \<Longrightarrow> c' = c"
  by (auto simp: authz_on_request_def bindR_eq_Inr split: if_splits option.splits sum.splits prod.splits)

lemma envelope_keeps: "envelope_on_request loads c req e = (Inr c', e') \<Longrightarrow> c' = c"
  by (auto simp: envelope_on_request_def bindR_eq_Inr split: if_splits)

lemma boundary_keeps: "boundary_on_request loads lib c req e = (Inr c', e') \<Longrightarrow> c' = c"
  by (auto simp: boundary_on_request_def bindR_eq_Inr Let_def split: if_splits option.splits)

lemma auth_keeps_budget: "auth_on_request lib check env c req e = (Inr c', e') \<Longrightarrow> budget c' = budget c"
  by (auto simp: auth_on_request_ok identify_def bindR_eq_Inr Let_def context_defs split: if_splits)

lemma audit_keeps: "audit_on_request lib now eid str c req s = (Inr c', s') \<Longrightarrow> same_identity c c' \<and> budget c' = budget c"
  by (auto simp: audit_on_request_def same_identity_def with_audit_parent_def split: prod.splits)

text \<open>Only authentication sets the identity and only the resource engine the budget.\<close>

lemma identity_kept: "chain_request lib env k c req w = (Inr c', w') \<Longrightarrow> k \<noteq> AuthE \<Longrightarrow> same_identity c c'"
  by (cases k) (auto simp: lift_hook_ok pass_request_def same_identity_def
      dest: network_keeps supply_keeps authz_keeps envelope_keeps boundary_keeps validation_keeps
      dest!: resource_keeps_identity session_keeps audit_keeps)

lemma budget_kept: "chain_request lib env k c req w = (Inr c', w') \<Longrightarrow> k \<noteq> ResourceE \<Longrightarrow> budget c' = budget c"
  by (cases k) (auto simp: lift_hook_ok pass_request_def
      dest: network_keeps supply_keeps authz_keeps envelope_keeps boundary_keeps validation_keeps auth_keeps_budget
        session_keeps audit_keeps)

text \<open>An engine works on its own part of the state only.\<close>

lemma component_kept:
  assumes "chain_request lib env k c req w = (r, w')"
  shows "k \<noteq> AuthE \<Longrightarrow> w_auth w' = w_auth w" and "k \<noteq> SessionE \<Longrightarrow> w_session w' = w_session w"
    and "k \<noteq> SupplyChainE \<Longrightarrow> w_supply w' = w_supply w" and "k \<noteq> AuthzE \<Longrightarrow> w_authz w' = w_authz w"
    and "k \<noteq> ValidationE \<Longrightarrow> w_validation w' = w_validation w" and "k \<noteq> ResourceE \<Longrightarrow> w_resource w' = w_resource w"
  using assms by (cases k; auto simp: lift_hook_def pass_request_def split: prod.splits)+

lemma chain_Cons:
  "request_chain False all (map (chain_engine lib env w0) (k # ks)) c req g = (Inr c', g') \<longleftrightarrow>
     (\<exists>c1 w1. chain_request lib env k c req (gs_world g) = (Inr c1, w1)
        \<and> request_chain False all (map (chain_engine lib env w0) ks) c1 req (g\<lparr>gs_world := w1, gs_context := Some c1\<rparr>) = (Inr c', g'))"
  by (auto simp: chain_engine_def split: prod.splits sum.splits)

lemma chain_keeps:
  assumes "request_chain False all (map (chain_engine lib env w0) ks) c req g = (Inr c', g')"
    and "\<And>k c c1 w w1. k \<in> set ks \<Longrightarrow> chain_request lib env k c req w = (Inr c1, w1) \<Longrightarrow> f c1 = f c \<and> h w1 = h w"
  shows "f c' = f c \<and> h (gs_world g') = h (gs_world g)"
  using assms
proof (induction ks arbitrary: c g)
  case (Cons k ks)
  from Cons.prems(1) obtain c1 w1 where s: "chain_request lib env k c req (gs_world g) = (Inr c1, w1)"
    "request_chain False all (map (chain_engine lib env w0) ks) c1 req (g\<lparr>gs_world := w1, gs_context := Some c1\<rparr>) = (Inr c', g')"
    unfolding chain_Cons by blast
  from Cons.IH [OF s(2)] Cons.prems(2) s(1) show ?case by (simp, metis)
qed simp

lemma stage:
  assumes "request_chain False all (map (chain_engine lib env w0) ks) c req g = (Inr c', g')" and "k \<in> set ks"
  obtains ks1 ks2 c1 g1 c2 w2 where "ks = ks1 @ k # ks2"
    and "request_chain False all (map (chain_engine lib env w0) ks1) c req g = (Inr c1, g1)"
    and "chain_request lib env k c1 req (gs_world g1) = (Inr c2, w2)"
    and "request_chain False all (map (chain_engine lib env w0) ks2) c2 req (g1\<lparr>gs_world := w2, gs_context := Some c2\<rparr>) = (Inr c', g')"
  using assms
proof (induction ks arbitrary: c g thesis)
  case (Cons j ks)
  from Cons.prems(2) obtain c1 w1 where s: "chain_request lib env j c req (gs_world g) = (Inr c1, w1)"
    "request_chain False all (map (chain_engine lib env w0) ks) c1 req (g\<lparr>gs_world := w1, gs_context := Some c1\<rparr>) = (Inr c', g')"
    unfolding chain_Cons by blast
  show ?case
  proof (cases "k = j")
    case True
    with s Cons.prems(1) [of "[]" ks c g] show ?thesis by simp
  next
    case False
    with Cons.prems(3) have "k \<in> set ks" by simp
    from Cons.IH [OF _ s(2) this] obtain ks1 ks2 c2 g2 c3 w3 where r: "ks = ks1 @ k # ks2"
      "request_chain False all (map (chain_engine lib env w0) ks1) c1 req (g\<lparr>gs_world := w1, gs_context := Some c1\<rparr>) = (Inr c2, g2)"
      "chain_request lib env k c2 req (gs_world g2) = (Inr c3, w3)"
      "request_chain False all (map (chain_engine lib env w0) ks2) c3 req (g2\<lparr>gs_world := w3, gs_context := Some c3\<rparr>) = (Inr c', g')"
      by blast
    have "request_chain False all (map (chain_engine lib env w0) (j # ks1)) c req g = (Inr c2, g2)"
      unfolding chain_Cons using s(1) r(2) by blast
    with r Cons.prems(1) [of "j # ks1" ks2 c2 g2 c3 w3] show ?thesis by simp
  qed
qed simp

section \<open>What each engine saw\<close>

lemma stage_session: "request_chain False all (map (chain_engine lib env w0) ks) c req g = (Inr c', g') \<Longrightarrow> session_id c' = session_id c"
  by (drule armor.chain_frame) (simp add: same_session_def)

lemma world_kept:
  assumes "request_chain False all (map (chain_engine lib env w0) ks) c req g = (Inr c', g')"
    and "\<And>k c1 w r w1. k \<in> set ks \<Longrightarrow> chain_request lib env k c1 req w = (r, w1) \<Longrightarrow> h w1 = h w"
  shows "h (gs_world g') = h (gs_world g)"
  using chain_keeps [OF assms(1), of "\<lambda>_. ()" h] assms(2) by simp

lemma part_kept:
  assumes "request_chain False all (map (chain_engine lib env w0) ks) c req g = (Inr c', g')"
  shows "AuthE \<notin> set ks \<Longrightarrow> w_auth (gs_world g') = w_auth (gs_world g)"
    and "SessionE \<notin> set ks \<Longrightarrow> w_session (gs_world g') = w_session (gs_world g)"
    and "SupplyChainE \<notin> set ks \<Longrightarrow> w_supply (gs_world g') = w_supply (gs_world g)"
    and "AuthzE \<notin> set ks \<Longrightarrow> w_authz (gs_world g') = w_authz (gs_world g)"
    and "ValidationE \<notin> set ks \<Longrightarrow> w_validation (gs_world g') = w_validation (gs_world g)"
    and "ResourceE \<notin> set ks \<Longrightarrow> w_resource (gs_world g') = w_resource (gs_world g)"
  by (rule world_kept [OF assms], rule component_kept, assumption, blast)+

lemma identity_after:
  assumes "request_chain False all (map (chain_engine lib env w0) ks) c req g = (Inr c', g')" and "AuthE \<notin> set ks"
  shows "same_identity c c'"
proof -
  have "(user_id c', tenant_id c', scopes c') = (user_id c, tenant_id c, scopes c) \<and> () = ()"
  proof (rule chain_keeps [OF assms(1)])
    fix k c1 c2 w w1
    assume "k \<in> set ks" and h: "chain_request lib env k c1 req w = (Inr c2, w1)"
    then have "k \<noteq> AuthE" using assms(2) by auto
    from identity_kept [OF h this]
    show "(user_id c2, tenant_id c2, scopes c2) = (user_id c1, tenant_id c1, scopes c1) \<and> () = ()"
      by (simp add: same_identity_def)
  qed
  then show ?thesis by (simp add: same_identity_def)
qed

lemma budget_after:
  assumes "request_chain False all (map (chain_engine lib env w0) ks) c req g = (Inr c', g')" and "ResourceE \<notin> set ks"
  shows "budget c' = budget c"
proof -
  have "budget c' = budget c \<and> () = ()"
    by (rule chain_keeps [OF assms(1)]) (use assms(2) budget_kept in blast)
  then show ?thesis by simp
qed

text \<open>The chain of a configuration: each engine once, authentication before authorization.\<close>

lemma config_kinds_distinct: "distinct (config_kinds cfg)"
  by (simp add: config_kinds_def Let_def)

lemma auth_before_authz: "config_kinds cfg = ks1 @ AuthzE # ks2 \<Longrightarrow> AuthE \<notin> set ks2"
proof
  assume k: "config_kinds cfg = ks1 @ AuthzE # ks2" and "AuthE \<in> set ks2"
  then have "subseq [AuthE] ks2" by (simp add: subseq_singleton_left)
  then have "subseq [AuthzE, AuthE] (config_kinds cfg)" unfolding k by (intro subseq_drop_many) simp
  from subseq_order.trans [OF this config_kinds_subseq] show False by simp
qed

lemma auth_stage:
  assumes "request_chain False all (map (chain_engine lib env w0) ks) c req g = (Inr c', g')" and "distinct ks" and "AuthE \<in> set ks"
  shows "\<exists>c1 c2 e'. session_id c1 = session_id c \<and> same_identity c2 c'
    \<and> auth_on_request (ch_jwt lib) (ch_replay lib) (ce_auth env) c1 req (w_auth (gs_world g)) = (Inr c2, e')"
proof -
  from stage [OF assms(1,3)] obtain ks1 ks2 c1 g1 c2 w2 where s: "ks = ks1 @ AuthE # ks2"
    "request_chain False all (map (chain_engine lib env w0) ks1) c req g = (Inr c1, g1)"
    "chain_request lib env AuthE c1 req (gs_world g1) = (Inr c2, w2)"
    "request_chain False all (map (chain_engine lib env w0) ks2) c2 req (g1\<lparr>gs_world := w2, gs_context := Some c2\<rparr>) = (Inr c', g')" .
  have n: "AuthE \<notin> set ks1" "AuthE \<notin> set ks2" using assms(2) s(1) by auto
  with s(3) part_kept(1) [OF s(2)] stage_session [OF s(2)] identity_after [OF s(4)] show ?thesis by (auto simp: lift_hook_ok)
qed

lemma session_stage:
  assumes "request_chain False all (map (chain_engine lib env w0) ks) c req g = (Inr c', g')" and "distinct ks" and "SessionE \<in> set ks"
  shows "\<exists>c1 c2 e'. session_id c1 = session_id c \<and> session_hook (ch_hmac lib) c1 req (w_session (gs_world g)) = (Inr c2, e')"
proof -
  from stage [OF assms(1,3)] obtain ks1 ks2 c1 g1 c2 w2 where s: "ks = ks1 @ SessionE # ks2"
    "request_chain False all (map (chain_engine lib env w0) ks1) c req g = (Inr c1, g1)"
    "chain_request lib env SessionE c1 req (gs_world g1) = (Inr c2, w2)" by metis
  have "SessionE \<notin> set ks1" using assms(2) s(1) by auto
  with s(3) part_kept(2) [OF s(2)] stage_session [OF s(2)] show ?thesis by (auto simp: lift_hook_ok)
qed

lemma supply_stage:
  assumes "request_chain False all (map (chain_engine lib env w0) ks) c req g = (Inr c', g')" and "distinct ks" and "SupplyChainE \<in> set ks"
  shows "\<exists>c1 c2 e'. supply_on_request (ch_supply lib) c1 req (w_supply (gs_world g)) = (Inr c2, e')"
proof -
  from stage [OF assms(1,3)] obtain ks1 ks2 c1 g1 c2 w2 where s: "ks = ks1 @ SupplyChainE # ks2"
    "request_chain False all (map (chain_engine lib env w0) ks1) c req g = (Inr c1, g1)"
    "chain_request lib env SupplyChainE c1 req (gs_world g1) = (Inr c2, w2)" by metis
  have "SupplyChainE \<notin> set ks1" using assms(2) s(1) by auto
  with s(3) part_kept(3) [OF s(2)] show ?thesis by (auto simp: lift_hook_ok)
qed

lemma authz_stage:
  assumes "request_chain False all (map (chain_engine lib env w0) ks) c req g = (Inr c', g')" and "distinct ks" and "AuthzE \<in> set ks"
    and "\<And>ks1 ks2. ks = ks1 @ AuthzE # ks2 \<Longrightarrow> AuthE \<notin> set ks2"
  shows "\<exists>c1 e'. same_identity c1 c'
    \<and> authz_on_request (ch_fr lib) (ch_sha lib) (ch_repr lib) (ce_authz env) c1 req (w_authz (gs_world g)) = (Inr c1, e')"
proof -
  from stage [OF assms(1,3)] obtain ks1 ks2 c1 g1 c2 w2 where s: "ks = ks1 @ AuthzE # ks2"
    "request_chain False all (map (chain_engine lib env w0) ks1) c req g = (Inr c1, g1)"
    "chain_request lib env AuthzE c1 req (gs_world g1) = (Inr c2, w2)"
    "request_chain False all (map (chain_engine lib env w0) ks2) c2 req (g1\<lparr>gs_world := w2, gs_context := Some c2\<rparr>) = (Inr c', g')" .
  have "AuthzE \<notin> set ks1" using assms(2) s(1) by auto
  moreover have "c2 = c1" using s(3) by (auto simp: lift_hook_ok dest: authz_keeps)
  ultimately show ?thesis
    using s(3) part_kept(4) [OF s(2)] identity_after [OF s(4) assms(4) [OF s(1)]] by (auto simp: lift_hook_ok)
qed

lemma validation_stage:
  assumes "request_chain False all (map (chain_engine lib env w0) ks) c req g = (Inr c', g')" and "distinct ks" and "ValidationE \<in> set ks"
  shows "\<exists>c1 c2. fst (validation_on_request (ch_valid lib) c1 req (w_validation (gs_world g))) = Inr c2"
proof -
  from stage [OF assms(1,3)] obtain ks1 ks2 c1 g1 c2 w2 where s: "ks = ks1 @ ValidationE # ks2"
    "request_chain False all (map (chain_engine lib env w0) ks1) c req g = (Inr c1, g1)"
    "chain_request lib env ValidationE c1 req (gs_world g1) = (Inr c2, w2)" by metis
  have "ValidationE \<notin> set ks1" using assms(2) s(1) by auto
  with part_kept(5) [OF s(2)] have w: "w_validation (gs_world g1) = w_validation (gs_world g)" by simp
  from s(3) obtain e' where "validation_on_request (ch_valid lib) c1 req (w_validation (gs_world g1)) = (Inr c2, e')"
    by (auto simp: lift_hook_ok)
  then show ?thesis unfolding w by (metis fst_conv)
qed

lemma resource_stage:
  assumes "request_chain False all (map (chain_engine lib env w0) ks) c req g = (Inr c', g')" and "distinct ks" and "ResourceE \<in> set ks"
  shows "\<exists>c1 c2 e'. session_id c1 = session_id c \<and> budget c' = budget c2
    \<and> resource_on_request (ch_loads lib) (ce_seen env) (ce_charged env) c1 req (w_resource (gs_world g)) = (Inr c2, e')"
proof -
  from stage [OF assms(1,3)] obtain ks1 ks2 c1 g1 c2 w2 where s: "ks = ks1 @ ResourceE # ks2"
    "request_chain False all (map (chain_engine lib env w0) ks1) c req g = (Inr c1, g1)"
    "chain_request lib env ResourceE c1 req (gs_world g1) = (Inr c2, w2)"
    "request_chain False all (map (chain_engine lib env w0) ks2) c2 req (g1\<lparr>gs_world := w2, gs_context := Some c2\<rparr>) = (Inr c', g')" .
  have n: "ResourceE \<notin> set ks1" "ResourceE \<notin> set ks2" using assms(2) s(1) by auto
  with s(3) part_kept(6) [OF s(2)] stage_session [OF s(2)] budget_after [OF s(4)] show ?thesis by (auto simp: lift_hook_ok)
qed

lemma identified: "identify repr c claims = Inr d \<Longrightarrow>
    (truthy (get_or_null claims ''sub'') \<longrightarrow> user_id d = get_or_null claims ''sub'') \<and> scopes d = token_scopes repr claims"
  by (auto simp: identify_def Let_def or_else_def context_defs split: if_splits)

lemma charged_within:
  assumes "resource_on_request loads seen now c req e = (Inr c', e')" and "rq_method req \<in> set content_bearing_methods"
  shows "calls_used (budget c') \<le> max_calls e"
  using assms
  by (cases rule: resource_on_request_cases [of req loads seen now c e])
    (auto simp: check_budget_def budget_increment_def split: if_splits)

lemma granted_tool:
  assumes "same_identity c c'" and "authz_on_request fr sha repr env c req e = (Inr c, e')"
    and "rq_method req = ''tools/call''" and "dget (rq_params req) ''name'' = Some (JStr tool)"
  shows "tool \<noteq> [] \<and> (case dget (az_policies e) tool of
       None \<Rightarrow> \<not> az_default_deny e
     | Some p \<Rightarrow> set (required_scopes p) \<subseteq> set (scopes c') \<and> (user_only p \<longrightarrow> truthy (user_id c'))
         \<and> (tenant_isolated p \<longrightarrow> py_eq (arg_or_null (request_args req) ''tenant_id'') (tenant_id c'))
         \<and> (destructive p \<longrightarrow> truthy (arg_or_null (request_args req) ''_confirm_token'')))"
proof -
  have cb: "rq_method req \<in> set content_bearing_methods" using assms(3) by (simp add: content_bearing_methods_def)
  have "fst (authz_on_request fr sha repr env c req e) = Inr c" using assms(2) by simp
  then obtain t where t: "request_subject req = Some t" "case dget (az_policies e) t of
         None \<Rightarrow> \<not> az_default_deny e
       | Some p \<Rightarrow> policy_checks p c (request_args req) = Inr () \<and>
           (destructive p \<longrightarrow> fst (destructive_gate fr sha repr env c t (request_args req) e) = Inr ())"
    unfolding authz_on_request_ok [OF cb] by blast
  from t(1) assms(3,4) have "t = tool" "tool \<noteq> []"
    by (auto simp: request_subject_def subject_key_def starts_with_def split: if_splits)
  with t(2) assms(1) show ?thesis
    unfolding policy_checks_ok destructive_gate_ok by (auto simp: same_identity_def split: option.splits)
qed

section \<open>An admitted tool call\<close>

text \<open>What all engines together establish for a tool call, against the state \<open>w\<close> of the engines.\<close>

definition granted_call :: "('s, 'k) chain_lib \<Rightarrow> call_env \<Rightarrow> ('s, 'k) world \<Rightarrow> mcp_request \<Rightarrow> string \<Rightarrow> ctx \<Rightarrow> bool" where
  "granted_call lib env w req tool c' = ((\<exists>token dpop claims. request_token (ch_jwt lib) (w_auth w) req = Inr (token, dpop, claims)
      \<and> check_claims (now_claims (ce_auth env)) (w_auth w) claims = Inr ()
      \<and> (truthy (get_or_null claims ''sub'') \<longrightarrow> user_id c' = get_or_null claims ''sub'')
      \<and> scopes c' = token_scopes (lib_repr (ch_jwt lib)) claims)
    \<and> verify_token (ch_hmac lib) (se_secret (w_session w)) (session_id c') (rq_transport req) = Inr ()
    \<and> (\<forall>names. sc_allowlist (w_supply w) = Some names \<longrightarrow> sl_nfkc (ch_supply lib) tool \<in> set names)
    \<and> (case dget (az_policies (w_authz w)) tool of
         None \<Rightarrow> \<not> az_default_deny (w_authz w)
       | Some p \<Rightarrow> set (required_scopes p) \<subseteq> set (scopes c') \<and> (user_only p \<longrightarrow> truthy (user_id c'))
           \<and> (tenant_isolated p \<longrightarrow> py_eq (arg_or_null (request_args req) ''tenant_id'') (tenant_id c'))
           \<and> (destructive p \<longrightarrow> truthy (arg_or_null (request_args req) ''_confirm_token'')))
    \<and> (\<forall>(l, s) \<in> set (request_texts (ch_valid lib) req). harmless s)
    \<and> calls_used (budget c') \<le> max_calls (w_resource w))"

lemma granted_by_chain:
  assumes "run_request (chain_guard lib env w0 cfg) c req g = (Inr c', g')" and "\<not> ac_dry_run cfg"
    and "{AuthE, SessionE, SupplyChainE, AuthzE, ValidationE, ResourceE} \<subseteq> set (config_kinds cfg)"
    and "rq_method req = ''tools/call''" and "dget (rq_params req) ''name'' = Some (JStr tool)"
  shows "granted_call lib env (gs_world g) req tool c' \<and> session_id c' = session_id c"
proof -
  let ?ks = "config_kinds cfg" and ?w = "gs_world g" and ?g = "g\<lparr>gs_inflight := Some (rq_method req)\<rparr>"
  let ?E = "map (chain_engine lib env w0) ?ks"
  from assms(1,2) have ch: "request_chain False ?E ?E c req ?g = (Inr c', g')"
    by (simp add: run_request_def chain_guard_def)
  have cb: "rq_method req \<in> set content_bearing_methods" using assms(4) by (simp add: content_bearing_methods_def)
  have in_ks: "AuthE \<in> set ?ks" "SessionE \<in> set ?ks" "SupplyChainE \<in> set ?ks" "AuthzE \<in> set ?ks" "ValidationE \<in> set ?ks"
    "ResourceE \<in> set ?ks" using assms(3) by auto
  obtain c1 c2 e1 where auth: "session_id c1 = session_id c" "same_identity c2 c'"
    "auth_on_request (ch_jwt lib) (ch_replay lib) (ce_auth env) c1 req (w_auth ?w) = (Inr c2, e1)"
    using auth_stage [OF ch config_kinds_distinct in_ks(1)] by auto
  obtain c3 c4 e2 where sess: "session_id c3 = session_id c" "session_hook (ch_hmac lib) c3 req (w_session ?w) = (Inr c4, e2)"
    using session_stage [OF ch config_kinds_distinct in_ks(2)] by auto
  obtain c5 c6 e3 where sup: "supply_on_request (ch_supply lib) c5 req (w_supply ?w) = (Inr c6, e3)"
    using supply_stage [OF ch config_kinds_distinct in_ks(3)] by auto
  obtain c7 e4 where az: "same_identity c7 c'"
    "authz_on_request (ch_fr lib) (ch_sha lib) (ch_repr lib) (ce_authz env) c7 req (w_authz ?w) = (Inr c7, e4)"
    using authz_stage [OF ch config_kinds_distinct in_ks(4)] auth_before_authz [of cfg] by auto
  obtain c8 c9 where val: "fst (validation_on_request (ch_valid lib) c8 req (w_validation ?w)) = Inr c9"
    using validation_stage [OF ch config_kinds_distinct in_ks(5)] by auto
  obtain c10 c11 e5 where res: "budget c' = budget c11"
    "resource_on_request (ch_loads lib) (ce_seen env) (ce_charged env) c10 req (w_resource ?w) = (Inr c11, e5)"
    using resource_stage [OF ch config_kinds_distinct in_ks(6)] by auto
  have "\<exists>token dpop claims. request_token (ch_jwt lib) (w_auth ?w) req = Inr (token, dpop, claims)
      \<and> check_claims (now_claims (ce_auth env)) (w_auth ?w) claims = Inr ()
      \<and> (truthy (get_or_null claims ''sub'') \<longrightarrow> user_id c' = get_or_null claims ''sub'')
      \<and> scopes c' = token_scopes (lib_repr (ch_jwt lib)) claims"
    using auth(2,3) identified unfolding auth_on_request_ok same_identity_def by metis
  moreover have "verify_token (ch_hmac lib) (se_secret (w_session ?w)) (session_id c') (rq_transport req) = Inr ()"
    using sess stage_session [OF ch] by (auto simp: session_hook_def session_on_request_ok)
  moreover have az_ok: "tool \<noteq> [] \<and> (case dget (az_policies (w_authz ?w)) tool of
         None \<Rightarrow> \<not> az_default_deny (w_authz ?w)
       | Some p \<Rightarrow> set (required_scopes p) \<subseteq> set (scopes c') \<and> (user_only p \<longrightarrow> truthy (user_id c'))
           \<and> (tenant_isolated p \<longrightarrow> py_eq (arg_or_null (request_args req) ''tenant_id'') (tenant_id c'))
           \<and> (destructive p \<longrightarrow> truthy (arg_or_null (request_args req) ''_confirm_token'')))"
    by (rule granted_tool [OF az assms(4,5)])
  moreover have "\<forall>names. sc_allowlist (w_supply ?w) = Some names \<longrightarrow> sl_nfkc (ch_supply lib) tool \<in> set names"
    using sup az_ok assms(4,5) by (auto simp: supply_on_request_def dict_get_str_def bindR_eq_Inr check_allowlist_def)
  moreover have "\<forall>(l, s) \<in> set (request_texts (ch_valid lib) req). harmless s"
    using clean_harmless(1) [OF accepted_texts_scanned [OF val cb]] by auto
  moreover have "calls_used (budget c') \<le> max_calls (w_resource ?w)"
    using charged_within [OF res(2) cb] res(1) by simp
  ultimately show ?thesis unfolding granted_call_def using stage_session [OF ch] by blast
qed

text \<open>
  A tool call the configured guard lets through (not in tuning mode, with the engines named)
  satisfies all of its engines at once, for the one caller the guard returns: the bearer token
  decoded and its claims were valid, the returned user and scopes are those of the token and
  the session id carries the server's signature; the tool is allowlisted and its policy is met
  by exactly that identity; no text of the arguments, at any depth, contains injection or
  traversal; and the session stayed within its call limit, this call included.
\<close>

theorem admitted_tool_call:
  assumes "run_request (chain_guard lib env (gs_world g) cfg) c req g = (Inr c', g')" and "\<not> ac_dry_run cfg"
    and "{AuthE, SessionE, SupplyChainE, AuthzE, ValidationE, ResourceE} \<subseteq> set (config_kinds cfg)"
    and "rq_method req = ''tools/call''" and "dget (rq_params req) ''name'' = Some (JStr tool)"
  shows "(\<exists>token dpop claims. request_token (ch_jwt lib) (w_auth (gs_world g)) req = Inr (token, dpop, claims)
      \<and> check_claims (now_claims (ce_auth env)) (w_auth (gs_world g)) claims = Inr ()
      \<and> (truthy (get_or_null claims ''sub'') \<longrightarrow> user_id c' = get_or_null claims ''sub'')
      \<and> scopes c' = token_scopes (lib_repr (ch_jwt lib)) claims)
    \<and> verify_token (ch_hmac lib) (se_secret (w_session (gs_world g))) (session_id c) (rq_transport req) = Inr ()
    \<and> (\<forall>names. sc_allowlist (w_supply (gs_world g)) = Some names \<longrightarrow> sl_nfkc (ch_supply lib) tool \<in> set names)
    \<and> (case dget (az_policies (w_authz (gs_world g))) tool of
         None \<Rightarrow> \<not> az_default_deny (w_authz (gs_world g))
       | Some p \<Rightarrow> set (required_scopes p) \<subseteq> set (scopes c') \<and> (user_only p \<longrightarrow> truthy (user_id c'))
           \<and> (tenant_isolated p \<longrightarrow> py_eq (arg_or_null (request_args req) ''tenant_id'') (tenant_id c'))
           \<and> (destructive p \<longrightarrow> truthy (arg_or_null (request_args req) ''_confirm_token'')))
    \<and> (\<forall>(l, s) \<in> set (request_texts (ch_valid lib) req). harmless s)
    \<and> calls_used (budget c') \<le> max_calls (w_resource (gs_world g)) \<and> session_id c' = session_id c"
proof -
  have g: "granted_call lib env (gs_world g) req tool c'" "session_id c' = session_id c"
    using granted_by_chain [OF assms] by blast+
  from g(1) show ?thesis unfolding granted_call_def g(2) by blast
qed

section \<open>A concrete deployment\<close>

definition demo_off :: json where
  "demo_off = JObj [(''enabled'', JBool False)]"

definition demo_yaml :: json where
  "demo_yaml = JObj [(''threats'', JObj [(''T4'', demo_off), (''T5'', demo_off), (''T6'', demo_off), (''T8'', demo_off),
     (''T9'', demo_off), (''T12'', demo_off)])]"

definition demo_chain_config :: armor_config where
  "demo_chain_config = (case load_config demo_config_lib demo_yaml of Inr c \<Rightarrow> c)"

lemma demo_chain_kinds: "config_kinds demo_chain_config = [AuthE, SessionE, SupplyChainE, AuthzE, ValidationE, ResourceE]
    \<and> \<not> ac_dry_run demo_chain_config"
  by (simp add: demo_chain_config_def demo_yaml_def demo_off_def config_kinds_def
      load_config_def read_block_def threat_block_def get_or_def get_int_def py_int_def
        reject_unknown_def known_top_level_def known_threat_keys_def known_by_threat_def check_stateless_def
        read_t1_def read_t2_def read_t3_def read_t4_def read_t5_def read_t6_def read_t7_def read_t8_def
        read_t9_def read_t10_def read_t11_def read_t12_def get_or_null_def opt_tuple_def or_else_def get_bool_def)

definition demo_call_ctx :: ctx where
  "demo_call_ctx = new_context 0 (mint_token demo_hmac [1] (replicate 18 5) ''http'') ''http''"

definition demo_headers :: "(string \<times> string) list" where
  "demo_headers = [(''authorization'', ''Bearer t''), (''mcp-session-id'', session_id demo_call_ctx)]"

definition demo_tool_call :: mcp_request where
  "demo_tool_call = Validation.demo_call\<lparr>rq_session_id := session_id demo_call_ctx, rq_headers := demo_headers,
     rq_header_pairs := demo_headers\<rparr>"

definition demo_world :: "(jti_cache, nat) world" where
  "demo_world = \<lparr>w_audit = (new_audit_engine False False None None, empty_disk), w_auth = demo_auth False,
     w_session = \<lparr>se_secret = [1], se_require_handshake = False\<rparr>, w_network = new_network_engine False True None 0,
     w_supply = \<lparr>sc_allowlist = Some [''t''], sc_require_sig = False, sc_threshold = 1, sc_pub_key = None\<rparr>,
     w_authz = new_authz_engine [(''t'', \<lparr>required_scopes = [], user_only = True, destructive = False, tenant_isolated = False\<rparr>)]
       True 60 False [], w_envelope = new_envelope_engine None, w_validation = demo_validation,
     w_boundary = \<lparr>be_scan_call_args = True, be_scan_responses = True, be_using_re2 = False\<rparr>,
     w_resource = new_resource_engine 1 300 10 30 15,
     w_integrity = \<lparr>in_fail_on_drift = True, in_allowlist = None, in_distance = 1\<rparr>, w_pii = new_protection_engine ''pci'',
     w_trust = \<lparr>te_max_len = 10, te_strip = True, te_using_re2 = False\<rparr>\<rparr>"

definition demo_chain_lib :: "(jti_cache, nat) chain_lib" where
  "demo_chain_lib = \<lparr>ch_audit = demo_audit_lib, ch_jwt = Auth.demo_lib, ch_replay = jti_check_and_add, ch_hmac = demo_hmac,
     ch_loads = (\<lambda>s. NotJson), ch_net = \<lparr>nl_urlhost = (\<lambda>s. None), nl_resolve = (\<lambda>s. None)\<rparr>, ch_supply = demo_supply,
     ch_fr = ratio_text, ch_sha = (\<lambda>b. []), ch_repr = (\<lambda>j. []), ch_valid = demo_valid, ch_boundary = demo_boundary,
     ch_integrity = demo_integrity\<rparr>"

definition demo_call_env :: call_env where
  "demo_call_env = \<lparr>ce_now = 0, ce_entry_id = ''e'', ce_str = (\<lambda>d. []), ce_auth = demo_times 0, ce_authz = demo_env [],
     ce_seen = 0, ce_charged = 0, ce_allow_unsigned = True, ce_urandom = replicate 18 5\<rparr>"

definition demo_authed :: ctx where
  "demo_authed = with_scopes (with_user demo_call_ctx (JStr ''u'') JNull) []"

lemma demo_auth_step: "fst (auth_on_request Auth.demo_lib jti_check_and_add (demo_times 0) demo_call_ctx demo_tool_call (demo_auth False))
    = Inr demo_authed"
  by code_simp

lemma demo_session_step: "session_hook demo_hmac demo_authed demo_tool_call (w_session demo_world) = (Inr demo_authed, w_session demo_world)"
proof -
  have "verify_token demo_hmac [1] (session_id demo_authed) ''http'' = Inr ()" by code_simp
  then show ?thesis
    by (simp add: session_hook_def session_on_request_ok demo_world_def demo_tool_call_def Validation.demo_call_def)
qed

lemma demo_supply_step: "fst (supply_on_request demo_supply demo_authed demo_tool_call (w_supply demo_world)) = Inr demo_authed"
  by (simp add: supply_on_request_def demo_world_def demo_tool_call_def Validation.demo_call_def dict_get_str_def
      check_allowlist_def check_typosquat_def demo_supply_def)

lemma demo_authz_step: "fst (authz_on_request ratio_text (\<lambda>b. []) (\<lambda>j. []) (demo_env []) demo_authed demo_tool_call (w_authz demo_world)) = Inr demo_authed"
proof -
  have m: "rq_method demo_tool_call \<in> set content_bearing_methods"
    by (simp add: demo_tool_call_def Validation.demo_call_def content_bearing_methods_def)
  have "request_subject demo_tool_call = Some ''t''"
    by (simp add: demo_tool_call_def Validation.demo_call_def request_subject_def subject_key_def starts_with_def)
  then show ?thesis
    unfolding authz_on_request_ok [OF m]
    by (simp add: demo_world_def new_authz_engine_def policy_checks_ok demo_authed_def context_defs)
qed

lemma demo_validation_step: "fst (validation_on_request demo_valid demo_authed demo_tool_call demo_validation) = Inr demo_authed"
  using demo_call_accepted
  by (auto simp: validation_on_request_def scannable_strings_def schema_gate_def demo_tool_call_def bindR_eq_Inr Let_def split: if_splits)

lemma demo_resource_step: "\<exists>c'. fst (resource_on_request (\<lambda>s. NotJson) 0 0 demo_authed demo_tool_call (new_resource_engine 1 300 10 30 15))
    = Inr c'"
proof (cases rule: resource_on_request_cases [of demo_tool_call "\<lambda>s. NotJson" 0 0 demo_authed "new_resource_engine 1 300 10 30 15"])
  case (refused x)
  have "check_budget (new_resource_engine 1 300 10 30 15) 0 (request_budget demo_authed (new_resource_engine 1 300 10 30 15)) = Inr ()"
    by (simp add: check_budget_def request_budget_def new_resource_engine_def demo_authed_def demo_call_ctx_def context_defs new_context_def)
  moreover have "decode_string_argument (\<lambda>s. NotJson) ''!'' = Inr None" by code_simp
  then have "check_arg_depth (\<lambda>s. NotJson) (max_arg_depth (new_resource_engine 1 300 10 30 15)) demo_tool_call = Inr ()"
    by (simp add: new_resource_engine_def check_arg_depth_def decoded_json_string_arguments_def json_depth_def
        demo_tool_call_def Validation.demo_call_def)
  ultimately show ?thesis using refused(3) by simp
qed simp_all

lemma demo_resource: "w_resource demo_world = new_resource_engine 1 300 10 30 15"
  by (simp add: demo_world_def)

lemma demo_chain_run: "\<exists>c' g'. run_request (chain_guard demo_chain_lib demo_call_env demo_world demo_chain_config) demo_call_ctx demo_tool_call
     \<lparr>gs_world = demo_world, gs_context = c0, gs_inflight = None\<rparr> = (Inr c', g')"
proof -
  obtain a1 where 1: "auth_on_request Auth.demo_lib jti_check_and_add (demo_times 0) demo_call_ctx demo_tool_call (demo_auth False) = (Inr demo_authed, a1)"
    using demo_auth_step by (metis prod.collapse)
  obtain a2 where 2: "supply_on_request demo_supply demo_authed demo_tool_call (w_supply demo_world) = (Inr demo_authed, a2)"
    using demo_supply_step by (metis prod.collapse)
  obtain a3 where 3: "authz_on_request ratio_text (\<lambda>b. []) (\<lambda>j. []) (demo_env []) demo_authed demo_tool_call (w_authz demo_world) = (Inr demo_authed, a3)"
    using demo_authz_step by (metis prod.collapse)
  obtain a4 where 4: "validation_on_request demo_valid demo_authed demo_tool_call demo_validation = (Inr demo_authed, a4)"
    using demo_validation_step by (metis prod.collapse)
  obtain c5 a5 where 5: "resource_on_request (\<lambda>s. NotJson) 0 0 demo_authed demo_tool_call (w_resource demo_world) = (Inr c5, a5)"
    using demo_resource_step by (metis prod.collapse demo_resource)
  note parts = 1 demo_session_step 2 3 4 5
  have lib: "ch_jwt demo_chain_lib = Auth.demo_lib" "ch_replay demo_chain_lib = jti_check_and_add" "ch_hmac demo_chain_lib = demo_hmac"
    "ch_supply demo_chain_lib = demo_supply" "ch_fr demo_chain_lib = ratio_text" "ch_sha demo_chain_lib = (\<lambda>b. [])"
    "ch_repr demo_chain_lib = (\<lambda>j. [])" "ch_valid demo_chain_lib = demo_valid" "ch_loads demo_chain_lib = (\<lambda>s. NotJson)"
    "ce_auth demo_call_env = demo_times 0" "ce_authz demo_call_env = demo_env []" "ce_seen demo_call_env = 0" "ce_charged demo_call_env = 0"
    by (simp_all add: demo_chain_lib_def demo_call_env_def)
  have w: "w_auth demo_world = demo_auth False" "w_validation demo_world = demo_validation" by (simp_all add: demo_world_def)
  have "gd_engines (chain_guard demo_chain_lib demo_call_env demo_world demo_chain_config)
      = map (chain_engine demo_chain_lib demo_call_env demo_world) [AuthE, SessionE, SupplyChainE, AuthzE, ValidationE, ResourceE]"
    "gd_dry_run (chain_guard demo_chain_lib demo_call_env demo_world demo_chain_config) = False"
    using demo_chain_kinds by (simp_all add: chain_guard_def)
  then show ?thesis
    unfolding run_request_def
    by (simp add: chain_engine_def lift_hook_def lib w parts)
qed

theorem admitted_tool_call_witness:
  "\<exists>c' :: ctx. calls_used (budget c') \<le> 1 \<and> session_id c' = session_id demo_call_ctx \<and> truthy (user_id c')"
proof -
  let ?g = "\<lparr>gs_world = demo_world, gs_context = None, gs_inflight = None\<rparr>"
  obtain c' g' where r: "run_request (chain_guard demo_chain_lib demo_call_env demo_world demo_chain_config) demo_call_ctx demo_tool_call ?g = (Inr c', g')"
    using demo_chain_run by blast
  have r': "run_request (chain_guard demo_chain_lib demo_call_env (gs_world ?g) demo_chain_config) demo_call_ctx demo_tool_call ?g = (Inr c', g')"
    using r by simp
  have m: "rq_method demo_tool_call = ''tools/call''" "dget (rq_params demo_tool_call) ''name'' = Some (JStr ''t'')"
    by (simp_all add: demo_tool_call_def Validation.demo_call_def)
  have k: "{AuthE, SessionE, SupplyChainE, AuthzE, ValidationE, ResourceE} \<subseteq> set (config_kinds demo_chain_config)"
    using demo_chain_kinds by simp
  from admitted_tool_call [OF r' conjunct2 [OF demo_chain_kinds] k m]
  have "truthy (user_id c')" and "calls_used (budget c') \<le> 1" and "session_id c' = session_id demo_call_ctx"
    by (auto simp: demo_world_def new_resource_engine_def new_authz_engine_def)
  then show ?thesis by blast
qed

end
