(* ===== verification/Wire.thy ===== *)
theory Wire
  imports Identity
begin

text \<open>
  How the HTTP adapter reads bytes off the wire (the helpers of
  \<open>mcp_armor/adapters/fastapi.py\<close>): the strict reading of a JSON body, the search for protocol
  field names a case-insensitive reader would take for the real ones, and the query string.
  The grammar of \<open>json.loads\<close> is a parameter: it yields the parse tree, in which an object lists
  its members in the order of the text, repeated keys included, a constant such as \<open>NaN\<close> and a
  number beyond the float range are non-finite floats.  The three hooks the adapter gives to
  \<open>json.loads\<close> are functions on that tree, and so is the reading without hooks.
\<close>

section \<open>The strict reading\<close>

definition value_error :: "string \<Rightarrow> 'a result" where
  "value_error s = Inl (PyExc ValueError s)"

text \<open>\<open>_reject_duplicate_keys\<close>.\<close>

fun reject_duplicate_keys :: "(string \<times> json) list \<Rightarrow> (string, json) dict \<Rightarrow> (string, json) dict result" where
  "reject_duplicate_keys [] out = Inr out"
| "reject_duplicate_keys ((k, v) # ps) out =
     (if dhas out k then value_error ''duplicate JSON object key''
      else reject_duplicate_keys ps (AList.update k v out))"

text \<open>\<open>_finite_float\<close> and \<open>_reject_constant\<close>.\<close>

definition finite_float :: "pyfloat \<Rightarrow> json result" where
  "finite_float x = (case x of Fin q \<Rightarrow> Inr (JFloat (Fin q)) | _ \<Rightarrow> value_error ''JSON number out of range'')"

fun strict :: "json \<Rightarrow> json result"
  and strict_list :: "json list \<Rightarrow> json list result"
  and strict_items :: "(string \<times> json) list \<Rightarrow> (string \<times> json) list result" where
  "strict (JFloat x) = finite_float x"
| "strict (JArr xs) = bindR (strict_list xs) (\<lambda>ys. Inr (JArr ys))"
| "strict (JObj kvs) = bindR (strict_items kvs) (\<lambda>ps. bindR (reject_duplicate_keys ps []) (\<lambda>d. Inr (JObj d)))"
| "strict v = Inr v"
| "strict_list [] = Inr []"
| "strict_list (x # xs) = bindR (strict x) (\<lambda>y. bindR (strict_list xs) (\<lambda>ys. Inr (y # ys)))"
| "strict_items [] = Inr []"
| "strict_items ((k, v) # kvs) = bindR (strict v) (\<lambda>w. bindR (strict_items kvs) (\<lambda>ps. Inr ((k, w) # ps)))"

text \<open>\<open>_strict_json_loads\<close>; \<open>None\<close> stands for the errors of the grammar itself.\<close>

definition strict_json_loads :: "(bytes \<Rightarrow> json option) \<Rightarrow> bytes \<Rightarrow> json result" where
  "strict_json_loads parse b = (case parse b of None \<Rightarrow> value_error ''JSONDecodeError'' | Some t \<Rightarrow> strict t)"

text \<open>The reading without hooks: of a repeated key the place of the first and the value of the last.\<close>

fun last_wins :: "json \<Rightarrow> json"
  and last_items :: "(string \<times> json) list \<Rightarrow> (string, json) dict \<Rightarrow> (string, json) dict"
  and last_list :: "json list \<Rightarrow> json list" where
  "last_wins (JArr xs) = JArr (last_list xs)"
| "last_wins (JObj kvs) = JObj (last_items kvs [])"
| "last_wins v = v"
| "last_items [] out = out"
| "last_items ((k, v) # kvs) out = last_items kvs (AList.update k (last_wins v) out)"
| "last_list [] = []"
| "last_list (x # xs) = last_wins x # last_list xs"

definition json_loads :: "(bytes \<Rightarrow> json option) \<Rightarrow> bytes \<Rightarrow> json result" where
  "json_loads parse b = (case parse b of None \<Rightarrow> value_error ''JSONDecodeError'' | Some t \<Rightarrow> Inr (last_wins t))"

text \<open>A reader that keeps the first of a repeated key.\<close>

fun first_wins :: "json \<Rightarrow> json"
  and first_items :: "(string \<times> json) list \<Rightarrow> (string, json) dict \<Rightarrow> (string, json) dict"
  and first_list :: "json list \<Rightarrow> json list" where
  "first_wins (JArr xs) = JArr (first_list xs)"
| "first_wins (JObj kvs) = JObj (first_items kvs [])"
| "first_wins v = v"
| "first_items [] out = out"
| "first_items ((k, v) # kvs) out = first_items kvs (if dhas out k then out else out @ [(k, first_wins v)])"
| "first_list [] = []"
| "first_list (x # xs) = first_wins x # first_list xs"

section \<open>Field names a case-insensitive reader accepts\<close>

fun keys_of :: "json \<Rightarrow> string list" where
  "keys_of (JObj d) = map fst d"
| "keys_of _ = []"

text \<open>\<open>_reject_casefold_collisions\<close> on one object after the other.\<close>

fun reject_casefold_collisions :: "json list \<Rightarrow> unit result" where
  "reject_casefold_collisions [] = Inr ()"
| "reject_casefold_collisions (v # vs) =
     (if length (remdups (map casefold (keys_of v))) \<noteq> length (keys_of v)
      then value_error ''JSON object keys collide under case folding''
      else reject_casefold_collisions vs)"

definition canonical_of :: "string list \<Rightarrow> (string, string) dict" where
  "canonical_of fs = map (\<lambda>f. (casefold f, f)) fs"

definition reject_case_variant_fields :: "string list \<Rightarrow> json \<Rightarrow> unit result" where
  "reject_case_variant_fields fs v =
     (if list_all (\<lambda>key. case dget (canonical_of fs) (casefold key) of None \<Rightarrow> True | Some exact \<Rightarrow> key = exact) (keys_of v)
      then Inr () else value_error ''case-variant protocol field name'')"

definition envelope_fields :: "string list" where
  "envelope_fields = [''jsonrpc'', ''id'', ''method'', ''params'', ''result'', ''error'']"

definition params_fields :: "string list" where
  "params_fields = [''name'', ''arguments'', ''uri'', ''_meta'', ''cursor'', ''requestState'', ''inputResponses'', ''task'',
     ''taskId'', ''protocolVersion'', ''capabilities'', ''clientInfo'', ''level'', ''ref'', ''argument'', ''context'', ''messages'']"

definition meta_fields :: "string list" where
  "meta_fields = [''progressToken'']"

definition result_fields :: "string list" where
  "result_fields = [''tools'', ''content'', ''isError'', ''structuredContent'', ''contents'', ''resources'',
     ''resourceTemplates'', ''prompts'', ''messages'', ''nextCursor'', ''_meta'', ''resultType'', ''inputRequests'',
     ''requestState'', ''cacheScope'', ''ttlMs'', ''completion'', ''task'']"

definition error_fields :: "string list" where
  "error_fields = [''code'', ''message'', ''data'']"

definition common_element_fields :: "string list" where
  "common_element_fields = [''title'', ''description'', ''size'', ''icons'', ''annotations'', ''_meta'', ''audience'', ''priority'']"

definition content_fields :: "string list" where
  "content_fields = [''type'', ''text'', ''data'', ''mimeType'', ''resource'', ''uri'', ''name''] @ common_element_fields"

definition resource_contents_fields :: "string list" where
  "resource_contents_fields = [''uri'', ''text'', ''blob'', ''mimeType''] @ common_element_fields"

definition result_element_fields :: "(string, string list) dict" where
  "result_element_fields = [(''tools'', [''name'', ''inputSchema'', ''outputSchema''] @ common_element_fields),
     (''content'', content_fields), (''contents'', resource_contents_fields), (''messages'', [''role'', ''content'']),
     (''resources'', [''uri'', ''name'', ''mimeType''] @ common_element_fields),
     (''prompts'', [''name'', ''arguments''] @ common_element_fields)]"

definition member :: "json \<Rightarrow> string \<Rightarrow> json" where
  "member v k = (case v of JObj d \<Rightarrow> get_or_null d k | _ \<Rightarrow> JNull)"

definition check_request_envelope_keys :: "json \<Rightarrow> unit result" where
  "check_request_envelope_keys payload =
     (if \<not> is_obj payload then Inr ()
      else
        let params = member payload ''params''
        in bindR (reject_casefold_collisions [payload, params, member params ''arguments'', member params ''_meta'']) (\<lambda>_.
           bindR (reject_case_variant_fields envelope_fields payload) (\<lambda>_.
           bindR (reject_case_variant_fields params_fields params) (\<lambda>_.
           reject_case_variant_fields meta_fields (member params ''_meta'')))))"

fun elements_of :: "json \<Rightarrow> json list" where
  "elements_of (JArr xs) = xs"
| "elements_of _ = []"

text \<open>A loop of checks: the first error ends it.\<close>

fun check_each :: "('a \<Rightarrow> unit result) \<Rightarrow> 'a list \<Rightarrow> unit result" where
  "check_each f [] = Inr ()"
| "check_each f (x # xs) = bindR (f x) (\<lambda>_. check_each f xs)"

definition check_message_part :: "json \<Rightarrow> unit result" where
  "check_message_part part = bindR (reject_case_variant_fields content_fields part) (\<lambda>_.
     reject_case_variant_fields resource_contents_fields (member part ''resource''))"

definition check_element :: "string \<Rightarrow> string list \<Rightarrow> json \<Rightarrow> unit result" where
  "check_element list_field fs element =
     bindR (reject_case_variant_fields fs element) (\<lambda>_.
       if \<not> is_obj element then Inr ()
       else if list_field = ''content''
         then reject_case_variant_fields resource_contents_fields (member element ''resource'')
       else if list_field = ''messages''
         then (case member element ''content'' of
             JArr parts \<Rightarrow> check_each check_message_part parts
           | part \<Rightarrow> check_message_part part)
       else Inr ())"

definition check_response_envelope_keys :: "json \<Rightarrow> unit result" where
  "check_response_envelope_keys body =
     (if \<not> is_obj body then Inr ()
      else
        let result = member body ''result''; err = member body ''error''
        in bindR (reject_casefold_collisions [body, result, err]) (\<lambda>_.
           bindR (reject_case_variant_fields envelope_fields body) (\<lambda>_.
           bindR (reject_case_variant_fields result_fields result) (\<lambda>_.
           bindR (reject_case_variant_fields error_fields err) (\<lambda>_.
           check_each (\<lambda>(list_field, fs). check_each (check_element list_field fs) (elements_of (member result list_field)))
             result_element_fields)))))"

text \<open>\<open>_carries_protocol_version\<close>.\<close>

definition carries_protocol_version :: "(string, json) dict \<Rightarrow> bool" where
  "carries_protocol_version payload = is_str (member (member (get_or_null payload ''params'') ''_meta'') meta_protocol_version)"

section \<open>The query string\<close>

text \<open>\<open>_parse_qs\<close>.\<close>

definition qs_pair :: "(bytes \<Rightarrow> string) \<Rightarrow> string \<Rightarrow> (string \<times> string) option" where
  "qs_pair decode part = (case split_on1 (CHR ''='') part of
     [k, v] \<Rightarrow> Some (unquote_plus decode k, unquote_plus decode v)
   | _ \<Rightarrow> if part = [] then None else Some (unquote_plus decode part, []))"

definition parse_qs :: "(bytes \<Rightarrow> string) \<Rightarrow> string \<Rightarrow> (string, string) dict" where
  "parse_qs decode qs = (if qs = [] then [] else
     foldl (\<lambda>d part. case qs_pair decode part of None \<Rightarrow> d | Some (k, v) \<Rightarrow> AList.update k v d) [] (split_on (CHR ''&'') qs))"

section \<open>The strict reading is the only reading\<close>

text \<open>What the hooks let through: finite numbers, and objects without a repeated key, at every depth.\<close>

fun finite_floats :: "json \<Rightarrow> bool"
  and clean :: "json \<Rightarrow> bool" where
  "finite_floats (JFloat (Fin q)) = True"
| "finite_floats (JFloat _) = False"
| "finite_floats _ = True"
| "clean (JArr xs) = list_all clean xs"
| "clean (JObj kvs) = (distinct (map fst kvs) \<and> list_all (\<lambda>p. clean (snd p)) kvs)"
| "clean v = finite_floats v"

lemma reject_duplicate_keys_ok:
  "reject_duplicate_keys ps out = (if distinct (map fst ps) \<and> fst ` set ps \<inter> fst ` set out = {}
     then Inr (out @ ps) else value_error ''duplicate JSON object key'')"
proof (induction ps arbitrary: out)
  case (Cons p ps)
  obtain k v where p: "p = (k, v)" by (cases p)
  show ?case
  proof (cases "dhas out k")
    case False
    then have "reject_duplicate_keys ((k, v) # ps) out = reject_duplicate_keys ps (out @ [(k, v)])"
      using wf_dict_update_new [of k out v] by simp
    then show ?thesis using Cons.IH [of "out @ [(k, v)]"] False p by auto
  qed (use p in auto)
qed simp

lemma strict_clean:
  "strict v = Inr w \<longleftrightarrow> clean v \<and> w = v"
  "strict_list xs = Inr ys \<longleftrightarrow> list_all clean xs \<and> ys = xs"
  "strict_items kvs = Inr ps \<longleftrightarrow> list_all (\<lambda>p. clean (snd p)) kvs \<and> ps = kvs"
proof (induction v and xs and kvs arbitrary: w and ys and ps rule: strict_strict_list_strict_items.induct)
  case (1 x)
  then show ?case by (cases x) (auto simp: finite_float_def value_error_def)
next
  case (3 kvs)
  then show ?case by (auto simp: bindR_eq_Inr reject_duplicate_keys_ok value_error_def split: if_splits)
qed (auto simp: bindR_eq_Inr)

lemma clean_readings:
  "clean v \<Longrightarrow> last_wins v = v \<and> first_wins v = v"
  "list_all (\<lambda>p. clean (snd p)) kvs \<Longrightarrow> distinct (map fst kvs) \<Longrightarrow> fst ` set kvs \<inter> fst ` set out = {}
     \<Longrightarrow> last_items kvs out = out @ kvs \<and> first_items kvs out = out @ kvs"
  "list_all clean xs \<Longrightarrow> last_list xs = xs \<and> first_list xs = xs"
proof (induction v and kvs out and xs rule: last_wins_last_items_last_list.induct)
  case (5 k v kvs out)
  then have n: "\<not> dhas out k" by auto
  have "last_wins v = v \<and> first_wins v = v" using 5 by simp
  moreover have "last_items kvs (out @ [(k, v)]) = (out @ [(k, v)]) @ kvs \<and> first_items kvs (out @ [(k, v)]) = (out @ [(k, v)]) @ kvs"
    using 5 wf_dict_update_new [OF n] by auto
  ultimately show ?case using n wf_dict_update_new [OF n] by simp
qed auto

text \<open>
  C13: A body the adapter accepts has one reading only: the guard's value is the value a reader
  that keeps the last of a repeated key gets from the same bytes, and the value a reader that
  keeps the first gets.  What the engines inspect is what any upstream parser executes.  The
  body is refused exactly when an object repeats a key or a number is not finite, at any depth.
\<close>

theorem strict_reading_unambiguous:
  assumes "parse b = Some t"
  shows "(strict_json_loads parse b = Inr v \<longleftrightarrow> clean t \<and> v = t)
     \<and> (clean t \<longrightarrow> json_loads parse b = Inr t \<and> first_wins t = t)"
  using assms clean_readings(1) [of t] by (simp add: strict_json_loads_def json_loads_def strict_clean(1))

theorem strict_reading_unambiguous_witness:
  "strict_json_loads (\<lambda>b. Some (JObj [(''a'', JInt 1), (''a'', JInt 2)])) [] \<noteq> Inr (JObj [(''a'', JInt 2)])
   \<and> json_loads (\<lambda>b. Some (JObj [(''a'', JInt 1), (''a'', JInt 2)])) [] = Inr (JObj [(''a'', JInt 2)])
   \<and> strict_json_loads (\<lambda>b. Some (JObj [(''a'', JInt 1)])) [] = Inr (JObj [(''a'', JInt 1)])"
  using strict_reading_unambiguous [of "\<lambda>b. Some (JObj [(''a'', JInt 1), (''a'', JInt 2)])" "[]" _ "JObj [(''a'', JInt 2)]"]
    strict_reading_unambiguous [of "\<lambda>b. Some (JObj [(''a'', JInt 1)])" "[]" _ "JObj [(''a'', JInt 1)]"]
  by (simp add: json_loads_def)

section \<open>No reader is case-insensitive to the guard's disadvantage\<close>

text \<open>
  A decoder that maps members onto the fields of a structure regardless of case, taking the
  first or the last member that matches.
\<close>

definition ci_first :: "(string, json) dict \<Rightarrow> string \<Rightarrow> json option" where
  "ci_first d f = dget (map (\<lambda>(k, v). (casefold k, v)) d) (casefold f)"

definition ci_last :: "(string, json) dict \<Rightarrow> string \<Rightarrow> json option" where
  "ci_last d f = ci_first (rev d) f"

lemma dget_keyed:
  "(\<And>k v. (k, v) \<in> set d \<Longrightarrow> h k = h f \<Longrightarrow> k = f) \<Longrightarrow> dget (map (\<lambda>(k, v). (h k, v)) d) (h f) = dget d f"
proof (induction d)
  case (Cons p d)
  obtain k v where p: "p = (k, v)" by (cases p)
  have "h k = h f \<longleftrightarrow> k = f" using Cons.prems [of k v] p by auto
  moreover have "dget (map (\<lambda>(k, v). (h k, v)) d) (h f) = dget d f" using Cons p by auto
  ultimately show ?case using p by auto
qed simp

lemma dget_rev: "wf_dict d \<Longrightarrow> dget (rev d) f = dget d f"
  unfolding wf_dict_def by (metis map_of_inject_set distinct_rev rev_map set_rev)

lemma canonical_get:
  "distinct (map casefold fs) \<Longrightarrow> f \<in> set fs \<Longrightarrow> dget (canonical_of fs) (casefold f) = Some f"
  by (rule map_of_is_SomeI) (auto simp: canonical_of_def comp_def)

lemma exact_field:
  assumes "reject_case_variant_fields fs (JObj d) = Inr ()" and "distinct (map casefold fs)" and "f \<in> set fs"
    and "(k, v) \<in> set d" and "casefold k = casefold f"
  shows "k = f"
  using assms canonical_get [OF assms(2,3)]
  by (auto simp: reject_case_variant_fields_def value_error_def list_all_iff split: if_splits)

lemma field_read_alike:
  assumes "reject_case_variant_fields fs (JObj d) = Inr ()" and "distinct (map casefold fs)" and "f \<in> set fs" and "wf_dict d"
  shows "ci_first d f = dget d f \<and> ci_last d f = dget d f"
proof -
  have k: "\<And>k v. (k, v) \<in> set d \<Longrightarrow> casefold k = casefold f \<Longrightarrow> k = f"
    by (rule exact_field [OF assms(1-3)])
  have "ci_first d f = dget d f" unfolding ci_first_def by (rule dget_keyed) (rule k)
  moreover have "ci_last d f = dget (rev d) f" unfolding ci_last_def ci_first_def by (rule dget_keyed) (use k in auto)
  ultimately show ?thesis using dget_rev [OF assms(4)] by simp
qed

lemma no_collision:
  "reject_casefold_collisions vs = Inr () \<Longrightarrow> JObj d \<in> set vs \<Longrightarrow> distinct (map (\<lambda>p. casefold (fst p)) d)"
proof (induction vs)
  case (Cons v vs)
  have "length (remdups (map (\<lambda>p. casefold (fst p)) d)) = length d \<Longrightarrow> distinct (map (\<lambda>p. casefold (fst p)) d)"
    by (metis length_map length_remdups_eq remdups_id_iff_distinct)
  with Cons show ?case by (auto simp: value_error_def comp_def split: if_splits)
qed simp

lemma wf_of_folded: "distinct (map (\<lambda>p. casefold (fst p)) d) \<Longrightarrow> wf_dict d"
  unfolding wf_dict_def using distinct_map [of casefold "map fst d"] by (simp add: comp_def)

lemma argument_read_alike:
  assumes "distinct (map (\<lambda>p. casefold (fst p)) d)" and "dget d f = Some v"
  shows "ci_first d f = Some v \<and> ci_last d f = Some v"
proof -
  have i: "inj_on casefold (set (map fst d))" using distinct_map [of casefold "map fst d"] assms(1) by (simp add: comp_def)
  have f: "f \<in> fst ` set d" using assms(2) by (simp add: dhas_conv_dget)
  have k: "\<And>k u. (k, u) \<in> set d \<Longrightarrow> casefold k = casefold f \<Longrightarrow> k = f"
    using inj_onD [OF i, of _ f] f by (auto simp: image_iff) (metis fst_conv)
  have "ci_first d f = dget d f" unfolding ci_first_def by (rule dget_keyed) (rule k)
  moreover have "ci_last d f = dget (rev d) f" unfolding ci_last_def ci_first_def by (rule dget_keyed) (use k in auto)
  ultimately show ?thesis using dget_rev [OF wf_of_folded [OF assms(1)]] assms(2) by simp
qed

lemma fields_distinct:
  "distinct (map casefold envelope_fields)" "distinct (map casefold params_fields)"
  by code_simp+

text \<open>
  C26: In a request that passes the envelope check no upstream decoder can see another call than
  the guard: a decoder that ignores case, whichever of several matches it takes, reads every
  field of the JSON-RPC envelope, every field of the parameters and every argument the guard
  sees with exactly the guard's value, and a field the guard sees as absent is absent for it.
\<close>

theorem request_read_alike:
  assumes "check_request_envelope_keys (JObj d) = Inr ()" and "dget d ''params'' = Some (JObj p)"
    and "f \<in> set envelope_fields" and "f' \<in> set params_fields"
  shows "ci_first d f = dget d f \<and> ci_last d f = dget d f \<and> ci_first p f' = dget p f' \<and> ci_last p f' = dget p f'
    \<and> (\<forall>a x v. dget p ''arguments'' = Some (JObj a) \<and> dget a x = Some v \<longrightarrow> ci_first a x = Some v \<and> ci_last a x = Some v)"
proof -
  have m: "member (JObj d) ''params'' = JObj p" using assms(2) by (simp add: member_def get_or_null_def)
  from assms(1) m have c: "reject_casefold_collisions [JObj d, JObj p, member (JObj p) ''arguments'', member (JObj p) ''_meta''] = Inr ()"
    and e: "reject_case_variant_fields envelope_fields (JObj d) = Inr ()"
    and q: "reject_case_variant_fields params_fields (JObj p) = Inr ()"
    by (simp_all add: check_request_envelope_keys_def Let_def bindR_eq_Inr)
  have wd: "wf_dict d" and wp: "wf_dict p" using no_collision [OF c] by (auto intro: wf_of_folded)
  have "ci_first a x = Some v \<and> ci_last a x = Some v" if "dget p ''arguments'' = Some (JObj a)" "dget a x = Some v" for a x v
  proof (rule argument_read_alike [OF no_collision [OF c] that(2)])
    show "JObj a \<in> set [JObj d, JObj p, member (JObj p) ''arguments'', member (JObj p) ''_meta'']"
      using that(1) by (simp add: member_def get_or_null_def)
  qed
  with field_read_alike [OF e fields_distinct(1) assms(3) wd] field_read_alike [OF q fields_distinct(2) assms(4) wp]
  show ?thesis by blast
qed

definition demo_wire_body :: "(string, json) dict" where
  "demo_wire_body = [(''method'', JStr ''tools/call''), (''params'', JObj [(''name'', JStr ''t''), (''arguments'', JObj [(''x'', JInt 1)])])]"

theorem request_read_alike_witness:
  "ci_last demo_wire_body ''method'' = Some (JStr ''tools/call'')
   \<and> ci_first [(''name'', JStr ''t''), (''arguments'', JObj [(''x'', JInt 1)])] ''name'' = Some (JStr ''t'')
   \<and> check_request_envelope_keys (JObj ((''METHOD'', JStr ''ping'') # demo_wire_body)) \<noteq> Inr ()"
proof -
  have "check_request_envelope_keys (JObj demo_wire_body) = Inr ()" by code_simp
  moreover have "dget demo_wire_body ''params'' = Some (JObj [(''name'', JStr ''t''), (''arguments'', JObj [(''x'', JInt 1)])])"
    by (simp add: demo_wire_body_def)
  ultimately have "ci_last demo_wire_body ''method'' = dget demo_wire_body ''method''
     \<and> ci_first [(''name'', JStr ''t''), (''arguments'', JObj [(''x'', JInt 1)])] ''name''
       = dget [(''name'', JStr ''t''), (''arguments'', JObj [(''x'', JInt 1)])] ''name''"
    using request_read_alike [of demo_wire_body _ "''method''" "''name''"] by (auto simp: envelope_fields_def params_fields_def)
  moreover have "check_request_envelope_keys (JObj ((''METHOD'', JStr ''ping'') # demo_wire_body)) \<noteq> Inr ()" by code_simp
  ultimately show ?thesis by (simp add: demo_wire_body_def)
qed

section \<open>No spelling of a query parameter is overlooked\<close>

lemma fold_update_dhas: "dhas d k \<Longrightarrow>
    dhas (foldl (\<lambda>d part. case qs_pair decode part of None \<Rightarrow> d | Some (k, v) \<Rightarrow> AList.update k v d) d ps) k"
  by (induction ps arbitrary: d) (auto split: option.splits)

lemma parse_qs_complete:
  assumes "part \<in> set (split_on (CHR ''&'') qs)" and "qs_pair decode part = Some (k, v)"
  shows "dhas (parse_qs decode qs) k"
proof -
  have "dhas (foldl (\<lambda>d part. case qs_pair decode part of None \<Rightarrow> d | Some (k, v) \<Rightarrow> AList.update k v d) d ps) k"
    if "part \<in> set ps" for ps d
    using that
  proof (induction ps arbitrary: d)
    case (Cons x ps)
    show ?case
    proof (cases "x = part")
      case True
      then show ?thesis using assms(2) fold_update_dhas [of k "AList.update k v d"] by simp
    next
      case False
      with Cons show ?thesis by (auto split: option.splits)
    qed
  qed simp
  moreover have "qs \<noteq> []" using assms by (auto simp: qs_pair_def split_on1_def)
  ultimately show ?thesis using assms(1) by (simp add: parse_qs_def)
qed

end
