(* ===== verification/Middleware.thy ===== *)
theory Middleware
  imports Guard Wire Responses
begin

text \<open>
  The HTTP adapter (\<open>ArmorMiddleware\<close> in \<open>mcp_armor/adapters/fastapi.py\<close>): what it checks before it
  reads a request, the resolution of the session, the guarded call of the wrapped application,
  the buffering and inspection of its answer, and the life-cycle events.  The wrapped application
  is a function of the active context, the scope and the body; it returns the ASGI messages it
  sent or raises, and may change the state of the guard (decorated tools run inside it).  Header
  names and values are their Latin-1 text.  A request is handled in one step: the interleaving of
  coroutines at the await points is not modelled.
\<close>

section \<open>Messages and state\<close>

record http_scope =
  sp_method :: string
  sp_path :: string
  sp_query :: string
  sp_headers :: "(string \<times> string) list"
  sp_client :: "string option"

datatype asgi_msg = RespStart nat "(string \<times> string) list" | RespBody bytes

text \<open>Library functions: the JSON grammar, UTF-8 with replacement, float text, \<open>str\<close>, the scan view.\<close>

record wire_lib =
  wl_parse :: "bytes \<Rightarrow> json option"
  wl_decode :: "bytes \<Rightarrow> string"
  wl_fr :: "pyfloat \<Rightarrow> string"
  wl_repr :: "json \<Rightarrow> string"
  wl_text :: text_lib
  wl_exc_data :: "exn \<Rightarrow> json option"   \<comment> \<open>the \<open>data\<close> attribute of an exception\<close>

record 'w middleware =
  mw_guard :: "'w guard"
  mw_max_body :: nat
  mw_max_response :: nat
  mw_cors :: "string list option"
  mw_handshake_enforced :: bool
  mw_response_scan :: bool
  mw_shows_unlisted :: bool   \<comment> \<open>what \<open>filter_tools_list\<close> answers for a name outside every policy\<close>

record 'w mw_state =
  ms_gs :: "'w gstate"
  ms_sessions :: "(string, ctx) dict"   \<comment> \<open>\<open>_active_sessions\<close>\<close>
  ms_active :: "ctx option"             \<comment> \<open>\<open>guard._active_ctx\<close>\<close>

type_synonym 'w app = "ctx \<Rightarrow> http_scope \<Rightarrow> bytes \<Rightarrow> 'w gstate \<Rightarrow> asgi_msg list result \<times> 'w gstate"

text \<open>
  The constructor reads three flags of the engines: whether the session engine enforces the
  handshake, and whether the boundary and the trust engine inspect responses.
\<close>

definition scans_response_content :: "('w engine \<Rightarrow> bool) \<Rightarrow> ('w engine \<Rightarrow> bool) \<Rightarrow> 'w engine \<Rightarrow> bool" where
  "scans_response_content scans strips e = (case en_kind e of
     PIIE \<Rightarrow> True | BoundaryE \<Rightarrow> scans e | TrustE \<Rightarrow> strips e | _ \<Rightarrow> False)"

definition new_middleware :: "('w engine \<Rightarrow> bool) \<Rightarrow> ('w engine \<Rightarrow> bool) \<Rightarrow> ('w engine \<Rightarrow> bool) \<Rightarrow> bool
    \<Rightarrow> 'w guard \<Rightarrow> nat \<Rightarrow> nat \<Rightarrow> string list option \<Rightarrow> 'w middleware" where
  "new_middleware requires scans strips unlisted gd max_body max_resp cors =
     \<lparr>mw_guard = gd, mw_max_body = max_body, mw_max_response = max_resp, mw_cors = cors,
      mw_handshake_enforced = list_ex (\<lambda>e. has_kind [SessionE] e \<and> requires e) (gd_engines gd),
      mw_response_scan = list_ex (scans_response_content scans strips) (gd_engines gd), mw_shows_unlisted = unlisted\<rparr>"

definition session_header :: string where "session_header = ''mcp-session-id''"

section \<open>Answers of the adapter itself\<close>

definition opaque_messages :: "(int, string) dict" where
  "opaque_messages = [(-32001, ''Authentication error''), (-32002, ''Authorization error''), (-32003, ''Injection detected''),
     (-32004, ''PII leak detected''), (-32005, ''Integrity error''), (-32006, ''Session error''),
     (-32007, ''Trust boundary violation''), (-32008, ''Network binding error''), (-32009, ''Audit chain error''),
     (-32010, ''Resource limit exceeded''), (-32011, ''Supply chain error''), (-32602, ''Validation error''),
     (-32020, ''Header mismatch''), (-32022, ''Unsupported protocol version''), (-32600, ''Invalid Request'')]"

definition opaque_message :: "string \<Rightarrow> int \<Rightarrow> string" where
  "opaque_message other code = (case dget opaque_messages code of None \<Rightarrow> other | Some m \<Rightarrow> m)"

definition json_reply :: "nat \<Rightarrow> (string \<times> string) list \<Rightarrow> bytes \<Rightarrow> asgi_msg list" where
  "json_reply status extra body =
     [RespStart status ([(''content-type'', ''application/json''), (''content-length'', show_nat (length body))] @ extra), RespBody body]"

definition error_object :: "json \<Rightarrow> int \<Rightarrow> string \<Rightarrow> json option \<Rightarrow> json" where
  "error_object rid code msg data = JObj [(''jsonrpc'', JStr ''2.0''), (''id'', rid),
     (''error'', JObj ([(''code'', JInt code), (''message'', JStr msg)] @ (case data of None \<Rightarrow> [] | Some d \<Rightarrow> [(''data'', d)])))]"

definition send_error :: "wire_lib \<Rightarrow> nat \<Rightarrow> json \<Rightarrow> int \<Rightarrow> string \<Rightarrow> json option \<Rightarrow> asgi_msg list" where
  "send_error lib status rid code msg data =
     json_reply status [] (utf8 (dumps_plain (wl_fr lib) (error_object rid code msg data)))"

text \<open>\<open>_send_rate_limited\<close>: \<open>json.dumps\<close> escapes the dash of its message.\<close>

definition rate_limited_body :: "wire_lib \<Rightarrow> json \<Rightarrow> string" where
  "rate_limited_body lib rid = ''{\"jsonrpc\": \"2.0\", \"id\": '' @ dumps_plain (wl_fr lib) rid
     @ '', \"error\": {\"code\": -32010, \"message\": \"Rate limit exceeded '' @ [CHR 92] @ ''u2014 retry after 60 seconds\"}}''"

definition send_rate_limited :: "wire_lib \<Rightarrow> json \<Rightarrow> asgi_msg list" where
  "send_rate_limited lib rid = json_reply 429 [(''retry-after'', ''60'')] (utf8 (rate_limited_body lib rid))"

definition internal_error :: "wire_lib \<Rightarrow> json \<Rightarrow> asgi_msg list" where
  "internal_error lib rid = send_error lib 200 rid (-32603) ''Internal error'' None"

fun refuse_request :: "wire_lib \<Rightarrow> json \<Rightarrow> exn \<Rightarrow> asgi_msg list" where
  "refuse_request lib rid (Cosai ResourceExceededError s) = send_rate_limited lib rid"
| "refuse_request lib rid (Cosai (RequestMetadataError code) s) =
     send_error lib 400 rid code (opaque_message ''Request rejected'' code)
       (if code = -32022 then wl_exc_data lib (Cosai (RequestMetadataError code) s) else None)"
| "refuse_request lib rid (Cosai c s) = send_error lib 200 rid (json_rpc_code c) (opaque_message ''Request rejected'' (json_rpc_code c)) None"
| "refuse_request lib rid (PyExc c s) = internal_error lib rid"

fun refuse_response :: "wire_lib \<Rightarrow> json \<Rightarrow> exn \<Rightarrow> asgi_msg list" where
  "refuse_response lib rid (Cosai c s) = send_error lib 200 rid (json_rpc_code c) (opaque_message ''Response rejected'' (json_rpc_code c)) None"
| "refuse_response lib rid (PyExc c s) = internal_error lib rid"

section \<open>Reading a request\<close>

text \<open>\<open>{k: v for k, v in headers}\<close>.\<close>

definition dict_of_pairs :: "('k \<times> 'v) list \<Rightarrow> ('k, 'v) dict" where
  "dict_of_pairs ps = foldl (\<lambda>d (k, v). AList.update k v d) [] ps"

definition header_or_empty :: "(string, string) dict \<Rightarrow> string \<Rightarrow> string" where
  "header_or_empty h k = (case dget h k of None \<Rightarrow> [] | Some v \<Rightarrow> v)"

text \<open>The receive loop: every message brings a chunk and whether more follow.\<close>

datatype body_read = Oversized | Body bytes | Waiting

fun read_body :: "nat \<Rightarrow> bytes \<Rightarrow> (bytes \<times> bool) list \<Rightarrow> body_read" where
  "read_body limit acc [] = Waiting"
| "read_body limit acc ((chunk, again) # msgs) =
     (if length acc + length chunk > limit then Oversized
      else if again then read_body limit (acc @ chunk) msgs else Body (acc @ chunk))"

definition media_type :: "string \<Rightarrow> string" where
  "media_type v = strip (hd (split_on (CHR '';'') v))"

definition too_large :: "'w middleware \<Rightarrow> string" where
  "too_large mw = ''Payload exceeds '' @ show_nat (mw_max_body mw) @ '' bytes''"

text \<open>The checks before anything is executed: the answer to send, or the body with its value.\<close>

definition read_request :: "wire_lib \<Rightarrow> 'w middleware \<Rightarrow> http_scope \<Rightarrow> (bytes \<times> bool) list
    \<Rightarrow> asgi_msg list + (bytes \<times> (string, json) dict)" where
  "read_request lib mw sc msgs =
     (let h = dict_of_pairs (sp_headers sc);
          origin = header_or_empty h ''origin'';
          encoding = lower (strip (header_or_empty h ''content-encoding''));
          refuse = (\<lambda>code msg. Inl (send_error lib 200 JNull code msg None))
      in if (case mw_cors mw of None \<Rightarrow> False | Some os \<Rightarrow> origin \<noteq> [] \<and> origin \<notin> set os)
         then refuse (-32600) ''Origin not in CORS allowlist (T7-001)''
         else if encoding \<noteq> [] \<and> encoding \<noteq> ''identity''
         then refuse (-32600) ''Content-Encoding is not supported''
         else case read_body (mw_max_body mw) [] msgs of
             Waiting \<Rightarrow> Inl []
           | Oversized \<Rightarrow> refuse (-32600) (too_large mw)
           | Body raw \<Rightarrow>
               (let ct = media_type (header_or_empty h ''content-type'')
                in if raw \<noteq> [] \<and> ct \<noteq> [] \<and> ct \<noteq> ''application/json''
                   then refuse (-32600) ''Content-Type must be application/json''
                   else case bindR (if raw = [] then Inr (JObj []) else strict_json_loads (wl_parse lib) raw)
                          (\<lambda>v. bindR (check_request_envelope_keys v) (\<lambda>_. Inr v)) of
                       Inl _ \<Rightarrow> refuse (-32700) ''Parse error: invalid JSON''
                     | Inr (JObj payload) \<Rightarrow> Inr (raw, payload)
                     | Inr _ \<Rightarrow> refuse (-32600) ''Invalid Request: expected a JSON object''))"

section \<open>The session\<close>

datatype session_kind = NewSession | OneRequest | Existing

definition method_of :: "(string, json) dict \<Rightarrow> json" where
  "method_of payload = (case dget payload ''method'' of None \<Rightarrow> JStr [] | Some m \<Rightarrow> m)"

definition resolve_session :: "string \<Rightarrow> 'w middleware \<Rightarrow> http_scope \<Rightarrow> (string, json) dict
    \<Rightarrow> (string \<times> session_kind) option" where
  "resolve_session uuid mw sc payload =
     (if method_of payload = JStr ''initialize'' then Some (mint_session_id uuid (mw_guard mw) ''http'', NewSession)
      else
        let sid = header_or_empty (dict_of_pairs (sp_headers sc)) session_header
        in if sid \<noteq> [] then Some (sid, Existing)
           else if gd_allow_stateless (mw_guard mw) \<and> carries_protocol_version payload
           then Some (mint_session_id uuid (mw_guard mw) ''http'', OneRequest)
           else None)"

definition initial_context :: "time \<Rightarrow> 'w middleware \<Rightarrow> string \<times> session_kind \<Rightarrow> 'w mw_state \<Rightarrow> ctx" where
  "initial_context now mw s st = (case s of
     (sid, NewSession) \<Rightarrow> new_context now sid ''http''
   | (sid, OneRequest) \<Rightarrow> (new_context now sid ''http'')\<lparr>stateless := True\<rparr>
   | (sid, Existing) \<Rightarrow> (case dget (ms_sessions st) sid of
        Some c \<Rightarrow> c
      | None \<Rightarrow> let c = new_context now sid ''http''
                in if mw_handshake_enforced mw then with_handshake_phase c PENDING else c))"

text \<open>\<open>set_context(ctx)\<close> and \<open>_active_ctx.set(ctx)\<close>.\<close>

definition set_active :: "ctx \<Rightarrow> 'w mw_state \<Rightarrow> 'w mw_state" where
  "set_active c st = st\<lparr>ms_gs := (ms_gs st)\<lparr>gs_context := Some c\<rparr>, ms_active := Some c\<rparr>"

definition persist :: "string \<Rightarrow> ctx \<Rightarrow> 'w mw_state \<Rightarrow> 'w mw_state" where
  "persist sid c st = (if dhas (ms_sessions st) sid then st\<lparr>ms_sessions := AList.update sid c (ms_sessions st)\<rparr> else st)"

section \<open>The guarded request\<close>

definition open_request :: "'w middleware \<Rightarrow> string \<times> session_kind \<Rightarrow> ctx \<Rightarrow> 'w mw_state \<Rightarrow> ctx result \<times> 'w mw_state" where
  "open_request mw s c st =
     (if snd s = Existing then (Inr c, st)
      else case open_session (mw_guard mw) c (ms_gs st) of
        (Inl x, g) \<Rightarrow> (Inl x, st\<lparr>ms_gs := g\<rparr>)
      | (Inr c1, g) \<Rightarrow>
          (let st1 = set_active c1 (st\<lparr>ms_gs := g\<rparr>)
           in (Inr c1, if snd s = NewSession then st1\<lparr>ms_sessions := AList.update (fst s) c1 (ms_sessions st1)\<rparr> else st1)))"

definition http_request :: "wire_lib \<Rightarrow> http_scope \<Rightarrow> string \<Rightarrow> (string, json) dict \<Rightarrow> mcp_request result" where
  "http_request lib sc sid payload = request_from_dict (wl_repr lib) payload sid (dict_of_pairs (sp_headers sc))
     (parse_qs (wl_decode lib) (sp_query sc)) ''http'' (sp_headers sc)"

text \<open>The verdict, the context the request ends with, and the state.\<close>

definition admit :: "wire_lib \<Rightarrow> 'w middleware \<Rightarrow> http_scope \<Rightarrow> (string, json) dict \<Rightarrow> string \<times> session_kind \<Rightarrow> ctx
    \<Rightarrow> 'w mw_state \<Rightarrow> ctx result \<times> ctx \<times> 'w mw_state" where
  "admit lib mw sc payload s c st = (case open_request mw s c st of
     (Inl x, st1) \<Rightarrow> (Inl x, c, st1)
   | (Inr c1, st1) \<Rightarrow> (case http_request lib sc (fst s) payload of
       Inl x \<Rightarrow> (Inl x, c1, st1)
     | Inr req \<Rightarrow> (case run_request (mw_guard mw) c1 req (ms_gs st1) of
         (Inl x, g) \<Rightarrow> (Inl x, c1, st1\<lparr>ms_gs := g\<rparr>)
       | (Inr c2, g) \<Rightarrow> (Inr c2, c2, persist (fst s) c2 (set_active c2 (st1\<lparr>ms_gs := g\<rparr>))))))"

section \<open>The answer of the application\<close>

text \<open>\<open>bytes.lower\<close>.\<close>

definition ascii_lower :: "string \<Rightarrow> string" where
  "ascii_lower s = map (\<lambda>c. if 65 \<le> ord_of c \<and> ord_of c \<le> 90 then char_of (ord_of c + 32) else c) s"

record buffer =
  bf_start :: "(nat \<times> (string \<times> string) list) option"
  bf_body :: bytes
  bf_count :: nat
  bf_oversized :: bool

text \<open>\<open>buffering_send\<close>: \<open>new_sid\<close> is the id issued for a new session.\<close>

definition buffering_send :: "nat \<Rightarrow> string option \<Rightarrow> buffer \<Rightarrow> asgi_msg \<Rightarrow> buffer" where
  "buffering_send limit new_sid b msg = (case msg of
     RespStart status hs \<Rightarrow> b\<lparr>bf_start := Some (status,
       filter (\<lambda>(k, v). ascii_lower k \<noteq> session_header) hs
       @ (case new_sid of None \<Rightarrow> [] | Some sid \<Rightarrow> [(session_header, sid)]))\<rparr>
   | RespBody chunk \<Rightarrow>
       if bf_oversized b then b
       else if bf_count b + length chunk > limit
       then b\<lparr>bf_count := bf_count b + length chunk, bf_oversized := True, bf_body := []\<rparr>
       else b\<lparr>bf_count := bf_count b + length chunk, bf_body := bf_body b @ chunk\<rparr>)"

definition empty_buffer :: buffer where
  "empty_buffer = \<lparr>bf_start = None, bf_body = [], bf_count = 0, bf_oversized = False\<rparr>"

definition buffered :: "nat \<Rightarrow> string option \<Rightarrow> asgi_msg list \<Rightarrow> buffer" where
  "buffered limit new_sid msgs = foldl (buffering_send limit new_sid) empty_buffer msgs"

text \<open>What the response engines see of the body; \<open>None\<close> is the closed failure.\<close>

definition read_response :: "wire_lib \<Rightarrow> 'w middleware \<Rightarrow> json \<Rightarrow> bytes \<Rightarrow> (string, json) dict option" where
  "read_response lib mw method raw =
     (let must = mw_response_scan mw \<or> method = JStr ''tools/list'';
          parsed = (case bindR (strict_json_loads (wl_parse lib) raw) (\<lambda>v. bindR (check_response_envelope_keys v) (\<lambda>_. Inr v)) of
              Inr v \<Rightarrow> Some v
            | Inl _ \<Rightarrow> if must then None
                       else (case json_loads (wl_parse lib) raw of Inr v \<Rightarrow> Some v | Inl _ \<Rightarrow> None))
      in if raw = [] then Some []
         else case parsed of
           Some (JObj d) \<Rightarrow> Some d
         | _ \<Rightarrow> if must then None else Some [])"

text \<open>
  The scope filter of a tool manifest.  Names go through \<open>filter_tools_list\<close>; a name that is not
  text is outside every policy, and a list or dictionary as a name is not hashable.
\<close>

definition tool_names :: "json list \<Rightarrow> json list" where
  "tool_names tools = map (\<lambda>t. case t of JObj d \<Rightarrow> (case dget d ''name'' of None \<Rightarrow> JStr [] | Some n \<Rightarrow> n) | _ \<Rightarrow> JNull)
     (filter is_obj tools)"

definition text_names :: "json list \<Rightarrow> string list" where
  "text_names names = concat (map (\<lambda>n. case n of JStr s \<Rightarrow> [s] | _ \<Rightarrow> []) names)"

definition allowed_names :: "'w middleware \<Rightarrow> ctx \<Rightarrow> json list \<Rightarrow> json list" where
  "allowed_names mw c names = map JStr (guard_filter_tools (mw_guard mw) (text_names names) c)
     @ (if mw_shows_unlisted mw then filter (\<lambda>n. \<not> is_str n) names else [])"

definition shown :: "json list \<Rightarrow> json \<Rightarrow> bool" where
  "shown allowed t = (case t of JObj d \<Rightarrow> list_ex (py_eq (get_or_null d ''name'')) allowed | _ \<Rightarrow> False)"

definition unhashable :: "json \<Rightarrow> bool" where
  "unhashable n = (case n of JArr _ \<Rightarrow> True | JObj _ \<Rightarrow> True | _ \<Rightarrow> False)"

definition filter_manifest :: "wire_lib \<Rightarrow> 'w middleware \<Rightarrow> ctx \<Rightarrow> (string, json) dict
    \<Rightarrow> bytes \<times> (nat \<times> (string \<times> string) list) option \<Rightarrow> (bytes \<times> (nat \<times> (string \<times> string) list) option) result" where
  "filter_manifest lib mw c d answer =
     (case dget d ''result'' of
        Some (JObj res) \<Rightarrow> (case dget res ''tools'' of
            Some (JArr tools) \<Rightarrow>
              (let names = tool_names tools; kept = filter (shown (allowed_names mw c names)) tools
               in if list_ex unhashable names then Inl (PyExc TypeError ''unhashable type'')
                  else if length kept = length tools then Inr answer
                  else
                    let body = utf8 (dumps_plain (wl_fr lib)
                          (JObj (AList.update ''result'' (JObj (AList.update ''tools'' (JArr kept) res)) d)))
                    in Inr (body, map_option (\<lambda>(status, hs). (status,
                         filter (\<lambda>(k, v). ascii_lower k \<noteq> ''content-length'') hs
                         @ [(''content-length'', show_nat (length body))])) (snd answer)))
          | _ \<Rightarrow> Inr answer)
      | _ \<Rightarrow> Inr answer)"

definition send_buffered :: "bytes \<times> (nat \<times> (string \<times> string) list) option \<Rightarrow> asgi_msg list" where
  "send_buffered answer = (case snd answer of None \<Rightarrow> [] | Some (status, hs) \<Rightarrow> [RespStart status hs]) @ [RespBody (fst answer)]"

definition respond :: "wire_lib \<Rightarrow> 'w middleware \<Rightarrow> string \<Rightarrow> json \<Rightarrow> json \<Rightarrow> ctx \<Rightarrow> buffer \<Rightarrow> 'w mw_state
    \<Rightarrow> asgi_msg list result \<times> ctx \<times> 'w mw_state" where
  "respond lib mw sid method rid c b st =
     (if bf_oversized b then (Inr (internal_error lib rid), c, st)
      else case read_response lib mw method (bf_body b) of
        None \<Rightarrow> (Inr (internal_error lib rid), c, st)
      | Some d \<Rightarrow> (case run_response (mw_guard mw) c (response_from_dict (wl_text lib) d) (ms_gs st) of
          (Inl x, g) \<Rightarrow> (Inr (refuse_response lib rid x), c, st\<lparr>ms_gs := g\<rparr>)
        | (Inr c1, g) \<Rightarrow>
            (let st1 = persist sid c1 (st\<lparr>ms_gs := g\<rparr>);
                 answer = (bf_body b, bf_start b)
             in case (if method = JStr ''tools/list'' \<and> d \<noteq> [] then filter_manifest lib mw c1 d answer else Inr answer) of
                  Inl x \<Rightarrow> (Inl x, c1, st1)
                | Inr answer \<Rightarrow> (Inr (send_buffered answer), c1, st1))))"

section \<open>One HTTP request\<close>

definition issued_id :: "string \<times> session_kind \<Rightarrow> string option" where
  "issued_id s = (if snd s = NewSession then Some (fst s) else None)"

definition exchange :: "wire_lib \<Rightarrow> 'w middleware \<Rightarrow> 'w app \<Rightarrow> http_scope \<Rightarrow> bytes \<Rightarrow> (string, json) dict
    \<Rightarrow> string \<times> session_kind \<Rightarrow> ctx \<Rightarrow> 'w mw_state \<Rightarrow> asgi_msg list result \<times> ctx \<times> 'w mw_state" where
  "exchange lib mw app sc raw payload s c0 st =
     (let rid = get_or_null payload ''id'' in
      case admit lib mw sc payload s c0 st of
        (Inl x, c, st1) \<Rightarrow> (Inr (refuse_request lib rid x), c, st1)
      | (Inr c, _, st1) \<Rightarrow> (case app c sc raw (ms_gs st1) of
          (Inl x, g) \<Rightarrow> (Inr (internal_error lib rid), c, st1\<lparr>ms_gs := g\<rparr>)
        | (Inr msgs, g) \<Rightarrow> respond lib mw (fst s) (method_of payload) rid c
            (buffered (mw_max_response mw) (issued_id s) msgs) (st1\<lparr>ms_gs := g\<rparr>)))"

text \<open>The \<open>finally\<close> block: a one-request session is closed, the active context restored.\<close>

definition finish :: "'w middleware \<Rightarrow> session_kind \<Rightarrow> ctx option \<Rightarrow> ctx \<Rightarrow> 'w mw_state \<Rightarrow> 'w mw_state" where
  "finish mw k saved c st =
     (let g = ms_gs st;
          g1 = (if k = OneRequest then g\<lparr>gs_world := snd (close_session (mw_guard mw) c (gs_world g))\<rparr> else g)
      in st\<lparr>ms_gs := g1, ms_active := saved\<rparr>)"

definition handle_http :: "wire_lib \<Rightarrow> time \<Rightarrow> string \<Rightarrow> 'w middleware \<Rightarrow> 'w app \<Rightarrow> http_scope \<Rightarrow> (bytes \<times> bool) list
    \<Rightarrow> 'w mw_state \<Rightarrow> asgi_msg list result \<times> 'w mw_state" where
  "handle_http lib now uuid mw app sc msgs st = (case read_request lib mw sc msgs of
     Inl out \<Rightarrow> (Inr out, st)
   | Inr (raw, payload) \<Rightarrow> (case resolve_session uuid mw sc payload of
       None \<Rightarrow> (Inr (send_error lib 200 (get_or_null payload ''id'') (-32600) ''Missing Mcp-Session-Id header'' None), st)
     | Some s \<Rightarrow>
         (let c0 = initial_context now mw s st in
          case exchange lib mw app sc raw payload s c0 (set_active c0 st) of
            (out, c, st1) \<Rightarrow> (out, finish mw (snd s) (ms_active st) c st1))))"

section \<open>Life cycle\<close>

datatype lifespan_out = StartupComplete | StartupFailed exn | ShutdownComplete

text \<open>The wrapped application starts first (\<open>app_failed\<close> is its failure), then the guard.\<close>

definition lifespan_startup :: "'w middleware \<Rightarrow> exn option \<Rightarrow> 'w mw_state \<Rightarrow> lifespan_out \<times> 'w mw_state" where
  "lifespan_startup mw app_failed st = (case app_failed of
     Some x \<Rightarrow> (StartupFailed x, st)
   | None \<Rightarrow> (case guard_startup (mw_guard mw) (gs_world (ms_gs st)) of
       (Inl x, w) \<Rightarrow> (StartupFailed x, st\<lparr>ms_gs := (ms_gs st)\<lparr>gs_world := w\<rparr>\<rparr>)
     | (Inr _, w) \<Rightarrow> (StartupComplete, st\<lparr>ms_gs := (ms_gs st)\<lparr>gs_world := w\<rparr>\<rparr>)))"

text \<open>Every tracked session is closed, whatever the others raise; a failing \<open>shutdown\<close> propagates.\<close>

definition drain_sessions :: "'w middleware \<Rightarrow> (string, ctx) dict \<Rightarrow> 'w \<Rightarrow> 'w" where
  "drain_sessions mw ss w = foldl (\<lambda>w (sid, c). snd (close_session (mw_guard mw) c w)) w ss"

definition lifespan_shutdown :: "'w middleware \<Rightarrow> 'w mw_state \<Rightarrow> lifespan_out result \<times> 'w mw_state" where
  "lifespan_shutdown mw st =
     (case guard_shutdown (mw_guard mw) (drain_sessions mw (ms_sessions st) (gs_world (ms_gs st))) of
        (r, w) \<Rightarrow> (bindR r (\<lambda>_. Inr ShutdownComplete),
          st\<lparr>ms_sessions := [], ms_gs := (ms_gs st)\<lparr>gs_world := w\<rparr>\<rparr>))"

text \<open>The eviction callback of the resource engine.\<close>

definition evict :: "string \<Rightarrow> 'w mw_state \<Rightarrow> 'w mw_state" where
  "evict sid st = st\<lparr>ms_sessions := AList.delete sid (ms_sessions st)\<rparr>"

section \<open>Buffers are bounded\<close>

lemma read_body_ok:
  "read_body limit acc msgs = Body b \<Longrightarrow> length b \<le> limit \<and> (\<exists>pre. prefix pre msgs \<and> b = acc @ concat (map fst pre))"
proof (induction limit acc msgs rule: read_body.induct)
  case (2 limit acc chunk again msgs)
  show ?case
  proof (cases again)
    case True
    with 2 obtain pre where "length b \<le> limit" "prefix pre msgs" "b = (acc @ chunk) @ concat (map fst pre)"
      by (auto split: if_splits)
    then show ?thesis by (intro conjI exI [of _ "(chunk, again) # pre"]) auto
  next
    case False
    with 2 show ?thesis by (intro conjI exI [of _ "[(chunk, again)]"]) (auto split: if_splits)
  qed
qed simp

definition buffer_ok :: "nat \<Rightarrow> string option \<Rightarrow> buffer \<Rightarrow> bool" where
  "buffer_ok limit new_sid b = (length (bf_body b) \<le> limit
     \<and> (\<not> bf_oversized b \<longrightarrow> bf_count b = length (bf_body b)) \<and> (bf_oversized b \<longrightarrow> bf_body b = [])
     \<and> (\<forall>status hs k v. bf_start b = Some (status, hs) \<and> (k, v) \<in> set hs \<and> ascii_lower k = session_header \<longrightarrow> new_sid = Some v))"

lemma ascii_lower_session [simp]: "ascii_lower session_header = session_header"
  by code_simp

lemma buffering_send_ok: "buffer_ok limit new_sid b \<Longrightarrow> buffer_ok limit new_sid (buffering_send limit new_sid b msg)"
  by (cases msg) (auto simp: buffer_ok_def buffering_send_def split: option.splits)

lemma buffered_ok: "buffer_ok limit new_sid (buffered limit new_sid msgs)"
proof -
  have "buffer_ok limit new_sid b \<Longrightarrow> buffer_ok limit new_sid (foldl (buffering_send limit new_sid) b msgs)" for b
    by (induction msgs arbitrary: b) (simp_all add: buffering_send_ok)
  moreover have "buffer_ok limit new_sid empty_buffer" by (simp add: buffer_ok_def empty_buffer_def)
  ultimately show ?thesis by (simp add: buffered_def)
qed

section \<open>What an accepted body is\<close>

lemma read_request_ok:
  assumes "read_request lib mw sc msgs = Inr (raw, payload)"
  shows "length raw \<le> mw_max_body mw" and "read_body (mw_max_body mw) [] msgs = Body raw"
    and "(if raw = [] then payload = [] else strict_json_loads (wl_parse lib) raw = Inr (JObj payload))"
    and "check_request_envelope_keys (JObj payload) = Inr ()"
proof -
  from assms show b: "read_body (mw_max_body mw) [] msgs = Body raw"
    and r: "(if raw = [] then payload = [] else strict_json_loads (wl_parse lib) raw = Inr (JObj payload))"
    and "check_request_envelope_keys (JObj payload) = Inr ()"
    by (auto simp: read_request_def Let_def bindR_eq_Inr split: if_splits option.splits body_read.splits sum.splits json.splits)
  from read_body_ok [OF b] show "length raw \<le> mw_max_body mw" by simp
qed

text \<open>The answers the adapter makes itself.\<close>

definition own_answer :: "wire_lib \<Rightarrow> asgi_msg list \<Rightarrow> bool" where
  "own_answer lib out = (out = [] \<or> (\<exists>status rid code msg data. out = send_error lib status rid code msg data)
     \<or> (\<exists>rid. out = send_rate_limited lib rid))"

lemma own_answers [simp]:
  "own_answer lib []" "own_answer lib (send_error lib status rid code msg data)"
  "own_answer lib (send_rate_limited lib rid)" "own_answer lib (internal_error lib rid)"
  unfolding own_answer_def internal_error_def by blast+

lemma own_refusals [simp]: "own_answer lib (refuse_request lib rid x)" "own_answer lib (refuse_response lib rid x)"
  by (cases "(lib, rid, x)" rule: refuse_request.cases; simp) (cases "(lib, rid, x)" rule: refuse_response.cases; simp)

lemma own_read: "read_request lib mw sc msgs = Inl out \<Longrightarrow> own_answer lib out"
  by (auto simp: read_request_def Let_def split: if_splits option.splits body_read.splits sum.splits json.splits)

lemma own_answer_header:
  "own_answer lib out \<Longrightarrow> RespStart status hs \<in> set out \<Longrightarrow> (k, v) \<in> set hs \<Longrightarrow> ascii_lower k \<noteq> session_header"
proof -
  have "ascii_lower ''content-type'' \<noteq> session_header" "ascii_lower ''content-length'' \<noteq> session_header"
    "ascii_lower ''retry-after'' \<noteq> session_header" by code_simp+
  then show "own_answer lib out \<Longrightarrow> RespStart status hs \<in> set out \<Longrightarrow> (k, v) \<in> set hs \<Longrightarrow> ascii_lower k \<noteq> session_header"
    by (auto simp: own_answer_def send_error_def send_rate_limited_def json_reply_def)
qed

section \<open>The cases of a request\<close>

lemma filter_manifest_start:
  assumes "filter_manifest lib mw c d (body, start) = Inr (body', start')"
  shows "(body', start') = (body, start) \<or> start' = map_option (\<lambda>(status, hs). (status,
      filter (\<lambda>(k, v). ascii_lower k \<noteq> ''content-length'') hs @ [(''content-length'', show_nat (length body'))])) start"
  using assms by (auto simp: filter_manifest_def Let_def split: option.splits json.splits if_splits)

lemma filter_manifest_header:
  assumes "filter_manifest lib mw c d (body, start) = Inr (body', Some (status, hs))" and "(k, v) \<in> set hs"
    and "ascii_lower k = session_header"
  shows "\<exists>hs0. start = Some (status, hs0) \<and> (k, v) \<in> set hs0"
proof -
  have "ascii_lower ''content-length'' \<noteq> session_header" by code_simp
  then show ?thesis using filter_manifest_start [OF assms(1)] assms(2,3) by (cases start) auto
qed

lemma respond_cases:
  obtains (closed) "respond lib mw sid method rid c b st = (Inr (internal_error lib rid), c, st)"
      "bf_oversized b \<or> read_response lib mw method (bf_body b) = None"
    | (refused) d x g where "\<not> bf_oversized b" "read_response lib mw method (bf_body b) = Some d"
      "run_response (mw_guard mw) c (response_from_dict (wl_text lib) d) (ms_gs st) = (Inl x, g)"
      "respond lib mw sid method rid c b st = (Inr (refuse_response lib rid x), c, st\<lparr>ms_gs := g\<rparr>)"
    | (passed) d c1 g answer where "\<not> bf_oversized b" "read_response lib mw method (bf_body b) = Some d"
      "run_response (mw_guard mw) c (response_from_dict (wl_text lib) d) (ms_gs st) = (Inr c1, g)"
      "(if method = JStr ''tools/list'' \<and> d \<noteq> [] then filter_manifest lib mw c1 d (bf_body b, bf_start b)
        else Inr (bf_body b, bf_start b)) = answer"
      "respond lib mw sid method rid c b st = (bindR answer (\<lambda>a. Inr (send_buffered a)), c1, persist sid c1 (st\<lparr>ms_gs := g\<rparr>))"
proof (cases "bf_oversized b")
  case True
  then show ?thesis by (intro closed) (simp_all add: respond_def)
next
  case f: False
  show ?thesis
  proof (cases "read_response lib mw method (bf_body b)")
    case None
    then show ?thesis using f by (intro closed) (simp_all add: respond_def)
  next
    case (Some d)
    obtain r g where h: "run_response (mw_guard mw) c (response_from_dict (wl_text lib) d) (ms_gs st) = (r, g)"
      by (cases "run_response (mw_guard mw) c (response_from_dict (wl_text lib) d) (ms_gs st)")
    show ?thesis
    proof (cases r)
      case (Inl x)
      then show ?thesis using f Some h by (intro refused) (simp_all add: respond_def)
    next
      case (Inr c1)
      show ?thesis
      proof (rule passed [OF f Some h [unfolded Inr] refl])
        show "respond lib mw sid method rid c b st
            = (bindR (if method = JStr ''tools/list'' \<and> d \<noteq> [] then filter_manifest lib mw c1 d (bf_body b, bf_start b)
                 else Inr (bf_body b, bf_start b)) (\<lambda>a. Inr (send_buffered a)), c1, persist sid c1 (st\<lparr>ms_gs := g\<rparr>))"
          using f Some h Inr by (auto simp: respond_def Let_def split: sum.splits)
      qed
    qed
  qed
qed

lemma exchange_cases:
  obtains (refused) x c st1 where "admit lib mw sc payload s c0 st = (Inl x, c, st1)"
      "exchange lib mw app sc raw payload s c0 st = (Inr (refuse_request lib (get_or_null payload ''id'') x), c, st1)"
    | (failed) c c' st1 x g where "admit lib mw sc payload s c0 st = (Inr c, c', st1)" "app c sc raw (ms_gs st1) = (Inl x, g)"
      "exchange lib mw app sc raw payload s c0 st = (Inr (internal_error lib (get_or_null payload ''id'')), c, st1\<lparr>ms_gs := g\<rparr>)"
    | (answered) c c' st1 msgs g where "admit lib mw sc payload s c0 st = (Inr c, c', st1)" "app c sc raw (ms_gs st1) = (Inr msgs, g)"
      "exchange lib mw app sc raw payload s c0 st = respond lib mw (fst s) (method_of payload) (get_or_null payload ''id'') c
         (buffered (mw_max_response mw) (issued_id s) msgs) (st1\<lparr>ms_gs := g\<rparr>)"
proof -
  obtain v c' st1 where a: "admit lib mw sc payload s c0 st = (v, c', st1)" by (cases "admit lib mw sc payload s c0 st")
  show ?thesis
  proof (cases v)
    case (Inl x)
    then show ?thesis using a by (intro refused) (simp_all add: exchange_def)
  next
    case (Inr c)
    obtain r g where b: "app c sc raw (ms_gs st1) = (r, g)" by (cases "app c sc raw (ms_gs st1)")
    show ?thesis
    proof (cases r)
      case (Inl x)
      then show ?thesis using a b Inr by (intro failed) (simp_all add: exchange_def)
    next
      case (Inr msgs)
      then show ?thesis using a b \<open>v = Inr c\<close> by (intro answered) (simp_all add: exchange_def)
    qed
  qed
qed

lemma handle_http_cases:
  obtains (unread) out where "read_request lib mw sc msgs = Inl out" "handle_http lib now uuid mw app sc msgs st = (Inr out, st)"
    | (no_session) raw payload where "read_request lib mw sc msgs = Inr (raw, payload)" "resolve_session uuid mw sc payload = None"
      "handle_http lib now uuid mw app sc msgs st
         = (Inr (send_error lib 200 (get_or_null payload ''id'') (-32600) ''Missing Mcp-Session-Id header'' None), st)"
    | (served) raw payload s out c st1 where "read_request lib mw sc msgs = Inr (raw, payload)" "resolve_session uuid mw sc payload = Some s"
      "exchange lib mw app sc raw payload s (initial_context now mw s st) (set_active (initial_context now mw s st) st) = (out, c, st1)"
      "handle_http lib now uuid mw app sc msgs st = (out, finish mw (snd s) (ms_active st) c st1)"
proof (cases "read_request lib mw sc msgs")
  case (Inl out)
  then show ?thesis by (intro unread) (simp_all add: handle_http_def)
next
  case (Inr a)
  obtain raw payload where a: "a = (raw, payload)" by (cases a)
  show ?thesis
  proof (cases "resolve_session uuid mw sc payload")
    case None
    then show ?thesis using Inr a by (intro no_session) (simp_all add: handle_http_def)
  next
    case (Some s)
    obtain out c st1 where "exchange lib mw app sc raw payload s (initial_context now mw s st)
        (set_active (initial_context now mw s st) st) = (out, c, st1)" using prod_cases3 by blast
    then show ?thesis using Inr a Some by (intro served) (simp_all add: handle_http_def Let_def)
  qed
qed

section \<open>Mediation\<close>

text \<open>Two applications can be told apart only on an admitted request.\<close>

lemma admit_ran:
  "admit lib mw sc payload s c0 st = (Inr c, c', st1) \<Longrightarrow>
     \<exists>req c1 g g'. http_request lib sc (fst s) payload = Inr req \<and> run_request (mw_guard mw) c1 req g = (Inr c, g')"
  by (auto simp: admit_def split: prod.splits sum.splits)

lemma applications_distinguished:
  "handle_http lib now uuid mw app sc msgs st = handle_http lib now uuid mw app' sc msgs st
   \<or> (\<exists>raw payload s c c' st1. read_request lib mw sc msgs = Inr (raw, payload) \<and> length raw \<le> mw_max_body mw
        \<and> (raw = [] \<or> strict_json_loads (wl_parse lib) raw = Inr (JObj payload))
        \<and> check_request_envelope_keys (JObj payload) = Inr ()
        \<and> resolve_session uuid mw sc payload = Some s
        \<and> admit lib mw sc payload s (initial_context now mw s st) (set_active (initial_context now mw s st) st) = (Inr c, c', st1)
        \<and> app c sc raw (ms_gs st1) \<noteq> app' c sc raw (ms_gs st1))"
proof (cases rule: handle_http_cases [of lib mw sc msgs now uuid app st])
  case (served raw payload s out c st1)
  note ok = read_request_ok [OF served(1)]
  let ?c0 = "initial_context now mw s st"
  obtain v c' st2 where a: "admit lib mw sc payload s ?c0 (set_active ?c0 st) = (v, c', st2)" using prod_cases3 by blast
  show ?thesis
  proof (cases "\<exists>d. v = Inr d \<and> app d sc raw (ms_gs st2) \<noteq> app' d sc raw (ms_gs st2)")
    case True
    with a ok(1,3,4) served(1,2) show ?thesis by (metis (full_types))
  next
    case False
    with a have "exchange lib mw app sc raw payload s ?c0 (set_active ?c0 st) = exchange lib mw app' sc raw payload s ?c0 (set_active ?c0 st)"
      by (cases v) (auto simp: exchange_def)
    with served(1,2) show ?thesis by (simp add: handle_http_def Let_def)
  qed
qed (simp_all add: handle_http_def)

text \<open>
  C3: The wrapped application runs only on a request the guard admitted, and then on the body
  the guard read: if exchanging the application for another one changes anything at all - an
  answer, or any part of the state - then the request passed the adapter's own checks, its body
  is the strict reading of bytes within the size limit and carries no field name a
  case-insensitive parser would take for another, the guard's request chain admitted the request
  built from that reading, and the two applications differ on exactly those bytes.
\<close>

theorem only_admitted_requests_execute:
  "handle_http lib now uuid mw app sc msgs st = handle_http lib now uuid mw app' sc msgs st
   \<or> (\<exists>raw payload s c c' st1. read_request lib mw sc msgs = Inr (raw, payload) \<and> length raw \<le> mw_max_body mw
        \<and> (raw = [] \<or> strict_json_loads (wl_parse lib) raw = Inr (JObj payload))
        \<and> check_request_envelope_keys (JObj payload) = Inr ()
        \<and> resolve_session uuid mw sc payload = Some s
        \<and> admit lib mw sc payload s (initial_context now mw s st) (set_active (initial_context now mw s st) st) = (Inr c, c', st1)
        \<and> (\<exists>req c1 g g'. http_request lib sc (fst s) payload = Inr req \<and> run_request (mw_guard mw) c1 req g = (Inr c, g'))
        \<and> app c sc raw (ms_gs st1) \<noteq> app' c sc raw (ms_gs st1))"
  using applications_distinguished [of lib now uuid mw app sc msgs st app'] admit_ran [of lib mw sc] by metis


text \<open>
  C27: The adapter owns the session namespace: a session id in the headers of any answer is the id
  this adapter minted for this very \<open>initialize\<close> request, whatever session ids, in whatever
  spelling, the application put into its headers.
\<close>

theorem session_id_is_never_upstreams:
  assumes "handle_http lib now uuid mw app sc msgs st = (Inr out, st')" and "RespStart status hs \<in> set out"
    and "(k, v) \<in> set hs" and "ascii_lower k = session_header"
  shows "v = mint_session_id uuid (mw_guard mw) ''http''
    \<and> (\<exists>raw payload. read_request lib mw sc msgs = Inr (raw, payload) \<and> method_of payload = JStr ''initialize'')"
proof -
  have no: "\<not> own_answer lib out" using own_answer_header assms(2-4) by blast
  from assms(1) show ?thesis
  proof (cases rule: handle_http_cases [of lib mw sc msgs now uuid app st])
    case (unread out')
    with assms(1) own_read [OF unread(1)] no show ?thesis by auto
  next
    case (no_session raw payload)
    with assms(1) no show ?thesis by auto
  next
    case (served raw payload s out' c st1)
    with assms(1) have o: "out' = Inr out" by simp
    let ?c0 = "initial_context now mw s st"
    have "issued_id s = Some v"
    proof (cases rule: exchange_cases [of lib mw sc payload s ?c0 "set_active ?c0 st" app raw])
      case (answered d d' st2 sent g)
      let ?b = "buffered (mw_max_response mw) (issued_id s) sent"
      show ?thesis
      proof (cases rule: respond_cases [of lib mw "fst s" "method_of payload" "get_or_null payload ''id''" d ?b "st2\<lparr>ms_gs := g\<rparr>"])
        case (passed e c1 g1 answer)
        have "bindR answer (\<lambda>a. Inr (send_buffered a)) = Inr out" using passed(5) answered(3) served(3) o by simp
        then obtain body start where a: "answer = Inr (body, start)" "out = send_buffered (body, start)"
          by (auto simp: bindR_eq_Inr)
        then have st: "start = Some (status, hs)" using assms(2) by (auto simp: send_buffered_def split: option.splits)
        have "\<exists>hs0. bf_start ?b = Some (status, hs0) \<and> (k, v) \<in> set hs0"
        proof (cases "method_of payload = JStr ''tools/list'' \<and> e \<noteq> []")
          case True
          with passed(4) a(1) st have "filter_manifest lib mw c1 e (bf_body ?b, bf_start ?b) = Inr (body, Some (status, hs))" by simp
          then show ?thesis using assms(3,4) by (rule filter_manifest_header)
        qed (use passed(4) a(1) st assms(3) in auto)
        then obtain hs0 where "bf_start ?b = Some (status, hs0)" "(k, v) \<in> set hs0" by blast
        with buffered_ok [of "mw_max_response mw" "issued_id s" sent] assms(4) show ?thesis unfolding buffer_ok_def by blast
      qed (use answered(3) served(3) o no in auto)
    qed (use served(3) o no in auto)
    then have "snd s = NewSession" "fst s = v" by (simp_all add: issued_id_def split: if_splits)
    with served(1,2) show ?thesis by (auto simp: resolve_session_def Let_def split: if_splits)
  qed
qed

section \<open>The manifest a caller sees\<close>

lemma shown_subset: "list_all (shown allowed) (filter (shown allowed) ts)"
  by (simp add: list_all_iff)


section \<open>Errors are opaque\<close>

text \<open>
  C40: What a refused caller learns is the class of the refusal: two CoSAI exceptions of one class
  give the same answer to a request and to a response wherever they were raised and whatever
  their message said, a class always has a fixed message of the table, and every exception that
  is none of the CoSAI classes is the same internal error.  The one thing beyond the class is the
  list of supported versions of an unsupported-version refusal.
\<close>

theorem refusals_are_opaque:
  "(cls = RequestMetadataError (-32022) \<or> refuse_request lib rid (Cosai cls s1) = refuse_request lib rid (Cosai cls s2))
   \<and> refuse_response lib rid (Cosai cls s1) = refuse_response lib rid (Cosai cls s2)
   \<and> refuse_request lib rid (PyExc p s1) = internal_error lib rid \<and> refuse_response lib rid (PyExc p s1) = internal_error lib rid
   \<and> ((\<exists>code. cls = RequestMetadataError code) \<or> dhas opaque_messages (json_rpc_code cls))"
  by (cases cls) (auto simp: opaque_messages_def)

section \<open>Sessions\<close>

text \<open>The active context never leaks into what the task does next.\<close>

lemma active_restored: "ms_active (snd (handle_http lib now uuid mw app sc msgs st)) = ms_active st"
  by (cases rule: handle_http_cases [of lib mw sc msgs now uuid app st]) (auto simp: finish_def Let_def)

lemma set_active_sessions [simp]: "ms_sessions (set_active c st) = ms_sessions st"
  by (simp add: set_active_def)

lemma finish_sessions [simp]: "ms_sessions (finish mw k saved c st) = ms_sessions st"
  by (simp add: finish_def Let_def)

text \<open>What the adapter keeps: one context per id, of that session and this transport.\<close>

definition of_session :: "string \<Rightarrow> ctx \<Rightarrow> bool" where
  "of_session sid c = (session_id c = sid \<and> transport c = ''http'' \<and> \<not> stateless c)"

definition sessions_sound :: "'w mw_state \<Rightarrow> bool" where
  "sessions_sound st = (wf_dict (ms_sessions st) \<and> (\<forall>(sid, c) \<in> set (ms_sessions st). of_session sid c))"

lemma sound_update [inv_rules]:
  "sessions_sound st \<Longrightarrow> of_session sid c \<Longrightarrow> sessions_sound (st'\<lparr>ms_sessions := AList.update sid c (ms_sessions st)\<rparr>)"
  using set_update_subset [of sid c "ms_sessions st"] by (auto simp: sessions_sound_def)

lemma sound_persist [inv_rules]: "sessions_sound st \<Longrightarrow> of_session sid c \<Longrightarrow> sessions_sound (persist sid c st)"
  by (simp add: persist_def sound_update)

lemma sound_gs [simp]: "sessions_sound (st\<lparr>ms_gs := g\<rparr>) = sessions_sound st" "sessions_sound (set_active c st) = sessions_sound st"
  "sessions_sound (finish mw k saved c st) = sessions_sound st"
  by (simp_all add: sessions_sound_def)

lemma sound_evict [inv_rules]: "sessions_sound st \<Longrightarrow> sessions_sound (evict sid st)"
  by (auto simp: sessions_sound_def evict_def AList.delete_eq)

lemma of_session_same: "of_session sid c \<Longrightarrow> same_session c c' \<Longrightarrow> of_session sid c'"
  by (simp add: of_session_def same_session_def)

text \<open>Engines whose every hook keeps the frame.\<close>

locale armored = guarded es for es :: "'w engine list" +
  assumes responses: "e \<in> set es \<Longrightarrow> response_hook (en_response e)"
    and starts: "e \<in> set es \<Longrightarrow> en_session_start e c w = (Inr c', w') \<Longrightarrow> same_session c c'"
begin

lemma open_frame: "set fs \<subseteq> set es \<Longrightarrow> open_chain fs c g = (Inr c', g') \<Longrightarrow> same_session c c'"
proof (induction fs arbitrary: c g)
  case (Cons e fs)
  from Cons.prems obtain c1 w where "en_session_start e c (gs_world g) = (Inr c1, w)"
    "open_chain fs c1 (g\<lparr>gs_world := w, gs_context := Some c1\<rparr>) = (Inr c', g')" by (auto split: prod.splits sum.splits)
  with Cons starts [of e c "gs_world g" c1 w] show ?case by (auto intro: same_session_trans)
qed simp

lemma response_frame:
  "set fs \<subseteq> set es \<Longrightarrow> response_chain dry fs v c resp g = (Inr (c', v'), g') \<Longrightarrow> same_session c c'"
proof (induction fs arbitrary: c g v)
  case (Cons e fs)
  obtain r w where h: "en_response e c resp (gs_world g) = (r, w)" by (cases "en_response e c resp (gs_world g)")
  show ?case
  proof (cases r)
    case (Inl x)
    with Cons h show ?thesis by (auto split: if_splits)
  next
    case (Inr c1)
    have "same_session c c1" using response_hook.frame [OF responses h [unfolded Inr]] Cons.prems(1) by simp
    moreover have "same_session c1 c'" using Cons h Inr by auto
    ultimately show ?thesis by (rule same_session_trans)
  qed
qed simp

lemma run_response_frame:
  assumes "gd_engines gd = es" and "run_response gd c resp g = (Inr c', g')"
  shows "same_session c c'"
proof -
  from assms(2) obtain v g1 where "response_chain (gd_dry_run gd) (rev (gd_engines gd)) False c resp g = (Inr (c', v), g1)"
    by (auto simp: run_response_def run_response_chain_def split: prod.splits sum.splits if_splits)
  from response_frame [OF _ this] assms(1) show ?thesis by simp
qed

lemma initial_of_session:
  assumes "sessions_sound st" and "snd s \<noteq> OneRequest"
  shows "of_session (fst s) (initial_context now mw s st)"
proof (cases "snd s")
  case Existing
  show ?thesis
  proof (cases "dget (ms_sessions st) (fst s)")
    case None
    with Existing show ?thesis
      by (cases s) (simp add: initial_context_def of_session_def new_context_def with_handshake_phase_def Let_def)
  next
    case (Some c)
    then have "(fst s, c) \<in> set (ms_sessions st)" by (rule map_of_SomeD)
    with assms(1) have "of_session (fst s) c" by (auto simp: sessions_sound_def)
    with Existing Some show ?thesis by (cases s) (simp add: initial_context_def)
  qed
qed (use assms in \<open>cases s, simp_all add: initial_context_def of_session_def new_context_def\<close>)

lemma admit_frame:
  assumes "gd_engines (mw_guard mw) = es" and "admit lib mw sc payload s c0 st = (v, c', st')" and "sessions_sound st"
    and "snd s \<noteq> OneRequest \<longrightarrow> of_session (fst s) c0" and "snd s = OneRequest \<longrightarrow> \<not> dhas (ms_sessions st) (fst s)"
  shows "sessions_sound st' \<and> (\<forall>c. v = Inr c \<longrightarrow> c' = c \<and> same_session c0 c)
    \<and> (snd s = OneRequest \<longrightarrow> ms_sessions st' = ms_sessions st)"
proof -
  obtain r st1 where o: "open_request mw s c0 st = (r, st1)" by (cases "open_request mw s c0 st")
  have "(\<forall>c1. r = Inr c1 \<longrightarrow> same_session c0 c1) \<and> sessions_sound st1 \<and> (snd s = OneRequest \<longrightarrow> ms_sessions st1 = ms_sessions st)"
  proof (cases "snd s = Existing")
    case True
    with o assms(3) show ?thesis by (auto simp: open_request_def)
  next
    case False
    obtain r0 g where h: "open_session (mw_guard mw) c0 (ms_gs st) = (r0, g)" by (cases "open_session (mw_guard mw) c0 (ms_gs st)")
    show ?thesis
    proof (cases r0)
      case (Inl x)
      with o h False assms(3) show ?thesis by (auto simp: open_request_def)
    next
      case (Inr c1)
      then have f: "same_session c0 c1" using open_frame [of es c0 "ms_gs st" c1 g] h assms(1) by (simp add: open_session_def)
      then have "snd s = NewSession \<Longrightarrow> of_session (fst s) c1" using assms(4) of_session_same by simp
      then have "snd s = NewSession \<Longrightarrow> sessions_sound ((set_active c1 (st\<lparr>ms_gs := g\<rparr>))\<lparr>ms_sessions := AList.update (fst s) c1 (ms_sessions st)\<rparr>)"
        using sound_update [OF assms(3)] by blast
      with f o h Inr False assms(3) show ?thesis by (auto simp: open_request_def Let_def)
    qed
  qed
  note r = this
  show ?thesis
  proof (cases r)
    case (Inl x)
    with assms(2) o r show ?thesis by (auto simp: admit_def)
  next
    case c1: (Inr c1)
    show ?thesis
    proof (cases "http_request lib sc (fst s) payload")
      case (Inl x)
      with assms(2) o r c1 show ?thesis by (auto simp: admit_def)
    next
      case req: (Inr req)
      obtain r2 g where h: "run_request (mw_guard mw) c1 req (ms_gs st1) = (r2, g)" by (cases "run_request (mw_guard mw) c1 req (ms_gs st1)")
      show ?thesis
      proof (cases r2)
        case (Inl x)
        with assms(2) o r c1 req h show ?thesis by (auto simp: admit_def)
      next
        case (Inr c2)
        then have "same_session c1 c2" using h assms(1) chain_frame [of "gd_dry_run (mw_guard mw)" es] by (auto simp: run_request_def)
        with r c1 have f: "same_session c0 c2" by (auto intro: same_session_trans)
        have "snd s \<noteq> OneRequest \<longrightarrow> of_session (fst s) c2" using f assms(4) of_session_same by blast
        then have "sessions_sound (persist (fst s) c2 (set_active c2 (st1\<lparr>ms_gs := g\<rparr>)))
            \<and> (snd s = OneRequest \<longrightarrow> ms_sessions (persist (fst s) c2 (set_active c2 (st1\<lparr>ms_gs := g\<rparr>))) = ms_sessions st)"
        proof (cases "snd s = OneRequest")
          case True
          with r assms(5) show ?thesis by (simp add: persist_def)
        next
          case False
          with r \<open>snd s \<noteq> OneRequest \<longrightarrow> of_session (fst s) c2\<close> show ?thesis by (simp add: sound_persist)
        qed
        with assms(2) o c1 req h Inr f show ?thesis by (auto simp: admit_def)
      qed
    qed
  qed
qed

text \<open>The sessions stay sound, and a one-request session leaves no trace among them.\<close>

lemma exchange_frame:
  assumes "gd_engines (mw_guard mw) = es" and "exchange lib mw app sc raw payload s c0 st = (out, c, st')" and "sessions_sound st"
    and "snd s \<noteq> OneRequest \<longrightarrow> of_session (fst s) c0" and "snd s = OneRequest \<longrightarrow> \<not> dhas (ms_sessions st) (fst s)"
  shows "sessions_sound st' \<and> (snd s = OneRequest \<longrightarrow> ms_sessions st' = ms_sessions st)"
proof (cases rule: exchange_cases [of lib mw sc payload s c0 st app raw])
  case (refused x c1 st1)
  with admit_frame [OF assms(1) refused(1) assms(3-5)] assms(2) show ?thesis by auto
next
  case (failed c1 c' st1 x g)
  with admit_frame [OF assms(1) failed(1) assms(3-5)] assms(2) show ?thesis by auto
next
  case (answered c1 c' st1 msgs g)
  note a = admit_frame [OF assms(1) answered(1) assms(3-5)]
  let ?b = "buffered (mw_max_response mw) (issued_id s) msgs"
  show ?thesis
  proof (cases rule: respond_cases [of lib mw "fst s" "method_of payload" "get_or_null payload ''id''" c1 ?b "st1\<lparr>ms_gs := g\<rparr>"])
    case (passed d c2 g1 answer)
    have "same_session c0 c2" using a run_response_frame [OF assms(1) passed(3)] by (auto intro: same_session_trans)
    then have "snd s \<noteq> OneRequest \<longrightarrow> of_session (fst s) c2" using assms(4) of_session_same by blast
    moreover have "ms_sessions st' = ms_sessions (persist (fst s) c2 (st1\<lparr>ms_gs := g1\<rparr>))" using passed(5) answered(3) assms(2) by simp
    ultimately show ?thesis
      using a assms(5) sound_persist [of "st1\<lparr>ms_gs := g1\<rparr>" "fst s" c2]
      by (cases "snd s = OneRequest") (auto simp: persist_def sessions_sound_def)
  qed (use a answered(3) assms(2) in auto)
qed

end

section \<open>Runs\<close>

text \<open>
  What happens to one adapter instance: requests, each with its clock reading and its fresh random
  identifiers, evictions by the resource engine, and shutdown.
\<close>

inductive serving :: "wire_lib \<Rightarrow> ('w middleware \<Rightarrow> bool) \<Rightarrow> 'w mw_state \<Rightarrow> 'w mw_state \<Rightarrow> bool"
  for lib :: wire_lib and instance_of :: "'w middleware \<Rightarrow> bool" and st0 :: "'w mw_state" where
  started: "serving lib instance_of st0 st0"
| request: "serving lib instance_of st0 (snd (handle_http lib now uuid mw app sc msgs st))"
  if "serving lib instance_of st0 st" and "instance_of mw"
    and "\<not> dhas (ms_sessions st) (mint_session_id uuid (mw_guard mw) ''http'')"
| evicted: "serving lib instance_of st0 (evict sid st)" if "serving lib instance_of st0 st"
| stopped: "serving lib instance_of st0 (snd (lifespan_shutdown mw st))" if "serving lib instance_of st0 st"

lemma shutdown_sessions [simp]: "ms_sessions (snd (lifespan_shutdown mw st)) = []"
  by (simp add: lifespan_shutdown_def split: prod.splits)

lemma resolved:
  assumes "resolve_session uuid mw sc payload = Some s" and "snd s \<noteq> Existing"
  shows "fst s = mint_session_id uuid (mw_guard mw) ''http''"
  using assms by (auto simp: resolve_session_def Let_def split: if_splits)

lemma handle_http_sound:
  assumes "armored (gd_engines (mw_guard mw))" and "sessions_sound st"
    and "\<not> dhas (ms_sessions st) (mint_session_id uuid (mw_guard mw) ''http'')"
  shows "sessions_sound (snd (handle_http lib now uuid mw app sc msgs st))"
proof (cases rule: handle_http_cases [of lib mw sc msgs now uuid app st])
  case (served raw payload s out c st1)
  let ?c0 = "initial_context now mw s st"
  have "snd s \<noteq> OneRequest \<longrightarrow> of_session (fst s) ?c0"
    using armored.initial_of_session [OF assms(1,2)] by blast
  moreover have "snd s = OneRequest \<longrightarrow> \<not> dhas (ms_sessions st) (fst s)"
    using resolved [OF served(2)] assms(3) by auto
  ultimately have "sessions_sound st1"
    using armored.exchange_frame [OF assms(1) refl served(3)] assms(2) by simp
  with served(4) show ?thesis by simp
qed (use assms(2) in simp_all)

text \<open>
  C10: In every reachable state of the adapter each context it keeps is the one of the session it
  is filed under, on this transport, and none belongs to a stateless request: whatever the
  clients, the application and the engines did, one session's budget, identity, manifest hash or
  handshake phase is never carried into a request of another session.
\<close>

theorem kept_contexts_are_of_their_session:
  assumes "serving lib instance_of st0 st" and "ms_sessions st0 = []"
    and "\<And>mw. instance_of mw \<Longrightarrow> armored (gd_engines (mw_guard mw))"
    and "dget (ms_sessions st) sid = Some c"
  shows "session_id c = sid \<and> transport c = ''http'' \<and> \<not> stateless c"
proof -
  have "sessions_sound st"
    using assms(1)
  proof (induction rule: serving.induct)
    case started
    show ?case using assms(2) by (simp add: sessions_sound_def)
  next
    case (request st mw uuid now app sc msgs)
    then show ?case using handle_http_sound [OF assms(3)] by blast
  next
    case (evicted st sid)
    then show ?case by (simp add: sound_evict)
  next
    case (stopped st mw)
    show ?case by (simp add: sessions_sound_def)
  qed
  with map_of_SomeD [OF assms(4)] show ?thesis by (auto simp: sessions_sound_def of_session_def)
qed

section \<open>A concrete adapter\<close>

definition demo_wire :: wire_lib where
  "demo_wire = \<lparr>wl_parse = (\<lambda>b. if b = [1] then Some (JObj [(''method'', JStr ''initialize'')])
       else if b = [2] then Some (JObj [(''result'', JObj [(''tools'', JArr [JObj [(''name'', JStr ''t'')]])])]) else None),
     wl_decode = (\<lambda>b. []), wl_fr = ratio_text, wl_repr = (\<lambda>j. []),
     wl_text = \<lparr>tl_unescape = (\<lambda>s. s), tl_nfkc = (\<lambda>s. s), tl_str = (\<lambda>d. [])\<rparr>, wl_exc_data = (\<lambda>x. None)\<rparr>"

definition demo_open_guard :: "nat guard" where
  "demo_open_guard = \<lparr>gd_engines = [demo_chain_engine SessionE (\<lambda>c req. None)], gd_dry_run = False, gd_allow_stateless = False\<rparr>"

definition demo_mw :: "nat middleware" where
  "demo_mw = new_middleware (\<lambda>e. False) (\<lambda>e. True) (\<lambda>e. True) True demo_open_guard 8 8 None"

definition demo_app :: "nat app" where
  "demo_app c sc raw g = (Inr [RespStart 200 [(''Mcp-Session-Id'', ''evil'')], RespBody [2]], g)"

definition demo_scope :: http_scope where
  "demo_scope = \<lparr>sp_method = ''POST'', sp_path = ''/mcp'', sp_query = [], sp_headers = [], sp_client = None\<rparr>"

definition demo_mw_state :: "nat mw_state" where
  "demo_mw_state = \<lparr>ms_gs = demo_gstate, ms_sessions = [], ms_active = None\<rparr>"

definition demo_served :: "asgi_msg list result \<times> nat mw_state" where
  "demo_served = handle_http demo_wire 0 ''u'' demo_mw demo_app demo_scope [([1], False)] demo_mw_state"

lemma demo_reading: "read_request demo_wire demo_mw demo_scope [([1], False)] = Inr ([1], [(''method'', JStr ''initialize'')])"
  by code_simp

lemma demo_session: "resolve_session ''u'' demo_mw demo_scope [(''method'', JStr ''initialize'')] = Some (''http'', NewSession)"
  by code_simp

lemma demo_buffered: "buffered 8 (Some ''http'') [RespStart 200 [(''Mcp-Session-Id'', ''evil'')], RespBody [2]]
    = \<lparr>bf_start = Some (200, [(''mcp-session-id'', ''http'')]), bf_body = [2], bf_count = 1, bf_oversized = False\<rparr>"
  by code_simp

lemma demo_read_response: "read_response demo_wire demo_mw (JStr ''initialize'') [2]
    = Some [(''result'', JObj [(''tools'', JArr [JObj [(''name'', JStr ''t'')]])])]"
  by code_simp

lemma demo_guard_passes:
  "run_request demo_open_guard c req g = (Inr c, g\<lparr>gs_inflight := Some (rq_method req), gs_world := gs_world g + 1, gs_context := Some c\<rparr>)"
  "run_response demo_open_guard c resp g = (Inr c, g\<lparr>gs_context := Some c, gs_inflight := None\<rparr>)"
  "open_session demo_open_guard c g = (Inr c, g\<lparr>gs_context := Some c\<rparr>)"
  by (simp_all add: run_request_def run_response_def run_response_chain_def open_session_def demo_open_guard_def
      demo_chain_engine_def pass_response_def pass_session_def commit_tool_schemas_def manifest_of_def has_kind_def
    split: option.splits json.splits)

lemma demo_served_eq: "fst demo_served = Inr [RespStart 200 [(''mcp-session-id'', ''http'')], RespBody [2]]
    \<and> ms_sessions (snd demo_served) = [(''http'', new_context 0 ''http'' ''http'')]"
proof -
  have g: "mw_guard demo_mw = demo_open_guard" "mw_max_response demo_mw = 8" by (simp_all add: demo_mw_def new_middleware_def)
  have a: "initial_context 0 demo_mw (''http'', NewSession) demo_mw_state = new_context 0 ''http'' ''http''"
    by (simp add: initial_context_def)
  have m: "ms_sessions demo_mw_state = []" by (simp add: demo_mw_state_def)
  show ?thesis
    unfolding demo_served_def handle_http_def demo_reading
    by (simp add: demo_session a g exchange_def admit_def open_request_def http_request_def request_from_dict_def demo_guard_passes
        set_active_def persist_def demo_app_def respond_def issued_id_def demo_buffered method_of_def demo_read_response Let_def
        send_buffered_def finish_def m)
qed

lemmas demo_served_out = demo_served_eq [THEN conjunct1]

lemma demo_served_pair: "demo_served = (Inr [RespStart 200 [(''mcp-session-id'', ''http'')], RespBody [2]], snd demo_served)"
  using demo_served_out by (metis prod.collapse)


theorem session_id_is_never_upstreams_witness: "''http'' = mint_session_id ''u'' (mw_guard demo_mw) ''http''"
  using session_id_is_never_upstreams [OF demo_served_pair [unfolded demo_served_def], of 200 "[(''mcp-session-id'', ''http'')]" "''mcp-session-id''" "''http''"]
    ascii_lower_session by (simp add: session_header_def)

definition demo_listing :: "(string, json) dict" where
  "demo_listing = [(''tools'', JArr [JObj [(''name'', JStr ''t'')], JObj [(''name'', JStr ''admin'')]])]"

definition demo_hiding :: "nat middleware" where
  "demo_hiding = demo_mw\<lparr>mw_guard := demo_open_guard\<lparr>gd_engines :=
     [(demo_chain_engine AuthzE (\<lambda>c req. None))\<lparr>en_filter := (\<lambda>names c. filter (\<lambda>n. n = ''t'') names)\<rparr>]\<rparr>\<rparr>"


interpretation demo_armored: armored "gd_engines demo_open_guard"
  by unfold_locales
    (auto simp: demo_open_guard_def demo_chain_engine_def pass_session_def pass_resp.frame intro: pass_resp.response_hook_axioms)

theorem kept_contexts_are_of_their_session_witness:
  "\<exists>c. dget (ms_sessions (snd demo_served)) ''http'' = Some c \<and> session_id c = ''http'' \<and> transport c = ''http''"
proof -
  obtain c where c: "dget (ms_sessions (snd demo_served)) ''http'' = Some c" using demo_served_eq by simp
  have "serving demo_wire (\<lambda>mw. mw = demo_mw) demo_mw_state (snd demo_served)"
    unfolding demo_served_def by (rule serving.request [OF serving.started]) (simp_all add: demo_mw_state_def)
  moreover have "armored (gd_engines (mw_guard demo_mw))"
    using demo_armored.armored_axioms by (simp add: demo_mw_def new_middleware_def)
  ultimately show ?thesis
    using kept_contexts_are_of_their_session [of demo_wire "\<lambda>mw. mw = demo_mw" demo_mw_state "snd demo_served" "''http''" c] c
    by (simp add: demo_mw_state_def)
qed

end
