(* ===== verification/Sidecar.thy ===== *)
theory Sidecar
  imports Middleware "HOL-Library.Sublist"
begin

text \<open>
  The sidecar (\<open>mcp_armor/sidecar.py\<close>): the validation of a request path with
  \<open>posixpath.normpath\<close>, the headers of the upstream hop, the forwarding application and its
  assembly behind the adapter.  The HTTP client is a function from the outgoing call to the
  answer of the upstream, its connection failure or another exception.
\<close>

section \<open>Constants\<close>

definition default_upstream :: string where "default_upstream = ''http://localhost:3000''"
definition default_max_response_bytes :: nat where "default_max_response_bytes = 10 * 1024 * 1024"
definition default_max_body :: nat where "default_max_body = 65536"

definition hop_by_hop :: "string list" where
  "hop_by_hop = [''connection'', ''keep-alive'', ''proxy-authenticate'', ''proxy-authorization'', ''te'', ''trailer'',
     ''transfer-encoding'', ''upgrade'']"

definition strip_client_headers :: "string list" where
  "strip_client_headers = [''x-forwarded-for'', ''x-forwarded-host'', ''x-forwarded-proto'', ''x-real-ip'', ''x-original-url'',
     ''x-rewrite-url'', ''forwarded'']"

definition strip_response_headers :: "string list" where
  "strip_response_headers = [''content-encoding'', ''content-length'', session_header]"

definition strip_before_upstream :: "string list" where "strip_before_upstream = [session_header]"

definition upstream_auth_headers :: "string list" where "upstream_auth_headers = [''authorization'', ''cookie'', ''dpop'']"

section \<open>The path\<close>

text \<open>\<open>posixpath.normpath\<close> of an absolute path: the components, then the joined text.\<close>

definition slash :: char where "slash = CHR ''/''"

fun norm_comps :: "string list \<Rightarrow> string list \<Rightarrow> string list" where
  "norm_comps acc [] = rev acc"
| "norm_comps acc (c # cs) =
     (if c = [] \<or> c = ''.'' then norm_comps acc cs
      else if c \<noteq> ''..'' \<or> (acc \<noteq> [] \<and> hd acc = ''..'') then norm_comps (c # acc) cs
      else norm_comps (tl acc) cs)"

definition normpath_absolute :: "string \<Rightarrow> string" where
  "normpath_absolute p = slash # join_with slash (norm_comps [] (split_on slash p))"

fun contains :: "string \<Rightarrow> string \<Rightarrow> bool" where
  "contains pat [] = (pat = [])"
| "contains pat (c # s) = (starts_with pat (c # s) \<or> contains pat s)"

definition line_break :: "string \<Rightarrow> bool" where
  "line_break s = (CHR 0x0D \<in> set s \<or> CHR 0x0A \<in> set s)"

definition validate_path :: "string \<Rightarrow> string result" where
  "validate_path path =
     (if \<not> starts_with [slash] path then value_error ''path must start with /''
      else if starts_with [slash, slash] path then value_error ''scheme-relative path rejected''
      else if line_break path then value_error ''CRLF bytes in path rejected''
      else if contains ''%2f'' (lower path) then value_error ''percent-encoded slash rejected''
      else if contains ''%00'' (lower path) \<or> CHR 0x00 \<in> set path then value_error ''null byte in path rejected''
      else Inr (normpath_absolute path))"

definition within_prefix :: "string \<Rightarrow> string \<Rightarrow> bool" where
  "within_prefix pre path = (path = pre \<or> starts_with (rstrip_of (\<lambda>c. c = slash) pre @ [slash]) path)"

section \<open>The upstream hop\<close>

record forwarder =
  fw_upstream :: string
  fw_prefix :: "string option"
  fw_strip_auth :: bool
  fw_max_response :: nat

definition new_forwarder :: "string \<Rightarrow> string option \<Rightarrow> bool \<Rightarrow> nat \<Rightarrow> forwarder" where
  "new_forwarder upstream pre strip_auth max_resp =
     \<lparr>fw_upstream = rstrip_of (\<lambda>c. c = slash) upstream, fw_prefix = pre, fw_strip_auth = strip_auth, fw_max_response = max_resp\<rparr>"

record http_call =
  hc_method :: string
  hc_url :: string
  hc_body :: bytes
  hc_headers :: "(string, string) dict"

datatype upstream_answer = Answer nat "(string \<times> string) list" "bytes list" | RequestError | Failure exn

definition dropped_header :: "forwarder \<Rightarrow> string \<Rightarrow> bool" where
  "dropped_header fw k = (k \<in> set hop_by_hop \<or> k = ''host'' \<or> k = ''content-type'' \<or> k = ''content-length''
     \<or> k \<in> set strip_client_headers \<or> k \<in> set strip_before_upstream \<or> (fw_strip_auth fw \<and> k \<in> set upstream_auth_headers))"

fun client_headers :: "forwarder \<Rightarrow> string list \<Rightarrow> (string \<times> string) list \<Rightarrow> (string \<times> string) list" where
  "client_headers fw seen [] = []"
| "client_headers fw seen ((k, v) # hs) =
     (let l = lower k in
      if dropped_header fw l \<or> line_break l \<or> line_break v \<or> l \<in> set seen then client_headers fw seen hs
      else (k, v) # client_headers fw (l # seen) hs)"

text \<open>\<open>str.encode("ascii", "replace")\<close>.\<close>

definition ascii_replace :: "string \<Rightarrow> string" where
  "ascii_replace s = map (\<lambda>c. if ord_of c < 128 then c else CHR ''?'') s"

definition peer_of :: "http_scope \<Rightarrow> string" where
  "peer_of sc = ascii_replace (case sp_client sc of None \<Rightarrow> ''unknown'' | Some ip \<Rightarrow> ip)"

definition forwarded_headers :: "forwarder \<Rightarrow> http_scope \<Rightarrow> (string \<times> string) list" where
  "forwarded_headers fw sc = client_headers fw [] (sp_headers sc)
     @ [(''x-forwarded-for'', peer_of sc), (''x-real-ip'', peer_of sc), (''content-type'', ''application/json'')]"

definition upstream_url :: "forwarder \<Rightarrow> string \<Rightarrow> string \<Rightarrow> string" where
  "upstream_url fw path qs = fw_upstream fw @ path @ (if qs = [] then [] else CHR ''?'' # qs)"

definition simple_error :: "wire_lib \<Rightarrow> nat \<Rightarrow> int \<Rightarrow> string \<Rightarrow> asgi_msg list" where
  "simple_error lib status code msg = send_error lib status JNull code msg None"

text \<open>The call to make, or the answer that refuses the request.\<close>

definition prepare_call :: "wire_lib \<Rightarrow> forwarder \<Rightarrow> http_scope \<Rightarrow> bytes \<Rightarrow> asgi_msg list + http_call" where
  "prepare_call lib fw sc body =
     (let method = upper (sp_method sc) in
      if method \<noteq> ''POST'' then Inl (simple_error lib 405 (-32600) ''Method not allowed'')
      else case validate_path (sp_path sc) of
          Inl _ \<Rightarrow> Inl (simple_error lib 400 (-32600) ''Invalid request path'')
        | Inr path \<Rightarrow>
            if (case fw_prefix fw of None \<Rightarrow> False | Some pre \<Rightarrow> \<not> within_prefix pre path)
            then Inl (simple_error lib 404 (-32600) ''Path not found'')
            else if body = [] then Inl (simple_error lib 400 (-32600) ''Empty request body'')
            else if line_break (sp_query sc) then Inl (simple_error lib 400 (-32600) ''Invalid request'')
            else Inr \<lparr>hc_method = method, hc_url = upstream_url fw path (sp_query sc), hc_body = body,
                      hc_headers = dict_of_pairs (forwarded_headers fw sc)\<rparr>)"

text \<open>The streaming loop with its ceiling.\<close>

fun read_chunks :: "nat \<Rightarrow> nat \<Rightarrow> bytes \<Rightarrow> bytes list \<Rightarrow> bytes option" where
  "read_chunks limit n acc [] = Some acc"
| "read_chunks limit n acc (chunk # cs) =
     (if n + length chunk > limit then None else read_chunks limit (n + length chunk) (acc @ chunk) cs)"

definition response_headers :: "(string \<times> string) list \<Rightarrow> (string \<times> string) list" where
  "response_headers hs = map (\<lambda>(k, v). (lower k, v))
     (filter (\<lambda>(k, v). lower k \<notin> set hop_by_hop \<and> lower k \<notin> set strip_response_headers \<and> \<not> line_break k \<and> \<not> line_break v) hs)"

definition relay :: "wire_lib \<Rightarrow> forwarder \<Rightarrow> upstream_answer \<Rightarrow> asgi_msg list result" where
  "relay lib fw answer = (case answer of
     RequestError \<Rightarrow> Inr (simple_error lib 503 (-32603) ''Upstream server unavailable'')
   | Failure x \<Rightarrow> Inl x
   | Answer status hs chunks \<Rightarrow> (case read_chunks (fw_max_response fw) 0 [] chunks of
       None \<Rightarrow> Inr (simple_error lib 502 (-32603) ''Upstream response too large'')
     | Some body \<Rightarrow> Inr [RespStart status (response_headers hs @ [(''content-length'', show_nat (length body))]), RespBody body]))"

text \<open>\<open>ForwardingApp._http\<close>; the adapter hands it the body it buffered.\<close>

definition forward_http :: "wire_lib \<Rightarrow> forwarder \<Rightarrow> (http_call \<Rightarrow> upstream_answer) \<Rightarrow> http_scope \<Rightarrow> bytes \<Rightarrow> asgi_msg list result" where
  "forward_http lib fw up sc body = (case prepare_call lib fw sc body of
     Inl out \<Rightarrow> Inr out | Inr call \<Rightarrow> relay lib fw (up call))"

definition forwarding_app :: "wire_lib \<Rightarrow> forwarder \<Rightarrow> (http_call \<Rightarrow> upstream_answer) \<Rightarrow> 'w app" where
  "forwarding_app lib fw up c sc raw g = (forward_http lib fw up sc raw, g)"

text \<open>The client of the forwarder is opened and closed by the lifespan; a request opens it on demand.\<close>

datatype forwarder_event = FwStartup | FwRequest | FwShutdown

fun client_open :: "forwarder_event \<Rightarrow> bool \<Rightarrow> bool" where
  "client_open FwStartup b = True"
| "client_open FwRequest b = True"
| "client_open FwShutdown b = False"

section \<open>Assembly\<close>

definition build_app :: "('w guard \<Rightarrow> nat \<Rightarrow> nat \<Rightarrow> string list option \<Rightarrow> 'w middleware) \<Rightarrow> (string \<Rightarrow> 'w guard result)
    \<Rightarrow> string \<Rightarrow> 'w guard option \<Rightarrow> string option \<Rightarrow> string list option \<Rightarrow> nat option \<Rightarrow> nat \<Rightarrow> string option \<Rightarrow> bool
    \<Rightarrow> ('w middleware \<times> forwarder) result" where
  "build_app wrap from_config upstream guard config cors max_body max_resp pre strip_auth =
     (if guard = None \<and> config = None then value_error ''build_app requires either a guard or a config_path''
      else if guard \<noteq> None \<and> config \<noteq> None then value_error ''build_app accepts only one of guard or config_path, not both''
      else bindR (case guard of Some gd \<Rightarrow> Inr gd | None \<Rightarrow> from_config (the config)) (\<lambda>gd.
        Inr (wrap gd (case max_body of None \<Rightarrow> default_max_body | Some n \<Rightarrow> n) max_resp cors,
             new_forwarder upstream pre strip_auth max_resp)))"

text \<open>\<open>_resolve_cors_origins\<close> and the default of \<open>--strip-upstream-auth\<close>.\<close>

definition resolve_cors_origins :: "string list option \<Rightarrow> (string, string) dict \<Rightarrow> string list option" where
  "resolve_cors_origins given env = (case given of
     Some os \<Rightarrow> Some os
   | None \<Rightarrow> map_option (\<lambda>raw. filter (\<lambda>o'. o' \<noteq> []) (map strip (split_on (CHR '','') raw))) (dget env ''ARMOR_CORS_ORIGINS''))"

definition strip_auth_default :: "(string, string) dict \<Rightarrow> bool" where
  "strip_auth_default env = (lower (strip (header_or_empty env ''ARMOR_STRIP_UPSTREAM_AUTH'')) \<in> {''1'', ''true'', ''yes'', ''on''})"

section \<open>Normal paths\<close>

definition normal_comp :: "string \<Rightarrow> bool" where
  "normal_comp c = (c \<noteq> [] \<and> c \<noteq> ''.'' \<and> c \<noteq> ''..'' \<and> slash \<notin> set c)"

lemma norm_comps_normal:
  "list_all normal_comp acc \<Longrightarrow> list_all (\<lambda>c. slash \<notin> set c) cs \<Longrightarrow> list_all normal_comp (norm_comps acc cs)"
proof (induction acc cs rule: norm_comps.induct)
  case (2 acc c cs)
  from 2(4) have "acc \<noteq> [] \<Longrightarrow> hd acc \<noteq> ''..''" by (cases acc) (auto simp: normal_comp_def)
  moreover have "list_all normal_comp (tl acc)" using 2(4) by (cases acc) auto
  moreover have "c \<noteq> [] \<Longrightarrow> c \<noteq> ''.'' \<Longrightarrow> c \<noteq> ''..'' \<Longrightarrow> normal_comp c" using 2(5) by (simp add: normal_comp_def)
  ultimately show ?case using 2 by auto
qed simp

lemma norm_comps_id: "list_all normal_comp cs \<Longrightarrow> norm_comps acc cs = rev acc @ cs"
  by (induction cs arbitrary: acc) (auto simp: normal_comp_def)

lemma norm_comps_subset: "set (norm_comps acc cs) \<subseteq> set acc \<union> set cs"
proof (induction acc cs rule: norm_comps.induct)
  case (2 acc c cs)
  have "set (tl acc) \<subseteq> set acc" by (cases acc) auto
  with 2 show ?case by auto
qed simp

lemma split_on_slash: "split_on slash (join_with slash cs) = (if cs = [] then [[]] else cs)"
  if "list_all normal_comp cs"
  using split_on_join_with [of cs slash] that by (auto simp: join_with_def list_all_iff normal_comp_def)

definition normal_path :: "string list \<Rightarrow> string" where
  "normal_path cs = slash # join_with slash cs"

lemma normpath_normal: "list_all normal_comp cs \<Longrightarrow> normpath_absolute (normal_path cs) = normal_path cs"
  by (simp add: normpath_absolute_def normal_path_def split_on_slash norm_comps_id)

lemma contains_sublist: "contains pat s \<longleftrightarrow> sublist pat s"
  by (induction s) (auto simp: sublist_Cons_right starts_with_iff prefix_def)

lemma split_comp_sublist: "c \<in> set (split_on x s) \<Longrightarrow> sublist c s"
proof (induction s arbitrary: c)
  case (Cons y s)
  obtain w ws where sp: "split_on x s = w # ws" by (cases "split_on x s") auto
  have w: "prefix w s" using split_on_join [of x s] sp by (auto simp: join_with_def prefix_def split: list.splits)
  show ?case
  proof (cases "y = x")
    case True
    with Cons.prems Cons.IH [of c] sp show ?thesis by (auto simp: sublist_Cons_right)
  next
    case False
    with Cons.prems sp have "c = y # w \<or> c \<in> set ws" by auto
    then show ?thesis
    proof
      assume "c = y # w"
      with w show ?thesis by (simp add: prefix_imp_sublist)
    next
      assume "c \<in> set ws"
      with Cons.IH [of c] sp show ?thesis by (simp add: sublist_Cons_right)
    qed
  qed
qed simp

text \<open>A text without a slash that occurs in a joined path occurs in one of its components.\<close>

lemma sublist_across:
  assumes "sublist pat (u @ x # v)" and "x \<notin> set pat"
  shows "sublist pat u \<or> sublist pat v"
proof -
  from assms(1) consider "sublist pat u" | "sublist pat (x # v)"
    | pat1 pat2 where "pat = pat1 @ pat2" "suffix pat1 u" "prefix pat2 (x # v)" "pat2 \<noteq> []"
    by (auto simp: sublist_append) (metis append_Nil2 suffix_imp_sublist)
  then show ?thesis
  proof cases
    case 2
    then show ?thesis using assms(2) by (cases pat) (auto simp: sublist_Cons_right)
  next
    case 3
    then show ?thesis using assms(2) by (cases pat2) auto
  qed simp
qed

lemma sublist_join:
  "sublist pat (join_with x cs) \<Longrightarrow> x \<notin> set pat \<Longrightarrow> pat \<noteq> [] \<Longrightarrow> \<exists>c \<in> set cs. sublist pat c"
proof (induction cs)
  case (Cons c cs)
  show ?case
  proof (cases cs)
    case Nil
    with Cons.prems show ?thesis by (simp add: join_with_def)
  next
    case (Cons d ds)
    then have "join_with x (c # cs) = c @ x # join_with x cs" by (simp add: join_with_def)
    with sublist_across [of pat c x "join_with x cs"] Cons.IH Cons.prems show ?thesis by auto
  qed
qed (simp add: join_with_def)

lemma normal_path_start:
  assumes "list_all normal_comp cs"
  shows "starts_with [slash] (normal_path cs) \<and> \<not> starts_with [slash, slash] (normal_path cs)"
proof (cases cs)
  case (Cons c ds)
  with assms obtain x u where "c = x # u" "x \<noteq> slash" by (cases c) (auto simp: normal_comp_def)
  with Cons show ?thesis by (simp add: normal_path_def starts_with_def join_with_def)
qed (simp add: normal_path_def starts_with_def join_with_def)

lemma set_join: "set (join_with x cs) \<subseteq> insert x (\<Union> (set ` set cs))"
  by (cases cs) (auto simp: join_with_def)

lemma lower_join: "lower (join_with slash cs) = join_with slash (map lower cs)"
proof -
  have "lower_char slash = slash" by code_simp
  then show ?thesis by (cases cs) (auto simp: join_with_def lower_def map_concat comp_def)
qed

lemma lower_sublist: "sublist a b \<Longrightarrow> sublist (lower a) (lower b)"
  unfolding lower_def by (rule map_mono_sublist)

lemma prefix_join:
  assumes "list_all normal_comp ps" and "list_all normal_comp cs" and "ps \<noteq> []"
  shows "within_prefix (normal_path ps) (normal_path cs) \<longleftrightarrow> prefix ps cs"
proof -
  have nj: "join_with slash ps \<noteq> []" using assms(1,3) by (cases ps) (auto simp: join_with_def normal_comp_def)
  have "last (normal_path ps) \<noteq> slash"
  proof -
    obtain qs q where ps: "ps = qs @ [q]" using assms(3) rev_exhaust by blast
    with assms(1) have q: "normal_comp q" by simp
    have "\<exists>u. normal_path ps = u @ q"
      using ps by (cases qs) (auto simp: normal_path_def join_with_def)
    with q show ?thesis by (auto simp: normal_comp_def) (metis last_in_set)
  qed
  then have r: "rstrip_of (\<lambda>c. c = slash) (normal_path ps) = normal_path ps"
  proof -
    have "normal_path ps \<noteq> []" by (simp add: normal_path_def)
    with \<open>last (normal_path ps) \<noteq> slash\<close> have "dropWhile (\<lambda>c. c = slash) (rev (normal_path ps)) = rev (normal_path ps)"
      by (intro dropWhile_hd) (simp_all add: hd_rev)
    then show ?thesis by (simp add: rstrip_of_def)
  qed
  show ?thesis
  proof
    assume "within_prefix (normal_path ps) (normal_path cs)"
    then consider "normal_path cs = normal_path ps" | u where "normal_path cs = normal_path ps @ slash # u"
      by (auto simp: within_prefix_def r starts_with_iff)
    then show "prefix ps cs"
    proof cases
      case 1
      then have "split_on slash (join_with slash cs) = split_on slash (join_with slash ps)" by (simp add: normal_path_def)
      moreover have "cs \<noteq> []" using nj 1 by (auto simp: normal_path_def) (simp add: join_with_def)
      ultimately show ?thesis using assms(3) by (simp add: split_on_slash assms(1,2))
    next
      case (2 u)
      then have j: "join_with slash cs = join_with slash ps @ slash # u" by (simp add: normal_path_def)
      then have "cs \<noteq> []" by (auto simp: join_with_def)
      have "split_on slash (join_with slash ps @ slash # u) = ps @ split_on slash u" if "list_all normal_comp ps" "ps \<noteq> []" for ps
        using that
      proof (induction ps)
        case (Cons p ps)
        then show ?case
          by (cases ps) (auto simp: join_with_def normal_comp_def split_on_append_sep)
      qed simp
      with j assms(1,3) have "split_on slash (join_with slash cs) = ps @ split_on slash u" by simp
      with \<open>cs \<noteq> []\<close> show ?thesis by (simp add: split_on_slash assms)
    qed
  next
    assume "prefix ps cs"
    then obtain zs where cs: "cs = ps @ zs" by (auto simp: prefix_def)
    show "within_prefix (normal_path ps) (normal_path cs)"
    proof (cases zs)
      case Nil
      with cs show ?thesis by (simp add: within_prefix_def)
    next
      case (Cons z zs')
      obtain p ps' where ps: "ps = p # ps'" using assms(3) by (cases ps) auto
      then have "normal_path cs = (normal_path ps @ [slash]) @ join_with slash zs"
        using cs Cons by (simp add: normal_path_def join_with_def)
      then show ?thesis unfolding within_prefix_def r starts_with_iff by blast
    qed
  qed
qed



text \<open>
  The lockdown looks at the path as ASGI decoded it, but hands it to the client as the text of a
  URL: an encoded dot survives and is decoded by the upstream, and a question mark ends the path
  component that was validated.
\<close>

lemma encoded_dots_pass_the_lockdown:
  "validate_path ''/api/mcp/%2e%2e/admin'' = Inr ''/api/mcp/%2e%2e/admin'' \<and> within_prefix ''/api/mcp'' ''/api/mcp/%2e%2e/admin''"
  by code_simp

lemma question_mark_ends_the_path:
  "validate_path ''/api/mcp/..?x'' = Inr ''/api/mcp/..?x'' \<and> within_prefix ''/api/mcp'' ''/api/mcp/..?x''
   \<and> hd (split_on (CHR ''?'') (upstream_url (new_forwarder ''http://u'' None False 1) ''/api/mcp/..?x'' [])) = ''http://u/api/mcp/..''"
  by code_simp

section \<open>The headers of the hop\<close>

lemma client_headers_in:
  "(k, v) \<in> set (client_headers fw seen hs) \<Longrightarrow> (k, v) \<in> set hs \<and> \<not> dropped_header fw (lower k)
     \<and> \<not> line_break (lower k) \<and> \<not> line_break v \<and> lower k \<notin> set seen"
  by (induction fw seen hs rule: client_headers.induct) (auto simp: Let_def split: if_splits)

lemma client_headers_distinct: "distinct (map (\<lambda>p. lower (fst p)) (client_headers fw seen hs))"
proof (induction fw seen hs rule: client_headers.induct)
  case (2 fw seen k v hs)
  then show ?case using client_headers_in [of _ _ fw "lower k # seen" hs] by (fastforce simp: Let_def)
qed simp

lemma own_header_names:
  "lower ''x-forwarded-for'' = ''x-forwarded-for''" "lower ''x-real-ip'' = ''x-real-ip''" "lower ''content-type'' = ''content-type''"
  by code_simp+

lemma own_headers_dropped:
  "dropped_header fw ''x-forwarded-for''" "dropped_header fw ''x-real-ip''" "dropped_header fw ''content-type''"
  by (simp_all add: dropped_header_def strip_client_headers_def)

lemma forwarded_distinct: "distinct (map (\<lambda>p. lower (fst p)) (forwarded_headers fw sc))"
proof -
  have "x \<notin> (\<lambda>p. lower (fst p)) ` set (client_headers fw [] (sp_headers sc))" if "dropped_header fw x" for x
    using that client_headers_in [of _ _ fw "[]" "sp_headers sc"] by force
  from this [OF own_headers_dropped(1)] this [OF own_headers_dropped(2)] this [OF own_headers_dropped(3)]
  show ?thesis
    using client_headers_distinct [of fw "[]" "sp_headers sc"] by (simp add: forwarded_headers_def own_header_names)
qed

lemma dict_of_distinct: "distinct (map fst ps) \<Longrightarrow> dict_of_pairs ps = ps"
proof -
  have "distinct (map fst ps) \<Longrightarrow> fst ` set d \<inter> fst ` set ps = {} \<Longrightarrow> foldl (\<lambda>d (k, v). AList.update k v d) d ps = d @ ps" for d
  proof (induction ps arbitrary: d)
    case (Cons p ps)
    obtain k v where p: "p = (k, v)" by (cases p)
    have "AList.update k v d = d @ [(k, v)]" using Cons.prems p by (intro wf_dict_update_new) auto
    moreover have "foldl (\<lambda>d (k, v). AList.update k v d) (d @ [(k, v)]) ps = (d @ [(k, v)]) @ ps"
      by (rule Cons.IH) (use Cons.prems p in auto)
    ultimately show ?case using p by simp
  qed simp
  then show "distinct (map fst ps) \<Longrightarrow> dict_of_pairs ps = ps" by (simp add: dict_of_pairs_def)
qed

lemma hop_headers: "dict_of_pairs (forwarded_headers fw sc) = forwarded_headers fw sc"
  by (rule dict_of_distinct) (use forwarded_distinct [of fw sc] in \<open>simp add: distinct_map inj_on_def\<close>)

text \<open>A header of the hop: one the sidecar sets itself, or one of the client's that may pass.\<close>

definition hop_header_ok :: "forwarder \<Rightarrow> http_scope \<Rightarrow> string \<Rightarrow> string \<Rightarrow> bool" where
  "hop_header_ok fw sc k v =
     ((k, v) \<in> {(''x-forwarded-for'', peer_of sc), (''x-real-ip'', peer_of sc), (''content-type'', ''application/json'')}
      \<or> ((k, v) \<in> set (sp_headers sc) \<and> \<not> line_break (lower k) \<and> \<not> line_break v
         \<and> lower k \<notin> set (hop_by_hop @ strip_client_headers @ [''host'', ''content-type'', ''content-length'', session_header])
         \<and> (fw_strip_auth fw \<longrightarrow> lower k \<notin> set upstream_auth_headers)))"

text \<open>
  C17: The call that reaches the upstream is one \<open>POST\<close> of exactly the body the engines read, at a
  validated path below the configured prefix, with headers no component can read differently: no
  name occurs twice in any spelling, the content type is the one the guard validated, the peer
  address is the connection's, no hop-by-hop, host, length, forwarding or session header of the
  client passes, none contains a line break, and no credential when they are to be stripped.
\<close>

theorem upstream_call_is_sanitized:
  assumes "prepare_call lib fw sc body = Inr call"
  shows "hc_method call = ''POST'' \<and> hc_body call = body \<and> body \<noteq> []
    \<and> (\<exists>path. validate_path (sp_path sc) = Inr path \<and> hc_url call = upstream_url fw path (sp_query sc)
         \<and> (case fw_prefix fw of None \<Rightarrow> True | Some pre \<Rightarrow> within_prefix pre path))
    \<and> distinct (map (\<lambda>p. lower (fst p)) (hc_headers call))
    \<and> (\<forall>(k, v) \<in> set (hc_headers call). hop_header_ok fw sc k v)"
proof -
  from assms obtain path where p: "validate_path (sp_path sc) = Inr path" "upper (sp_method sc) = ''POST''"
    "case fw_prefix fw of None \<Rightarrow> True | Some pre \<Rightarrow> within_prefix pre path" "body \<noteq> []"
    and call: "call = \<lparr>hc_method = ''POST'', hc_url = upstream_url fw path (sp_query sc), hc_body = body,
        hc_headers = forwarded_headers fw sc\<rparr>"
    by (auto simp: prepare_call_def Let_def hop_headers split: if_splits sum.splits option.splits)
  have "hop_header_ok fw sc k v" if "(k, v) \<in> set (forwarded_headers fw sc)" for k v
  proof (cases "(k, v) \<in> set (client_headers fw [] (sp_headers sc))")
    case True
    from client_headers_in [OF this] show ?thesis by (auto simp: hop_header_ok_def dropped_header_def strip_before_upstream_def)
  next
    case False
    with that show ?thesis by (auto simp: hop_header_ok_def forwarded_headers_def)
  qed
  then have h: "\<forall>(k, v) \<in> set (hc_headers call). hop_header_ok fw sc k v" by (auto simp: call)
  have c: "hc_method call = ''POST''" "hc_body call = body" "hc_url call = upstream_url fw path (sp_query sc)"
    "distinct (map (\<lambda>p. lower (fst p)) (hc_headers call))" using forwarded_distinct by (simp_all add: call)
  have "\<exists>path. validate_path (sp_path sc) = Inr path \<and> hc_url call = upstream_url fw path (sp_query sc)
         \<and> (case fw_prefix fw of None \<Rightarrow> True | Some pre \<Rightarrow> within_prefix pre path)"
    by (intro exI [of _ path] conjI) (rule p(1), rule c(3), rule p(3))
  then show ?thesis by (intro conjI) (rule c(1), rule c(2), rule p(4), assumption, rule c(4), rule h)
qed

definition demo_hop_scope :: http_scope where
  "demo_hop_scope = \<lparr>sp_method = ''post'', sp_path = ''/mcp'', sp_query = [],
     sp_headers = [(''Accept'', ''a''), (''DPoP'', ''p'')], sp_client = Some ''1.2.3.4''\<rparr>"

definition demo_fw :: forwarder where
  "demo_fw = \<lparr>fw_upstream = ''http://u'', fw_prefix = Some ''/mcp'', fw_strip_auth = True, fw_max_response = 8\<rparr>"

theorem upstream_call_is_sanitized_witness:
  "\<exists>call. prepare_call demo_wire demo_fw demo_hop_scope [1] = Inr call
     \<and> map fst (hc_headers call) = [''Accept'', ''x-forwarded-for'', ''x-real-ip'', ''content-type''] \<and> hc_method call = ''POST''"
proof -
  have l: "lower ''Accept'' = ''accept''" "lower ''DPoP'' = ''dpop''" "upper ''post'' = ''POST''" "lower ''accept'' = ''accept''" by code_simp+
  have v: "validate_path ''/mcp'' = Inr ''/mcp''" "within_prefix ''/mcp'' ''/mcp''" by code_simp+
  have f: "fw_prefix demo_fw = Some ''/mcp''" "fw_strip_auth demo_fw" by (simp_all add: demo_fw_def)
  have d: "sp_method demo_hop_scope = ''post''" "sp_path demo_hop_scope = ''/mcp''" "sp_query demo_hop_scope = []"
    "sp_headers demo_hop_scope = [(''Accept'', ''a''), (''DPoP'', ''p'')]" by (simp_all add: demo_hop_scope_def)
  have "client_headers demo_fw [] (sp_headers demo_hop_scope) = [(''Accept'', ''a'')]"
    by (simp add: d Let_def l f dropped_header_def hop_by_hop_def strip_client_headers_def strip_before_upstream_def
        session_header_def upstream_auth_headers_def line_break_def)
  then have h: "map fst (forwarded_headers demo_fw demo_hop_scope) = [''Accept'', ''x-forwarded-for'', ''x-real-ip'', ''content-type'']"
    by (simp add: forwarded_headers_def)
  obtain call where call: "prepare_call demo_wire demo_fw demo_hop_scope [1] = Inr call"
    "map fst (hc_headers call) = [''Accept'', ''x-forwarded-for'', ''x-real-ip'', ''content-type'']"
    using h by (simp add: prepare_call_def Let_def d l v f hop_headers line_break_def)
  from upstream_call_is_sanitized [OF call(1)] have "hc_method call = ''POST''" by (rule conjunct1)
  with call show ?thesis by (intro exI [of _ call] conjI)
qed

section \<open>The answer of the upstream\<close>

lemma read_chunks_iff:
  "read_chunks limit n acc cs = (if n \<le> limit \<or> cs = [] then
      (if cs = [] \<or> n + length (concat cs) \<le> limit then Some (acc @ concat cs) else None) else None)"
proof (induction limit n acc cs rule: read_chunks.induct)
  case (2 limit n acc chunk cs)
  then show ?case by (cases cs) auto
qed simp

text \<open>The loop stops at the chunk that exceeds the ceiling, whatever would follow.\<close>

lemma read_chunks_stops: "limit < length (concat cs) \<Longrightarrow> read_chunks limit 0 [] (cs @ rest) = None"
  by (cases cs) (auto simp: read_chunks_iff)

text \<open>
  What the sidecar relays of an untrusted upstream is bounded and harmless to the framing: the
  body is within the ceiling and is the concatenation of the chunks, its length is announced by
  the one content-length header, and no header of the upstream carries a session id, an encoding,
  a hop-by-hop field or a line break.
\<close>

theorem relayed_answer_is_bounded:
  assumes "relay lib fw (Answer status hs chunks) = Inr [RespStart status' hs', RespBody body]" and "length (concat chunks) \<le> fw_max_response fw"
  shows "body = concat chunks \<and> length body \<le> fw_max_response fw \<and> status' = status
    \<and> [v. (k, v) \<leftarrow> hs', k = ''content-length''] = [show_nat (length body)]
    \<and> (\<forall>(k, v) \<in> set hs'. k \<noteq> session_header \<and> k \<notin> set hop_by_hop \<and> k \<noteq> ''content-encoding'' \<and> \<not> line_break v)"
proof -
  have r: "read_chunks (fw_max_response fw) 0 [] chunks = Some (concat chunks)" using assms(2) by (simp add: read_chunks_iff)
  with assms(1) have b: "body = concat chunks" "status' = status" "hs' = response_headers hs @ [(''content-length'', show_nat (length body))]"
    by (auto simp: relay_def)
  have "(k, v) \<in> set (response_headers hs) \<Longrightarrow> k \<noteq> ''content-length'' \<and> k \<noteq> session_header \<and> k \<notin> set hop_by_hop
      \<and> k \<noteq> ''content-encoding'' \<and> \<not> line_break v" for k v
    by (auto simp: response_headers_def strip_response_headers_def)
  moreover have "[v. (k, v) \<leftarrow> response_headers hs, k = ''content-length''] = []"
    using calculation by (auto simp: concat_eq_Nil_conv)
  moreover have no_digit: "\<not> is_digit (CHR 0x0D)" "\<not> is_digit (CHR 0x0A)" by code_simp+
  have "\<not> line_break (show_nat n)" "\<not> line_break ''application/json''" for n
    using show_nat_digits [of _ n] no_digit by (auto simp: line_break_def)
  moreover have "''content-length'' \<noteq> session_header \<and> ''content-length'' \<notin> set hop_by_hop" by code_simp
  ultimately show ?thesis using b assms(2) by auto
qed

theorem relayed_answer_is_bounded_witness:
  "\<exists>hs'. relay demo_wire (new_forwarder ''http://u'' None False 3) (Answer 200 [(''Set-Cookie'', ''x'')] [[1], [2]]) = Inr [RespStart 200 hs', RespBody [1, 2]]
     \<and> [v. (k, v) \<leftarrow> hs', k = ''content-length''] = [show_nat 2]"
proof -
  obtain hs' where r: "relay demo_wire (new_forwarder ''http://u'' None False 3) (Answer 200 [(''Set-Cookie'', ''x'')] [[1], [2]]) = Inr [RespStart 200 hs', RespBody [1, 2]]"
    by (simp add: relay_def new_forwarder_def)
  from relayed_answer_is_bounded [OF r] r show ?thesis by (auto simp: new_forwarder_def numeral_2_eq_2)
qed

section \<open>The sidecar as a whole\<close>

text \<open>
  Behind the adapter the upstream sees admitted traffic only: if two upstreams are treated
  differently in any way, then they answer differently to one call, the call is the sanitized one
  of a request the guard's chain admitted, and its body is the bytes whose strict reading the
  engines inspected.
\<close>

theorem upstream_sees_admitted_calls_only:
  "handle_http lib now uuid mw (forwarding_app lib fw up) sc msgs st = handle_http lib now uuid mw (forwarding_app lib fw up') sc msgs st
   \<or> (\<exists>raw payload s c c' st1 call. read_request lib mw sc msgs = Inr (raw, payload) \<and> raw \<noteq> []
        \<and> strict_json_loads (wl_parse lib) raw = Inr (JObj payload) \<and> check_request_envelope_keys (JObj payload) = Inr ()
        \<and> resolve_session uuid mw sc payload = Some s
        \<and> admit lib mw sc payload s (initial_context now mw s st) (set_active (initial_context now mw s st) st) = (Inr c, c', st1)
        \<and> prepare_call lib fw sc raw = Inr call \<and> hc_body call = raw \<and> up call \<noteq> up' call)"
proof -
  have f: "forward_http lib fw up sc raw = forward_http lib fw up' sc raw
      \<or> (\<exists>call. prepare_call lib fw sc raw = Inr call \<and> hc_body call = raw \<and> raw \<noteq> [] \<and> up call \<noteq> up' call)" for raw
    by (auto simp: forward_http_def prepare_call_def Let_def split: sum.splits if_splits option.splits)
  from applications_distinguished [of lib now uuid mw "forwarding_app lib fw up" sc msgs st "forwarding_app lib fw up'"]
  show ?thesis
  proof
    assume "\<exists>raw payload s c c' st1. read_request lib mw sc msgs = Inr (raw, payload) \<and> length raw \<le> mw_max_body mw
        \<and> (raw = [] \<or> strict_json_loads (wl_parse lib) raw = Inr (JObj payload))
        \<and> check_request_envelope_keys (JObj payload) = Inr ()
        \<and> resolve_session uuid mw sc payload = Some s
        \<and> admit lib mw sc payload s (initial_context now mw s st) (set_active (initial_context now mw s st) st) = (Inr c, c', st1)
        \<and> forwarding_app lib fw up c sc raw (ms_gs st1) \<noteq> forwarding_app lib fw up' c sc raw (ms_gs st1)"
    then obtain raw payload s c c' st1 where r: "read_request lib mw sc msgs = Inr (raw, payload)"
        "raw = [] \<or> strict_json_loads (wl_parse lib) raw = Inr (JObj payload)" "check_request_envelope_keys (JObj payload) = Inr ()"
        "resolve_session uuid mw sc payload = Some s"
        "admit lib mw sc payload s (initial_context now mw s st) (set_active (initial_context now mw s st) st) = (Inr c, c', st1)"
        "forward_http lib fw up sc raw \<noteq> forward_http lib fw up' sc raw"
      by (auto simp: forwarding_app_def)
    with f [of raw] show ?thesis by metis
  qed simp
qed

end
