(* ===== verification/Adapters.thy ===== *)
theory Adapters
  imports Middleware
begin

text \<open>
  The two adapters without HTTP: the wrapped JSON-RPC dispatcher (\<open>mcp_armor/adapters/dispatcher.py\<close>)
  and the per-tool hook of FastMCP (\<open>mcp_armor/adapters/fastmcp.py\<close>).  Both make a session of their
  own for every call.  The dispatcher and the tool are functions over the state of the guard.
\<close>

section \<open>The dispatcher\<close>

text \<open>\<open>describe\<close> gives the message, resolution and data of an exception of a class.\<close>

record rpc_lib =
  rl_repr :: "json \<Rightarrow> string"
  rl_text :: text_lib
  rl_describe :: "exc_class \<Rightarrow> string \<Rightarrow> exc_info"

definition rpc_error :: "rpc_lib \<Rightarrow> exc_class \<Rightarrow> string \<Rightarrow> (string, json) dict" where
  "rpc_error lib cls site =
     (let err = (case to_jsonrpc_error ((rl_describe lib cls site)\<lparr>exc_cls := cls\<rparr>) of JObj d \<Rightarrow> d | _ \<Rightarrow> [])
      in case cls of
           MetaTrustError \<Rightarrow> AList.update ''message'' (JStr ''Authorization error'') err
         | RequestMetadataError _ \<Rightarrow> AList.update ''message'' (JStr ''Request rejected'') err
         | _ \<Rightarrow> err)"

definition rpc_answer :: "rpc_lib \<Rightarrow> (string, json) dict \<Rightarrow> exn \<Rightarrow> (string, json) dict result" where
  "rpc_answer lib payload x = (case x of
     Cosai cls site \<Rightarrow> Inr [(''jsonrpc'', JStr ''2.0''), (''id'', get_or_null payload ''id''), (''error'', JObj (rpc_error lib cls site))]
   | PyExc c s \<Rightarrow> Inl (PyExc c s))"

definition set_ctx :: "ctx \<Rightarrow> 'w gstate \<Rightarrow> 'w gstate" where
  "set_ctx c g = g\<lparr>gs_context := Some c\<rparr>"

type_synonym 'w dispatcher = "(string, json) dict \<Rightarrow> 'w gstate \<Rightarrow> (string, json) dict result \<times> 'w gstate"

text \<open>The part of a call before the dispatcher runs: the context it runs in, or the exception.\<close>

definition rpc_admit :: "rpc_lib \<Rightarrow> time \<Rightarrow> string \<Rightarrow> 'w guard \<Rightarrow> (string, json) dict \<Rightarrow> 'w gstate \<Rightarrow> ctx result \<times> 'w gstate" where
  "rpc_admit lib now uuid gd payload g =
     (let sid = mint_session_id uuid gd ''rpc'';
          c = new_context now sid ''http'';
          g1 = set_ctx c g
      in case request_from_dict (rl_repr lib) payload sid [] [] ''rpc'' [] of
           Inl x \<Rightarrow> (Inl x, g1)
         | Inr req \<Rightarrow> (case run_request gd c req g1 of
             (Inl x, g2) \<Rightarrow> (Inl x, g2) | (Inr c1, g2) \<Rightarrow> (Inr c1, set_ctx c1 g2)))"

definition protected_dispatch :: "rpc_lib \<Rightarrow> time \<Rightarrow> string \<Rightarrow> 'w guard \<Rightarrow> 'w dispatcher \<Rightarrow> 'w dispatcher" where
  "protected_dispatch lib now uuid gd dispatcher payload g = (case rpc_admit lib now uuid gd payload g of
     (Inl x, g1) \<Rightarrow> (rpc_answer lib payload x, g1)
   | (Inr c, g1) \<Rightarrow> (case dispatcher payload g1 of
       (Inl x, g2) \<Rightarrow> (rpc_answer lib payload x, g2)
     | (Inr resp, g2) \<Rightarrow> (case run_response gd c (response_from_dict (rl_text lib) resp) g2 of
         (Inl x, g3) \<Rightarrow> (rpc_answer lib payload x, g3) | (Inr _, g3) \<Rightarrow> (Inr resp, g3))))"

section \<open>The FastMCP hook\<close>

record 'w hook_state =
  hs_gs :: "'w gstate"
  hs_active :: "ctx option"   \<comment> \<open>\<open>guard._active_ctx\<close>\<close>

definition hook_set :: "ctx \<Rightarrow> 'w gstate \<Rightarrow> 'w hook_state \<Rightarrow> 'w hook_state" where
  "hook_set c g st = st\<lparr>hs_gs := set_ctx c g, hs_active := Some c\<rparr>"

text \<open>A tool: its value with the response built from the text of that value.\<close>

type_synonym ('w, 'v) tool_fn = "ctx \<Rightarrow> 'w gstate \<Rightarrow> ('v \<times> string) result \<times> 'w gstate"

text \<open>The body of the \<open>try\<close>: the result, the context and whether the session was opened.\<close>

definition hook_request :: "string \<Rightarrow> json \<Rightarrow> ctx \<Rightarrow> mcp_request" where
  "hook_request fname args c = \<lparr>rq_method = ''tools/call'', rq_params = [(''name'', JStr fname), (''arguments'', args)],
     rq_session_id = session_id c, rq_headers = [], rq_query = [], rq_transport = transport c, rq_header_pairs = []\<rparr>"

definition hook_run :: "text_lib \<Rightarrow> 'w guard \<Rightarrow> ('w, 'v) tool_fn \<Rightarrow> ctx \<Rightarrow> 'w hook_state \<Rightarrow> 'v result \<times> ctx \<times> bool \<times> 'w hook_state" where
  "hook_run lib gd tool c st = (case tool c (hs_gs st) of
     (Inl x, g) \<Rightarrow> (Inl x, c, True, st\<lparr>hs_gs := g\<rparr>)
   | (Inr (v, txt), g) \<Rightarrow> (case run_response gd c (response_from_text lib txt) g of
       (Inl x, g) \<Rightarrow> (Inl x, c, True, st\<lparr>hs_gs := g\<rparr>)
     | (Inr _, g) \<Rightarrow> (Inr v, c, True, st\<lparr>hs_gs := g\<rparr>)))"

definition hook_body :: "text_lib \<Rightarrow> 'w guard \<Rightarrow> string \<Rightarrow> json \<Rightarrow> ('w, 'v) tool_fn \<Rightarrow> ctx \<Rightarrow> 'w hook_state
    \<Rightarrow> 'v result \<times> ctx \<times> bool \<times> 'w hook_state" where
  "hook_body lib gd fname args tool c st =
     (let req = hook_request fname args c
      in case open_session gd c (hs_gs st) of
        (Inl x, g) \<Rightarrow> (Inl x, c, False, st\<lparr>hs_gs := g\<rparr>)
      | (Inr c1, g) \<Rightarrow> (let st1 = hook_set c1 g st in
          case run_request gd c1 req (hs_gs st1) of
            (Inl x, g) \<Rightarrow> (Inl x, c1, True, st1\<lparr>hs_gs := g\<rparr>)
          | (Inr c2, g) \<Rightarrow> hook_run lib gd tool c2 (hook_set c2 g st1)))"

text \<open>
  One hooked call: \<open>view\<close> is the plain-data view of the arguments or its rejection, made before any
  context is set.  The \<open>finally\<close> block restores the active context and closes an opened session.
\<close>

definition hook_call :: "text_lib \<Rightarrow> time \<Rightarrow> string \<Rightarrow> 'w guard \<Rightarrow> string \<Rightarrow> string \<Rightarrow> json result \<Rightarrow> ('w, 'v) tool_fn
    \<Rightarrow> 'w hook_state \<Rightarrow> 'v result \<times> 'w hook_state" where
  "hook_call lib now uuid gd tr fname view tool st = (case view of
     Inl x \<Rightarrow> (Inl x, st)
   | Inr args \<Rightarrow>
       (let c = new_context now (mint_session_id uuid gd tr) tr in
        case hook_body lib gd fname args tool c (hook_set c (hs_gs st) st) of
          (r, c', opened, st1) \<Rightarrow>
            (let g = hs_gs st1;
                 g1 = (if opened then g\<lparr>gs_world := snd (close_session gd c' (gs_world g))\<rparr> else g)
             in (r, st1\<lparr>hs_gs := g1, hs_active := hs_active st\<rparr>))))"

section \<open>Mediation\<close>

lemma rpc_answer_cosai: "is_cosai x \<Longrightarrow> \<exists>err. rpc_answer lib payload x
    = Inr [(''jsonrpc'', JStr ''2.0''), (''id'', get_or_null payload ''id''), (''error'', JObj err)]"
  by (cases x) (auto simp: rpc_answer_def)

text \<open>
  What the wrapped dispatcher returns is a JSON-RPC error with the id of the payload, or the
  answer of the dispatcher, unchanged: then the guard admitted the request of the payload on a
  fresh session before the dispatcher ran, and the response chain accepted the response built from
  the answer.  No answer of a call that was refused, or whose answer was refused, gets out.
\<close>

theorem dispatcher_is_mediated:
  assumes "protected_dispatch lib now uuid gd f payload g = (Inr out, g')"
  shows "(\<exists>err. out = [(''jsonrpc'', JStr ''2.0''), (''id'', get_or_null payload ''id''), (''error'', JObj err)])
     \<or> (\<exists>c req g1 g2 c1 c2. c = new_context now (mint_session_id uuid gd ''rpc'') ''http''
          \<and> request_from_dict (rl_repr lib) payload (session_id c) [] [] ''rpc'' [] = Inr req
          \<and> run_request gd c req (set_ctx c g) = (Inr c1, g1) \<and> f payload (set_ctx c1 g1) = (Inr out, g2)
          \<and> run_response gd c1 (response_from_dict (rl_text lib) out) g2 = (Inr c2, g'))"
proof -
  have cosai: "rpc_answer lib payload x = Inr out \<Longrightarrow>
      \<exists>err. out = [(''jsonrpc'', JStr ''2.0''), (''id'', get_or_null payload ''id''), (''error'', JObj err)]" for x
    by (cases x) (auto simp: rpc_answer_def)
  obtain v g1 where a: "rpc_admit lib now uuid gd payload g = (v, g1)" by (cases "rpc_admit lib now uuid gd payload g")
  show ?thesis
  proof (cases v)
    case (Inl x)
    then have "rpc_answer lib payload x = Inr out" using assms a by (simp add: protected_dispatch_def)
    then show ?thesis using cosai by blast
  next
    case (Inr c1)
    from assms [unfolded protected_dispatch_def a Inr]
    have "(\<exists>err. out = [(''jsonrpc'', JStr ''2.0''), (''id'', get_or_null payload ''id''), (''error'', JObj err)])
        \<or> (\<exists>g2 c2. f payload g1 = (Inr out, g2) \<and> run_response gd c1 (response_from_dict (rl_text lib) out) g2 = (Inr c2, g'))"
      by (auto split: prod.splits sum.splits dest!: cosai)
    moreover obtain req g0 where
      "request_from_dict (rl_repr lib) payload (mint_session_id uuid gd ''rpc'') [] [] ''rpc'' [] = Inr req"
      "run_request gd (new_context now (mint_session_id uuid gd ''rpc'') ''http'') req
         (set_ctx (new_context now (mint_session_id uuid gd ''rpc'') ''http'') g) = (Inr c1, g0)" "g1 = set_ctx c1 g0"
      using a [unfolded Inr] by (auto simp: rpc_admit_def Let_def split: sum.splits prod.splits)
    moreover have "session_id (new_context now i t) = i" for i t by (simp add: new_context_def)
    ultimately show ?thesis by metis
  qed
qed

text \<open>
  C29: What a hooked call does depends on the tool only where the guard opened the session of the
  call and admitted its request: a refused call behaves the same for every tool.  The value of the
  tool is returned only after the response chain accepted the text of it, and whether the tool
  returned or raised, the session is closed in every engine on the state that was left.  Whatever
  the outcome, the active context is the one from before the call.
\<close>

theorem hooked_tool_is_mediated:
  fixes st :: "'w hook_state" and tool tool' :: "('w, 'v) tool_fn"
  assumes "hook_call lib now uuid gd tr fname view tool st = (r, st')"
  shows "hs_active st' = hs_active st
    \<and> (hook_call lib now uuid gd tr fname view tool' st = (r, st')
       \<or> (\<exists>args c c1 c2 g1 g2. view = Inr args \<and> c = new_context now (mint_session_id uuid gd tr) tr
            \<and> open_session gd c (set_ctx c (hs_gs st)) = (Inr c1, g1)
            \<and> run_request gd c1 (hook_request fname args c) (set_ctx c1 g1) = (Inr c2, g2)
            \<and> tool c2 (set_ctx c2 g2) \<noteq> tool' c2 (set_ctx c2 g2)
            \<and> (\<exists>g3. hs_gs st' = g3\<lparr>gs_world := snd (close_session gd c2 (gs_world g3))\<rparr>)
            \<and> (case r of Inl _ \<Rightarrow> True
               | Inr v \<Rightarrow> \<exists>txt g3 c3 g4. tool c2 (set_ctx c2 g2) = (Inr (v, txt), g3)
                   \<and> run_response gd c2 (response_from_text lib txt) g3 = (Inr c3, g4)
                   \<and> hs_gs st' = g4\<lparr>gs_world := snd (close_session gd c2 (gs_world g4))\<rparr>)))"
proof (cases view)
  case (Inl x)
  then show ?thesis using assms by (simp add: hook_call_def)
next
  case (Inr args)
  let ?c = "new_context now (mint_session_id uuid gd tr) tr"
  let ?st = "hook_set ?c (hs_gs st) st"
  have gs: "hs_gs ?st = set_ctx ?c (hs_gs st)" by (simp add: hook_set_def)
  have active: "hs_active st' = hs_active st"
    using assms Inr by (auto simp: hook_call_def Let_def split: prod.splits)
  consider (closed) x g where "open_session gd ?c (set_ctx ?c (hs_gs st)) = (Inl x, g)"
    | (refused) c1 g1 x g where "open_session gd ?c (set_ctx ?c (hs_gs st)) = (Inr c1, g1)"
        "run_request gd c1 (hook_request fname args ?c) (set_ctx c1 g1) = (Inl x, g)"
    | (admitted) c1 g1 c2 g2 where "open_session gd ?c (set_ctx ?c (hs_gs st)) = (Inr c1, g1)"
        "run_request gd c1 (hook_request fname args ?c) (set_ctx c1 g1) = (Inr c2, g2)"
    by (metis old.sum.exhaust surj_pair)
  then show ?thesis
  proof cases
    case closed
    then show ?thesis using assms Inr active by (simp add: hook_call_def hook_body_def gs Let_def)
  next
    case refused
    then show ?thesis using assms Inr active by (simp add: hook_call_def hook_body_def gs Let_def hook_set_def)
  next
    case admitted
    let ?st2 = "hook_set c2 g2 (hook_set c1 g1 ?st)"
    have body: "hook_body lib gd fname args t ?c ?st = hook_run lib gd t c2 ?st2" for t :: "('w, 'v) tool_fn"
      using admitted by (simp add: hook_body_def gs Let_def) (simp add: hook_set_def)
    have kept: "\<exists>r g3. hook_run lib gd t c2 ?st2 = (r, c2, True, ?st2\<lparr>hs_gs := g3\<rparr>)" for t :: "('w, 'v) tool_fn"
      by (auto simp: hook_run_def split: prod.splits sum.splits)
    have run: "hook_run lib gd t c2 ?st2 = hook_run lib gd t' c2 ?st2"
      if "t c2 (set_ctx c2 g2) = t' c2 (set_ctx c2 g2)" for t t' :: "('w, 'v) tool_fn"
      using that by (simp add: hook_run_def hook_set_def)
    obtain g3 where ran: "hook_run lib gd tool c2 ?st2 = (r, c2, True, ?st2\<lparr>hs_gs := g3\<rparr>)"
        "hs_gs st' = g3\<lparr>gs_world := snd (close_session gd c2 (gs_world g3))\<rparr>"
      using assms Inr body [of tool] kept [of tool] by (auto simp: hook_call_def Let_def)
    have gs_of: "g3 = g4" if "st\<lparr>hs_active := Some c2, hs_gs := g4\<rparr> = st\<lparr>hs_active := Some c2, hs_gs := g3\<rparr>" for g4
      using arg_cong [OF that, of hs_gs] by simp
    have ok: "case r of Inl _ \<Rightarrow> True | Inr v \<Rightarrow> \<exists>txt g3' c3 g4. tool c2 (set_ctx c2 g2) = (Inr (v, txt), g3')
        \<and> run_response gd c2 (response_from_text lib txt) g3' = (Inr c3, g4)
        \<and> hs_gs st' = g4\<lparr>gs_world := snd (close_session gd c2 (gs_world g4))\<rparr>"
      using ran by (auto simp: hook_run_def hook_set_def split: prod.splits sum.splits dest: gs_of)
    show ?thesis
    proof (cases "tool c2 (set_ctx c2 g2) = tool' c2 (set_ctx c2 g2)")
      case True
      then have "hook_call lib now uuid gd tr fname view tool' st = hook_call lib now uuid gd tr fname view tool st"
        using run [of tool tool', OF True] body Inr by (simp add: hook_call_def Let_def)
      then show ?thesis using assms active by simp
    next
      case False
      then show ?thesis using Inr admitted ran(2) ok active by blast
    qed
  qed
qed

section \<open>A concrete server\<close>

definition demo_rpc_lib :: rpc_lib where
  "demo_rpc_lib = \<lparr>rl_repr = (\<lambda>j. []), rl_text = \<lparr>tl_unescape = (\<lambda>s. s), tl_nfkc = (\<lambda>s. s), tl_str = (\<lambda>d. [])\<rparr>,
     rl_describe = (\<lambda>cls s. \<lparr>exc_cls = cls, exc_msg = s, exc_resolution = None, exc_data = None\<rparr>)\<rparr>"


lemma demo_mint: "mint_session_id u demo_open_guard tr = tr"
  by (simp add: mint_session_id_def demo_open_guard_def demo_chain_engine_def has_kind_def)

lemma demo_rpc: "protected_dispatch demo_rpc_lib 0 ''u'' demo_open_guard (\<lambda>d g. (Inr d, g)) [(''method'', JStr ''ping'')] demo_gstate
    = (Inr [(''method'', JStr ''ping'')], demo_gstate\<lparr>gs_world := 1, gs_context := Some (new_context 0 ''rpc'' ''http'')\<rparr>)"
  by (simp add: protected_dispatch_def rpc_admit_def request_from_dict_def demo_guard_passes demo_gstate_def set_ctx_def
      demo_mint Let_def)

theorem dispatcher_is_mediated_witness:
  "\<exists>c2 g'. run_response demo_open_guard (new_context 0 ''rpc'' ''http'')
     (response_from_dict (rl_text demo_rpc_lib) [(''method'', JStr ''ping'')])
     (demo_gstate\<lparr>gs_world := 1, gs_context := Some (new_context 0 ''rpc'' ''http''), gs_inflight := Some ''ping''\<rparr>) = (Inr c2, g')"
  using dispatcher_is_mediated [OF demo_rpc] by (auto simp: demo_guard_passes)

definition demo_tool :: "string \<Rightarrow> (nat, string) tool_fn" where
  "demo_tool v c g = (Inr (v, v), g)"

definition demo_hook_state :: "nat hook_state" where
  "demo_hook_state = \<lparr>hs_gs = demo_gstate, hs_active = Some demo_ctx\<rparr>"

theorem hooked_tool_is_mediated_witness:
  "hs_active (snd (hook_call (rl_text demo_rpc_lib) 0 ''u'' demo_open_guard ''stdio'' ''t'' (Inr (JObj [])) (demo_tool ''a'') demo_hook_state))
     = Some demo_ctx
   \<and> fst (hook_call (rl_text demo_rpc_lib) 0 ''u'' demo_open_guard ''stdio'' ''t'' (Inr (JObj [])) (demo_tool ''a'') demo_hook_state) = Inr ''a''"
proof -
  let ?call = "hook_call (rl_text demo_rpc_lib) 0 ''u'' demo_open_guard ''stdio'' ''t'' (Inr (JObj [])) (demo_tool ''a'') demo_hook_state"
  have "fst ?call = Inr ''a''"
    by (simp add: hook_call_def hook_body_def hook_run_def hook_set_def demo_guard_passes demo_tool_def Let_def split: prod.splits)
  moreover have "hs_active (snd ?call) = hs_active demo_hook_state"
    using hooked_tool_is_mediated [of "rl_text demo_rpc_lib" 0 "''u''" demo_open_guard "''stdio''" "''t''" "Inr (JObj [])"
      "demo_tool ''a''" demo_hook_state "fst ?call" "snd ?call" "demo_tool ''a''"] by simp
  ultimately show ?thesis by (simp add: demo_hook_state_def)
qed

end
