(* ===== verification/Deploy.thy ===== *)
theory Deploy
  imports Chain Middleware
begin

text \<open>
  The deployed program: \<open>ArmorMiddleware\<close> around the guard of a configuration with the engines of
  the library.  The contract \<open>armored\<close> of the adapter is discharged for these engines, and what
  the engines guarantee together is carried over to the HTTP requests the application sees.
\<close>

section \<open>The engines keep the contract of the adapter\<close>

lemma lifted_response: "response_hook hook \<Longrightarrow> response_hook (lift_hook get put hook)"
  by unfold_locales (auto simp: lift_hook_ok dest: response_hook.frame)

lemma chain_response_frame: "response_hook (chain_response lib env k)"
  by (cases k) (simp_all add: lifted_response audit_rs.response_hook_axioms supply_rs.response_hook_axioms
      boundary_rs.response_hook_axioms integrity_rs.response_hook_axioms protection_rs.response_hook_axioms
      trust_rs.response_hook_axioms pass_resp.response_hook_axioms)

lemma restored_session: "restore_budget c e = (c1, e1) \<Longrightarrow> same_session c c1"
  by (auto simp: restore_budget_def Let_def split: option.splits if_splits)

lemma chain_start_frame: "chain_session_start lib env k c w = (Inr c', w') \<Longrightarrow> same_session c c'"
  by (cases k) (auto simp: resource_on_session_start_def Let_def split: prod.splits dest: restored_session)

lemma engine_start: "en_session_start (chain_engine lib env w0 k) = chain_session_start lib env k"
  by (simp add: chain_engine_def)

interpretation armor_http: armored "map (chain_engine lib env w0) ks" for lib env w0 ks
  by unfold_locales (auto simp: engine_start chain_engine_def dest: chain_start_frame response_hook.frame [OF chain_response_frame])

section \<open>Opening a session\<close>

text \<open>What the engines know before the request of a session: everything but its budgets and the log.\<close>

definition same_rules :: "('s, 'k) world \<Rightarrow> ('s, 'k) world \<Rightarrow> bool" where
  "same_rules w w' = (w_auth w' = w_auth w \<and> w_session w' = w_session w \<and> w_supply w' = w_supply w \<and> w_authz w' = w_authz w
     \<and> w_validation w' = w_validation w \<and> max_calls (w_resource w') = max_calls (w_resource w))"

lemma same_rules_refl [simp]: "same_rules w w"
  by (simp add: same_rules_def)

lemma same_rules_trans: "same_rules w w1 \<Longrightarrow> same_rules w1 w2 \<Longrightarrow> same_rules w w2"
  by (simp add: same_rules_def)

lemma chain_start_rules: "chain_session_start lib env k c w = (r, w') \<Longrightarrow> same_rules w w'"
  using session_start_engine [of "ce_seen env" c "w_resource w"]
  by (cases k) (auto simp: same_rules_def split: prod.splits)

lemma open_rules: "open_chain (map (chain_engine lib env w0) ks) c g = (r, g') \<Longrightarrow> same_rules (gs_world g) (gs_world g')"
proof (induction ks arbitrary: c g)
  case (Cons k ks)
  obtain v w where s: "chain_session_start lib env k c (gs_world g) = (v, w)" by (cases "chain_session_start lib env k c (gs_world g)")
  note first = chain_start_rules [OF s]
  show ?case
  proof (cases v)
    case (Inl x)
    with Cons.prems s first show ?thesis by (auto simp: engine_start)
  next
    case (Inr c1)
    with Cons.prems s have "open_chain (map (chain_engine lib env w0) ks) c1 (g\<lparr>gs_world := w, gs_context := Some c1\<rparr>) = (r, g')"
      by (simp add: engine_start)
    from Cons.IH [OF this] first show ?thesis by (auto intro: same_rules_trans)
  qed
qed simp

lemma granted_same_rules: "same_rules w w' \<Longrightarrow> granted_call lib env w' req tool c = granted_call lib env w req tool c"
  unfolding same_rules_def granted_call_def by (elim conjE) (simp only:)

lemma set_active_world [simp]: "gs_world (ms_gs (set_active c st)) = gs_world (ms_gs st)"
  by (simp add: set_active_def)

text \<open>An admitted request reached the guard on the session of the adapter, with the rules of the state before.\<close>

lemma admitted_run:
  assumes "admit wl mw sc payload s c0 st = (Inr c, c2, st')" and "gd_engines (mw_guard mw) = map (chain_engine lib env w0) ks"
  obtains c1 g req g' where "http_request wl sc (fst s) payload = Inr req" and "run_request (mw_guard mw) c1 req g = (Inr c, g')"
    and "same_session c0 c1" and "same_rules (gs_world (ms_gs st)) (gs_world g)" and "snd s = Existing \<Longrightarrow> c1 = c0"
proof -
  from assms(1) obtain c1 st1 req g' where o: "open_request mw s c0 st = (Inr c1, st1)"
    "http_request wl sc (fst s) payload = Inr req" "run_request (mw_guard mw) c1 req (ms_gs st1) = (Inr c, g')"
    by (auto simp: admit_def split: prod.splits sum.splits)
  show thesis
  proof (cases "snd s = Existing")
    case True
    then have "c1 = c0" "st1 = st" using o(1) by (simp_all add: open_request_def)
    then show ?thesis by (intro that [OF o(2,3)]) simp_all
  next
    case False
    with o(1) obtain g where g: "open_session (mw_guard mw) c0 (ms_gs st) = (Inr c1, g)" and w: "gs_world (ms_gs st1) = gs_world g"
      by (auto simp: open_request_def set_active_def Let_def split: prod.splits sum.splits)
    from g have "open_chain (map (chain_engine lib env w0) ks) c0 (ms_gs st) = (Inr c1, g)"
      by (simp add: open_session_def assms(2))
    note o2 = armor_http.open_frame [OF order.refl this] open_rules [OF this]
    show ?thesis
      by (rule that [OF o(2,3) o2(1)]) (use o2(2) w False in simp_all)
  qed
qed

section \<open>The handshake phase along the chain\<close>

lemma phase_kept: "chain_request lib env k c req w = (Inr c', w') \<Longrightarrow> k \<noteq> SessionE \<Longrightarrow> handshake_phase c' = handshake_phase c"
proof (cases k)
  case AuthE
  assume "chain_request lib env k c req w = (Inr c', w')"
  with AuthE obtain e where "auth_on_request (ch_jwt lib) (ch_replay lib) (ce_auth env) c req (w_auth w) = (Inr c', e)"
    by (auto simp: lift_hook_ok)
  then show ?thesis unfolding auth_on_request_ok by (auto simp: identify_def Let_def context_defs split: if_splits)
next
  case ResourceE
  assume "chain_request lib env k c req w = (Inr c', w')"
  with ResourceE obtain e where r: "resource_on_request (ch_loads lib) (ce_seen env) (ce_charged env) c req (w_resource w) = (Inr c', e)"
    by (auto simp: lift_hook_ok)
  show ?thesis
    by (cases rule: resource_on_request_cases [of req "ch_loads lib" "ce_seen env" "ce_charged env" c "w_resource w"])
      (use r in auto)
next
  case AuditE
  assume "chain_request lib env k c req w = (Inr c', w')"
  with AuditE show ?thesis by (auto simp: lift_hook_ok audit_on_request_def with_audit_parent_def split: prod.splits)
qed (auto simp: lift_hook_ok pass_request_def
      dest: network_keeps supply_keeps authz_keeps envelope_keeps boundary_keeps validation_keeps)

text \<open>A session that has not completed the handshake gets nothing but the handshake through the chain.\<close>

lemma pending_refused:
  assumes "request_chain False all (map (chain_engine lib env w0) ks) c req g = (Inr c', g')" and "distinct ks" and "SessionE \<in> set ks"
    and "se_require_handshake (w_session (gs_world g))" and "handshake_phase c \<noteq> ACTIVE"
  shows "rq_method req \<in> set handshake_allowed_methods"
proof -
  from stage [OF assms(1,3)] obtain ks1 ks2 c1 g1 c2 w2 where s: "ks = ks1 @ SessionE # ks2"
    "request_chain False all (map (chain_engine lib env w0) ks1) c req g = (Inr c1, g1)"
    "chain_request lib env SessionE c1 req (gs_world g1) = (Inr c2, w2)" by metis
  have n: "SessionE \<notin> set ks1" using assms(2) s(1) by auto
  have "handshake_phase c1 = handshake_phase c \<and> () = ()"
    by (rule chain_keeps [OF s(2)]) (use n phase_kept in blast)
  moreover from s(3) part_kept(2) [OF s(2) n] have "handshake_gate c1 (rq_method req) = Inr c2"
    using assms(4) by (auto simp: lift_hook_ok session_hook_def session_on_request_ok)
  ultimately show ?thesis using assms(5) by (auto simp: handshake_gate_def handshake_allowed_methods_def split: if_splits)
qed

section \<open>What the application sees\<close>

definition armor_middleware :: "('s, 'k) chain_lib \<Rightarrow> call_env \<Rightarrow> ('s, 'k) world \<Rightarrow> armor_config \<Rightarrow> nat \<Rightarrow> nat
    \<Rightarrow> string list option \<Rightarrow> ('s, 'k) world middleware" where
  "armor_middleware lib env w0 cfg = new_middleware (\<lambda>e. se_require_handshake (w_session w0))
     (\<lambda>e. be_scan_responses (w_boundary w0)) (\<lambda>e. te_strip (w_trust w0)) (\<not> az_default_deny (w_authz w0))
     (chain_guard lib env w0 cfg)"

lemma armor_parts:
  "mw_guard (armor_middleware lib env w0 cfg mb mr cors) = chain_guard lib env w0 cfg"
  "gd_engines (mw_guard (armor_middleware lib env w0 cfg mb mr cors)) = map (chain_engine lib env w0) (config_kinds cfg)"
  "mw_handshake_enforced (armor_middleware lib env w0 cfg mb mr cors)
     \<longleftrightarrow> SessionE \<in> set (config_kinds cfg) \<and> se_require_handshake (w_session w0)"
  by (auto simp: armor_middleware_def new_middleware_def chain_guard_def list_ex_iff chain_engine_def has_kind_def)

lemma request_read_method:
  assumes "request_from_dict repr d sid hs qs tr ps = Inr req" and "method_of d = JStr m"
  shows "rq_method req = m" and "rq_transport req = tr"
    and "dget d ''params'' = Some (JObj params) \<Longrightarrow> rq_params req = params"
  using assms by (auto simp: request_from_dict_def Let_def method_of_def str_of_def split: option.splits json.splits)


text \<open>
  C14: With the handshake required, a request on a session this worker never saw initialized never
  reaches the application unless it belongs to the handshake itself: an id that another worker
  signed, or whose context was evicted, fails closed, whatever the other engines say.
\<close>

theorem unknown_sessions_fail_closed:
  fixes app app' :: "('s, 'k) world app"
  assumes mw_def: "mw = armor_middleware lib env w0 cfg mb mr cors"
    and "se_require_handshake (w_session w0)" and "w_session (gs_world (ms_gs st)) = w_session w0"
    and "SessionE \<in> set (config_kinds cfg)" and "\<not> ac_dry_run cfg"
    and "read_request wl mw sc msgs = Inr (raw, payload)" and "resolve_session uuid mw sc payload = Some (sid, Existing)"
    and "dget (ms_sessions st) sid = None" and "method_of payload = JStr m"
    and "m \<notin> set handshake_allowed_methods"
  shows "handle_http wl now uuid mw app sc msgs st = handle_http wl now uuid mw app' sc msgs st"
proof (rule ccontr)
  assume "handle_http wl now uuid mw app sc msgs st \<noteq> handle_http wl now uuid mw app' sc msgs st"
  with applications_distinguished [of wl now uuid mw app sc msgs st app'] assms(6,7)
  obtain c c' st1 where a: "admit wl mw sc payload (sid, Existing) (initial_context now mw (sid, Existing) st)
      (set_active (initial_context now mw (sid, Existing) st) st) = (Inr c, c', st1)" by auto
  obtain c1 g req g' where r: "http_request wl sc sid payload = Inr req" "run_request (mw_guard mw) c1 req g = (Inr c, g')"
    "same_rules (gs_world (ms_gs (set_active (initial_context now mw (sid, Existing) st) st))) (gs_world g)"
    "c1 = initial_context now mw (sid, Existing) st"
    by (rule admitted_run [OF a armor_parts(2) [of lib env w0 cfg mb mr cors, folded mw_def]]) (simp only: fst_conv snd_conv)
  have "handshake_phase c1 = PENDING"
    using r(4) assms(2,4,8) armor_parts(3) [of lib env w0 cfg mb mr cors, folded mw_def]
    by (simp add: initial_context_def Let_def context_defs)
  moreover have "request_chain False (map (chain_engine lib env w0) (config_kinds cfg)) (map (chain_engine lib env w0) (config_kinds cfg))
      c1 req (g\<lparr>gs_inflight := Some (rq_method req)\<rparr>) = (Inr c, g')"
    using r(2) assms(5) by (simp add: mw_def armor_parts run_request_def chain_guard_def)
  moreover have "rq_method req = m" using request_read_method(1) [OF r(1) [unfolded http_request_def] assms(9)] .
  moreover have "se_require_handshake (w_session (gs_world g))" using r(3) assms(2,3) by (simp add: same_rules_def)
  ultimately show False using pending_refused [OF _ config_kinds_distinct assms(4)] assms(10) by fastforce
qed

section \<open>A concrete deployment\<close>

definition demo_http :: "(jti_cache, nat) world \<Rightarrow> (jti_cache, nat) world middleware" where
  "demo_http w0 = armor_middleware demo_chain_lib demo_call_env w0 demo_chain_config 8 8 None"

definition demo_http_wire :: wire_lib where
  "demo_http_wire = demo_wire\<lparr>wl_parse := (\<lambda>b. Some (JObj [(''method'', JStr ''tools/call''), (''params'', JObj (rq_params demo_tool_call))]))\<rparr>"

definition demo_http_scope :: http_scope where
  "demo_http_scope = \<lparr>sp_method = ''POST'', sp_path = ''/mcp'', sp_query = [], sp_headers = demo_headers, sp_client = None\<rparr>"

definition demo_http_state :: "(jti_cache, nat) world \<Rightarrow> (jti_cache, nat) world mw_state" where
  "demo_http_state w = \<lparr>ms_gs = \<lparr>gs_world = w, gs_context = None, gs_inflight = None\<rparr>, ms_sessions = [], ms_active = None\<rparr>"

definition demo_payload :: "(string, json) dict" where
  "demo_payload = [(''method'', JStr ''tools/call''), (''params'', JObj (rq_params demo_tool_call))]"

definition demo_failing :: "string option \<Rightarrow> (jti_cache, nat) world app" where
  "demo_failing m c sc raw g = (Inl (PyExc TypeError []), g\<lparr>gs_inflight := m\<rparr>)"

lemma demo_http_reading: "read_request demo_http_wire (demo_http w0) demo_http_scope [([3], False)] = Inr ([3], demo_payload)"
proof -
  have mw: "mw_cors (demo_http w0) = None" "mw_max_body (demo_http w0) = 8"
    by (simp_all add: demo_http_def armor_middleware_def new_middleware_def)
  have "check_request_envelope_keys (JObj demo_payload) = Inr ()" by code_simp
  moreover have "strict_json_loads (wl_parse demo_http_wire) [3] = Inr (JObj demo_payload)" by code_simp
  moreover have "dict_of_pairs demo_headers = demo_headers" by (simp add: dict_of_pairs_def demo_headers_def)
  moreover have "media_type [] = []" "lower (strip []) = []" by code_simp+
  ultimately show ?thesis
    by (simp add: read_request_def mw demo_http_scope_def header_or_empty_def Let_def demo_headers_def)
qed

lemma demo_http_session: "resolve_session uuid (demo_http w0) demo_http_scope demo_payload = Some (session_id demo_call_ctx, Existing)"
proof -
  have "session_id demo_call_ctx \<noteq> []" by (simp add: demo_call_ctx_def new_context_def mint_token_def Let_def)
  then show ?thesis
    by (simp add: resolve_session_def method_of_def demo_payload_def demo_http_scope_def dict_of_pairs_def header_or_empty_def
        session_header_def Let_def demo_headers_def)
qed

lemma demo_http_request: "http_request demo_http_wire demo_http_scope (session_id demo_call_ctx) demo_payload = Inr demo_tool_call"
  by (simp add: http_request_def request_from_dict_def demo_payload_def demo_http_scope_def parse_qs_def dict_of_pairs_def
      demo_headers_def demo_tool_call_def Validation.demo_call_def str_of_def)

lemma demo_http_run:
  "gs_inflight (ms_gs (snd (handle_http demo_http_wire 0 uuid (demo_http demo_world) (demo_failing m) demo_http_scope
     [([3], False)] (demo_http_state demo_world)))) = m"
proof -
  have g: "mw_guard (demo_http demo_world) = chain_guard demo_chain_lib demo_call_env demo_world demo_chain_config"
    by (simp add: demo_http_def armor_parts)
  have h: "mw_handshake_enforced (demo_http demo_world) = False"
    by (simp add: demo_http_def armor_parts demo_world_def)
  have c: "initial_context 0 (demo_http demo_world) (session_id demo_call_ctx, Existing) (demo_http_state demo_world) = demo_call_ctx"
    using h by (simp add: initial_context_def demo_http_state_def demo_call_ctx_def new_context_def)
  obtain c1 g1 where r: "run_request (chain_guard demo_chain_lib demo_call_env demo_world demo_chain_config) demo_call_ctx demo_tool_call
     \<lparr>gs_world = demo_world, gs_context = Some demo_call_ctx, gs_inflight = None\<rparr> = (Inr c1, g1)"
    using demo_chain_run by blast
  have s: "ms_gs (demo_http_state demo_world)\<lparr>gs_context := Some demo_call_ctx\<rparr>
      = \<lparr>gs_world = demo_world, gs_context = Some demo_call_ctx, gs_inflight = None\<rparr>"
    by (simp add: demo_http_state_def)
  show ?thesis
    by (simp add: handle_http_def demo_http_reading demo_http_session c exchange_def admit_def open_request_def demo_http_request g
        s r demo_failing_def finish_def Let_def persist_def set_active_def)
qed


definition demo_strict_world :: "(jti_cache, nat) world" where
  "demo_strict_world = demo_world\<lparr>w_session := \<lparr>se_secret = [1], se_require_handshake = True\<rparr>\<rparr>"

theorem unknown_sessions_fail_closed_witness:
  "handle_http demo_http_wire 0 [] (demo_http demo_strict_world) (demo_failing None) demo_http_scope [([3], False)] (demo_http_state demo_strict_world)
   = handle_http demo_http_wire 0 [] (demo_http demo_strict_world) (demo_failing (Some [])) demo_http_scope [([3], False)]
       (demo_http_state demo_strict_world)"
proof (rule unknown_sessions_fail_closed [OF demo_http_def _ _ _ _ demo_http_reading demo_http_session])
  show "method_of demo_payload = JStr ''tools/call''" by (simp add: demo_payload_def method_of_def)
qed (use demo_chain_kinds in \<open>simp_all add: demo_strict_world_def demo_http_state_def handshake_allowed_methods_def\<close>)

end
