(* ===== verification/Spec2Isabelle.thy ===== *)
theory Spec2Isabelle
  imports Session Resources Authz Auth AuditLog Integrity RequestState Handles Guard Numeric Validation Protection Boundary Envelope Chain
    Wire Middleware Sidecar Adapters Deploy
begin

text \<open>
  Verification of mcp-armor (src/mcp_armor).
\<close>

end
